(* ===== verification/Nhr_Prelude.thy ===== *)
theory Nhr_Prelude
  imports Main "HOL-Library.Word"
begin

text \<open>
  Shared vocabulary of the libnhr development.

  A C function that can go wrong (an access outside an object, a NULL dereference, a failed
  \<open>assert\<close>, a conversion whose behaviour C leaves undefined) returns a value of type
  \<open>'a res\<close>, that is \<open>fault + 'a\<close>; \<open>r_bind\<close> sequences such computations the way
  statements are sequenced. Bytes are HOL's 8-bit characters, so that C literals can be
  written as they are.

  A pointer into a block that is only read is modelled by the bytes from that position to
  the end of the block: reading through it at the end of the block, or moving it past the
  end, is the fault \<open>OutOfBounds\<close>, \<open>p++\<close> is \<open>tl\<close> and the difference of two such
  pointers is the difference of the lengths.
\<close>

section \<open>Faults and the result type\<close>

datatype fault =
    OutOfBounds       \<comment> \<open>a read or write outside the object a pointer points into\<close>
  | NullDeref         \<comment> \<open>a read or write through NULL\<close>
  | BadPointer        \<comment> \<open>a use or free of memory that is not allocated\<close>
  | AssertFailed      \<comment> \<open>a failed \<open>assert\<close>\<close>
  | ConvRange         \<comment> \<open>a \<open>scanf\<close> conversion whose result the target type cannot hold\<close>
  | OutOfFuel         \<comment> \<open>the bound on a loop over calls to an external library is used up\<close>

type_synonym 'a res = "fault + 'a"

fun r_bind :: "'a res \<Rightarrow> ('a \<Rightarrow> 'b res) \<Rightarrow> 'b res" where
  "r_bind (Inl e) f = Inl e"
| "r_bind (Inr x) f = f x"

lemma r_bind_cong [fundef_cong]:
  "m = m' \<Longrightarrow> (\<And>x. m' = Inr x \<Longrightarrow> f x = f' x) \<Longrightarrow> r_bind m f = r_bind m' f'"
  by (cases m') auto

lemma r_bind_Inr_conv: "r_bind m f = Inr y \<longleftrightarrow> (\<exists>x. m = Inr x \<and> f x = Inr y)"
  by (cases m) auto

lemma r_bind_Inl_conv:
  "r_bind m f = Inl e \<longleftrightarrow> m = Inl e \<or> (\<exists>x. m = Inr x \<and> f x = Inl e)"
  by (cases m) auto

lemma r_bind_assoc: "r_bind (r_bind m f) g = r_bind m (\<lambda>x. r_bind (f x) g)"
  by (cases m) auto

lemma r_bind_Inr_right [simp]: "r_bind m Inr = m"
  by (cases m) auto

lemma r_bindE:
  assumes "r_bind m f = Inr y"
  obtains x where "m = Inr x" "f x = Inr y"
  using assms by (auto simp: r_bind_Inr_conv)

definition r_check :: "bool \<Rightarrow> fault \<Rightarrow> unit res" where
  "r_check b e = (if b then Inr () else Inl e)"

lemma r_check_simps [simp]:
  "b \<Longrightarrow> r_check b e = Inr ()"
  "\<not> b \<Longrightarrow> r_check b e = Inl e"
  "r_check b e = Inr u \<longleftrightarrow> b"
  by (auto simp: r_check_def)

section \<open>Bytes, sizes and the constants of nhr_common.c\<close>

type_synonym byte = char
type_synonym bytes = "char list"
type_synonym size_t = "64 word"

abbreviation NUL :: char where "NUL \<equiv> CHR 0x00"
abbreviation CR :: char where "CR \<equiv> CHR 0x0D"
abbreviation LF :: char where "LF \<equiv> CHR 0x0A"

definition k_nhr_request_http_ver :: string where "k_nhr_request_http_ver = ''1.1''"
definition k_nhr_content_type :: string where "k_nhr_content_type = ''Content-Type''"
definition k_nhr_application_x_www_form_urlencoded :: string where
  "k_nhr_application_x_www_form_urlencoded = ''application/x-www-form-urlencoded''"
definition k_nhr_transfer_encoding :: string where
  "k_nhr_transfer_encoding = ''Transfer-Encoding''"
definition k_nhr_content_encoding :: string where
  "k_nhr_content_encoding = ''Content-Encoding''"
definition k_nhr_CRLF :: string where "k_nhr_CRLF = [CR, LF]"
definition k_nhr_double_CRLF :: string where "k_nhr_double_CRLF = [CR, LF, CR, LF]"
definition k_nhr_content_length :: string where "k_nhr_content_length = ''Content-Length''"
definition k_nhr_chunked :: string where "k_nhr_chunked = ''chunked''"
definition k_nhr_gzip :: string where "k_nhr_gzip = ''gzip''"
definition k_nhr_deflate :: string where "k_nhr_deflate = ''deflate''"
definition k_nhr_GET :: string where "k_nhr_GET = ''GET''"
definition k_nhr_POST :: string where "k_nhr_POST = ''POST''"

lemmas k_nhr_defs =
  k_nhr_request_http_ver_def k_nhr_content_type_def
  k_nhr_application_x_www_form_urlencoded_def k_nhr_transfer_encoding_def
  k_nhr_content_encoding_def k_nhr_CRLF_def k_nhr_double_CRLF_def
  k_nhr_content_length_def k_nhr_chunked_def k_nhr_gzip_def k_nhr_deflate_def
  k_nhr_GET_def k_nhr_POST_def

definition k_nhr_CRLF_length :: nat where "k_nhr_CRLF_length = 2"
definition k_nhr_double_CRLF_length :: nat where "k_nhr_double_CRLF_length = 4"

lemma length_k_nhr_CRLF [simp]: "length k_nhr_CRLF = 2"
  by (simp add: k_nhr_CRLF_def)

lemma length_k_nhr_double_CRLF [simp]: "length k_nhr_double_CRLF = 4"
  by (simp add: k_nhr_double_CRLF_def)

section \<open>Character classes of ctype.h in the C locale\<close>

abbreviation char_code :: "char \<Rightarrow> nat" where "char_code c \<equiv> of_char c"

definition isdigit :: "char \<Rightarrow> bool" where
  "isdigit c \<longleftrightarrow> 48 \<le> char_code c \<and> char_code c \<le> 57"

definition isalpha :: "char \<Rightarrow> bool" where
  "isalpha c \<longleftrightarrow> 65 \<le> char_code c \<and> char_code c \<le> 90 \<or> 97 \<le> char_code c \<and> char_code c \<le> 122"

definition isalnum :: "char \<Rightarrow> bool" where
  "isalnum c \<longleftrightarrow> isdigit c \<or> isalpha c"

definition isxdigit :: "char \<Rightarrow> bool" where
  "isxdigit c \<longleftrightarrow> isdigit c \<or> 65 \<le> char_code c \<and> char_code c \<le> 70
     \<or> 97 \<le> char_code c \<and> char_code c \<le> 102"

definition isspace :: "char \<Rightarrow> bool" where
  "isspace c \<longleftrightarrow> char_code c = 32 \<or> 9 \<le> char_code c \<and> char_code c \<le> 13"

lemmas ctype_defs = isdigit_def isalpha_def isalnum_def isxdigit_def isspace_def

lemma isdigit_isxdigit [simp]: "isdigit c \<Longrightarrow> isxdigit c"
  by (simp add: isxdigit_def)

lemma isdigit_isalnum [simp]: "isdigit c \<Longrightarrow> isalnum c"
  by (simp add: isalnum_def)

lemma isxdigit_isalnum: "isxdigit c \<Longrightarrow> isalnum c"
  by (auto simp: ctype_defs)

lemma isalnum_not_isspace: "isalnum c \<Longrightarrow> \<not> isspace c"
  by (auto simp: ctype_defs)

lemma isxdigit_not_isspace: "isxdigit c \<Longrightarrow> \<not> isspace c"
  by (simp add: isalnum_not_isspace isxdigit_isalnum)

lemma isxdigit_not_NUL: "isxdigit c \<Longrightarrow> c \<noteq> NUL"
  by (auto simp: ctype_defs)

lemma isspace_CR_LF [simp]: "isspace CR" "isspace LF" "isspace CHR '' ''"
  by (simp_all add: isspace_def)

lemma not_isxdigit_CR_LF [simp]: "\<not> isxdigit CR" "\<not> isxdigit LF" "\<not> isxdigit CHR '' ''"
  by (simp_all add: ctype_defs)

lemma not_isdigit_CR_LF [simp]: "\<not> isdigit CR" "\<not> isdigit LF" "\<not> isdigit CHR '' ''"
  by (simp_all add: ctype_defs)

section \<open>Lists\<close>

lemma takeWhile_append_all:
  "(\<And>x. x \<in> set xs \<Longrightarrow> P x) \<Longrightarrow> takeWhile P (xs @ ys) = xs @ takeWhile P ys"
  by (induction xs) auto

lemma dropWhile_append_all:
  "(\<And>x. x \<in> set xs \<Longrightarrow> P x) \<Longrightarrow> dropWhile P (xs @ ys) = dropWhile P ys"
  by (induction xs) auto

lemma takeWhile_not_in:
  "c \<notin> set xs \<Longrightarrow> takeWhile (\<lambda>x. x \<noteq> c) (xs @ ys) = xs @ takeWhile (\<lambda>x. x \<noteq> c) ys"
  by (induction xs) auto

lemma takeWhile_stop: "\<not> P x \<Longrightarrow> takeWhile P (x # xs) = []"
  by simp

lemma dropWhile_eq_drop: "dropWhile P xs = drop (length (takeWhile P xs)) xs"
  by (induction xs) auto

lemma take_take_append: "take n (take n xs @ ys) = take n (xs @ ys)"
  by (simp add: min_def)

section \<open>Words\<close>

lemma unat_of_nat_len: "n < 2 ^ LENGTH('a) \<Longrightarrow> unat (of_nat n :: 'a::len word) = n"
  by (simp add: unat_of_nat)

lemma unat_of_nat_64: "n < 2 ^ 64 \<Longrightarrow> unat (of_nat n :: 64 word) = n"
  by (rule unat_of_nat_len) simp

lemma unat_of_nat_32: "n < 2 ^ 32 \<Longrightarrow> unat (of_nat n :: 32 word) = n"
  by (rule unat_of_nat_len) simp

section \<open>Generic state systems\<close>

text \<open>
  The interface that every state machine of the development has: initial states and a step
  relation. The client's lemma, proved once, lifts a one-step invariant to every reachable
  state.
\<close>

locale step_system =
  fixes init :: "'s \<Rightarrow> bool"
    and step :: "'s \<Rightarrow> 's \<Rightarrow> bool"
    and inv :: "'s \<Rightarrow> bool"
  assumes init_inv: "init s \<Longrightarrow> inv s"
    and step_inv: "inv s \<Longrightarrow> step s t \<Longrightarrow> inv t"
begin

lemma steps_inv: "step\<^sup>*\<^sup>* s t \<Longrightarrow> inv s \<Longrightarrow> inv t"
  by (induction rule: rtranclp_induct) (auto intro: step_inv)

lemma reachable_inv: "init s \<Longrightarrow> step\<^sup>*\<^sup>* s t \<Longrightarrow> inv t"
  by (blast intro: steps_inv init_inv)

end

end
