(* ===== verification/C_String.thy ===== *)
theory C_String
  imports Nhr_Prelude
begin

text \<open>
  The functions of \<open>string.h\<close> that libnhr calls, over the pointer model of the prelude. A
  function that C specifies for strings is given a string: a block with no NUL at or after
  the pointer is the fault \<open>OutOfBounds\<close>.
\<close>

section \<open>Strings in memory\<close>

definition c_string :: "bytes \<Rightarrow> string res" where
  "c_string p = (if NUL \<in> set p then Inr (takeWhile (\<lambda>c. c \<noteq> NUL) p) else Inl OutOfBounds)"

definition cstr :: "string \<Rightarrow> bytes" where
  "cstr s = s @ [NUL]"

definition strlen :: "bytes \<Rightarrow> nat res" where
  "strlen p = r_bind (c_string p) (\<lambda>s. Inr (length s))"

lemma c_string_append:
  "NUL \<notin> set s \<Longrightarrow> c_string (s @ NUL # t) = Inr s"
  by (simp add: c_string_def takeWhile_not_in)

lemma c_string_cstr [simp]: "NUL \<notin> set s \<Longrightarrow> c_string (cstr s) = Inr s"
  by (simp add: cstr_def c_string_append)

lemma strlen_cstr [simp]: "NUL \<notin> set s \<Longrightarrow> strlen (cstr s) = Inr (length s)"
  by (simp add: strlen_def)

lemma c_string_Inr_conv:
  "c_string p = Inr s \<longleftrightarrow> NUL \<in> set p \<and> s = takeWhile (\<lambda>c. c \<noteq> NUL) p"
  by (auto simp: c_string_def)

lemma c_string_prefix:
  assumes "NUL \<notin> set xs"
  shows "c_string (xs @ ys) = r_bind (c_string ys) (\<lambda>s. Inr (xs @ s))"
  using assms by (auto simp: c_string_def takeWhile_not_in)

lemma c_string_no_NUL: "c_string p = Inr s \<Longrightarrow> NUL \<notin> set s"
  by (auto simp: c_string_Inr_conv dest: set_takeWhileD)

lemma c_string_total: "NUL \<in> set p \<Longrightarrow> \<exists>s. c_string p = Inr s"
  by (simp add: c_string_def)

section \<open>Searching\<close>

fun find_sub :: "string \<Rightarrow> string \<Rightarrow> nat option" where
  "find_sub needle [] = (if needle = [] then Some 0 else None)"
| "find_sub needle (c # cs) =
     (if take (length needle) (c # cs) = needle then Some 0
      else map_option Suc (find_sub needle cs))"

definition strstr :: "bytes \<Rightarrow> string \<Rightarrow> bytes option res" where
  "strstr p needle = r_bind (c_string p) (\<lambda>s. Inr (map_option (\<lambda>i. drop i p) (find_sub needle s)))"

fun strncmp_eq :: "bytes \<Rightarrow> string \<Rightarrow> bool res" where
  \<comment> \<open>\<open>strncmp(p, lit, strlen(lit)) == 0\<close>: stops at the first difference, so at p's NUL\<close>
  "strncmp_eq p [] = Inr True"
| "strncmp_eq [] (c # cs) = Inl OutOfBounds"
| "strncmp_eq (x # p) (c # cs) = (if x = c then strncmp_eq p cs else Inr False)"

lemma find_sub_Some:
  "find_sub needle s = Some i \<Longrightarrow>
     i + length needle \<le> length s \<and> take (length needle) (drop i s) = needle"
proof (induction s arbitrary: i)
  case Nil
  then show ?case by (auto split: if_splits)
next
  case (Cons c cs)
  show ?case
  proof (cases "take (length needle) (c # cs) = needle")
    case True
    moreover from this have "length needle \<le> length (c # cs)"
      by (metis length_take min.cobounded1)
    ultimately show ?thesis using Cons.prems by auto
  next
    case False
    then show ?thesis using Cons by auto
  qed
qed

lemma find_sub_first:
  "find_sub needle s = Some i \<Longrightarrow> j < i \<Longrightarrow> take (length needle) (drop j s) \<noteq> needle"
proof (induction s arbitrary: i j)
  case Nil
  then show ?case by (auto split: if_splits)
next
  case (Cons c cs)
  then show ?case by (cases j) (auto split: if_splits)
qed

lemma find_sub_None:
  "find_sub needle s = None \<Longrightarrow> take (length needle) (drop j s) \<noteq> needle"
proof (induction s arbitrary: j)
  case Nil
  then show ?case by (auto split: if_splits)
next
  case (Cons c cs)
  then show ?case by (cases j) (auto split: if_splits)
qed

lemma find_sub_here: "find_sub needle (needle @ s) = Some 0"
proof (cases "needle @ s")
  case (Cons c cs)
  then have "take (length needle) (c # cs) = needle"
    by (metis append_eq_conv_conj)
  with Cons show ?thesis by simp
qed simp

lemma find_sub_absent:
  assumes "\<And>j. take (length needle) (drop j s) \<noteq> needle"
  shows "find_sub needle s = None"
  using assms find_sub_Some by (cases "find_sub needle s") auto

text \<open>
  How a search passes over a prefix: no occurrence starts inside it when the first
  character of the needle is not in it.
\<close>

lemma find_sub_skip:
  assumes "c \<notin> set xs"
  shows "find_sub (c # cs) (xs @ ys) = map_option ((+) (length xs)) (find_sub (c # cs) ys)"
  using assms
proof (induction xs)
  case Nil
  then show ?case by (cases "find_sub (c # cs) ys") auto
next
  case (Cons x xs)
  then have "x \<noteq> c" by auto
  with Cons show ?case
    by (cases "find_sub (c # cs) ys") auto
qed

lemma find_sub_not_in: "c \<notin> set s \<Longrightarrow> find_sub (c # cs) s = None"
  using find_sub_skip [of c s cs "[]"] by simp

lemma strstr_Inr_conv:
  "strstr p needle = Inr q \<longleftrightarrow>
     (\<exists>s. c_string p = Inr s \<and> q = map_option (\<lambda>i. drop i p) (find_sub needle s))"
  by (auto simp: strstr_def r_bind_Inr_conv)

lemma strstr_total: "NUL \<in> set p \<Longrightarrow> \<exists>q. strstr p needle = Inr q"
  by (auto simp: strstr_def c_string_def)

lemma strncmp_eq_same: "strncmp_eq (s @ t) s = Inr True"
  by (induction s) auto

lemma strncmp_eq_total: "NUL \<in> set p \<Longrightarrow> NUL \<notin> set s \<Longrightarrow> \<exists>b. strncmp_eq p s = Inr b"
  by (induction p s rule: strncmp_eq.induct) auto

section \<open>Moving pointers and copying\<close>

definition ptr_add :: "nat \<Rightarrow> bytes \<Rightarrow> bytes res" where
  "ptr_add n p = (if n \<le> length p then Inr (drop n p) else Inl OutOfBounds)"

definition mem_read :: "bytes \<Rightarrow> nat \<Rightarrow> bytes res" where
  \<comment> \<open>the \<open>n\<close> bytes a \<open>memcpy\<close> reads at the pointer\<close>
  "mem_read p n = (if n \<le> length p then Inr (take n p) else Inl OutOfBounds)"

definition mem_write :: "bytes \<Rightarrow> nat \<Rightarrow> bytes \<Rightarrow> bytes res" where
  \<comment> \<open>the block after a \<open>memcpy\<close> of \<open>data\<close> to offset \<open>off\<close> of it\<close>
  "mem_write blk off data =
     (if off + length data \<le> length blk
      then Inr (take off blk @ data @ drop (off + length data) blk) else Inl OutOfBounds)"

lemma ptr_add_append [simp]: "length xs = n \<Longrightarrow> ptr_add n (xs @ ys) = Inr ys"
  by (auto simp: ptr_add_def)

lemma ptr_add_Inr_conv: "ptr_add n p = Inr q \<longleftrightarrow> n \<le> length p \<and> q = drop n p"
  by (auto simp: ptr_add_def)

lemma mem_read_append [simp]: "length xs = n \<Longrightarrow> mem_read (xs @ ys) n = Inr xs"
  by (auto simp: mem_read_def)

lemma mem_read_Inr_conv: "mem_read p n = Inr d \<longleftrightarrow> n \<le> length p \<and> d = take n p"
  by (auto simp: mem_read_def)

lemma mem_write_Inr_conv:
  "mem_write blk off data = Inr blk' \<longleftrightarrow>
     off + length data \<le> length blk \<and> blk' = take off blk @ data @ drop (off + length data) blk"
  by (auto simp: mem_write_def)

lemma mem_write_length: "mem_write blk off data = Inr blk' \<Longrightarrow> length blk' = length blk"
  by (auto simp: mem_write_Inr_conv)

lemma mem_write_take:
  "mem_write blk off data = Inr blk' \<Longrightarrow> take (off + length data) blk' = take off blk @ data"
  by (auto simp: mem_write_Inr_conv)

fun skip_while :: "(char \<Rightarrow> bool) \<Rightarrow> bytes \<Rightarrow> bytes res" where
  \<comment> \<open>\<open>while (P(*p)) p++;\<close>\<close>
  "skip_while P [] = Inl OutOfBounds"
| "skip_while P (c # p) = (if P c then skip_while P p else Inr (c # p))"

lemma skip_while_append:
  "(\<And>x. x \<in> set xs \<Longrightarrow> P x) \<Longrightarrow> skip_while P (xs @ ys) = skip_while P ys"
  by (induction xs) auto

lemma skip_while_stop [simp]: "\<not> P c \<Longrightarrow> skip_while P (c # p) = Inr (c # p)"
  by simp

lemma skip_while_length: "skip_while P p = Inr q \<Longrightarrow> length q \<le> length p"
  by (induction p) (auto split: if_splits)

lemma skip_while_total: "c \<in> set p \<Longrightarrow> \<not> P c \<Longrightarrow> \<exists>q. skip_while P p = Inr q"
  by (induction p) auto

lemma skip_while_suffix: "skip_while P p = Inr q \<Longrightarrow> \<exists>xs. p = xs @ q \<and> (\<forall>x \<in> set xs. P x)"
proof (induction p)
  case Nil
  then show ?case by simp
next
  case (Cons c p)
  show ?case
  proof (cases "P c")
    case True
    with Cons obtain xs where "p = xs @ q" "\<forall>x \<in> set xs. P x" by auto
    with True have "c # p = (c # xs) @ q \<and> (\<forall>x \<in> set (c # xs). P x)" by auto
    then show ?thesis by blast
  next
    case False
    with Cons.prems have "c # p = [] @ q" by simp
    then show ?thesis by (intro exI [of _ "[]"]) simp
  qed
qed

end
