(* ===== verification/Nhr_Memory.thy ===== *)
theory Nhr_Memory
  imports C_String
begin

text \<open>
  nhr_memory.c at two levels.

  A block with a single owner is modelled by value: the pointer that owns it is the block
  itself (\<open>None\<close> is NULL). This is the level of the request and the response. The map of
  nhr_map.c links its nodes by pointers, and who frees what matters: there the heap is
  explicit. An address is a position of the heap, \<open>None\<close> stands for a freed block, and
  addresses are not reused, so that a use or a free after a free is seen.

  The memory the C library hands out is a parameter: \<open>mc_fill\<close> is the content of fresh
  bytes, on which no result may depend, and a request for more than \<open>mc_limit\<close> bytes fails,
  upon which the \<open>assert\<close> of nhr_memory.c fails.
\<close>

record mach =
  mc_fill :: byte
  mc_limit :: nat

section \<open>Blocks with one owner\<close>

definition nhr_malloc :: "'m mach_scheme \<Rightarrow> nat \<Rightarrow> bytes option res" where
  "nhr_malloc mc sz =
     (if sz > 0
      then r_bind (r_check (sz \<le> mc_limit mc) AssertFailed)
             (\<lambda>_. Inr (Some (replicate sz (mc_fill mc))))
      else Inr None)"

definition nhr_malloc_zero :: "'m mach_scheme \<Rightarrow> nat \<Rightarrow> bytes option res" where
  "nhr_malloc_zero mc sz =
     r_bind (nhr_malloc mc sz) (\<lambda>mem. Inr (map_option (\<lambda>b. replicate sz NUL) mem))"

definition blk_bytes :: "bytes option \<Rightarrow> bytes" where
  "blk_bytes mem = (case mem of None \<Rightarrow> [] | Some b \<Rightarrow> b)"

lemma blk_bytes_simps [simp]: "blk_bytes None = []" "blk_bytes (Some b) = b"
  by (simp_all add: blk_bytes_def)

definition nhr_realloc :: "'m mach_scheme \<Rightarrow> bytes option \<Rightarrow> nat \<Rightarrow> bytes option res" where
  "nhr_realloc mc mem new_size =
     (if new_size > 0
      then r_bind (r_check (new_size \<le> mc_limit mc) AssertFailed)
             (\<lambda>_. let old = blk_bytes mem in
                   Inr (Some (take new_size old @ replicate (new_size - length old) (mc_fill mc))))
      else Inr None)"

definition memcpy_to :: "bytes option \<Rightarrow> nat \<Rightarrow> bytes \<Rightarrow> bytes option res" where
  \<comment> \<open>\<open>memcpy(mem + off, data, length data)\<close>; copying no bytes touches nothing\<close>
  "memcpy_to mem off data =
     (if data = [] then Inr mem
      else case mem of
             None \<Rightarrow> Inl NullDeref
           | Some b \<Rightarrow> r_bind (mem_write b off data) (\<lambda>b'. Inr (Some b')))"

lemma nhr_malloc_ok:
  "0 < n \<Longrightarrow> n \<le> mc_limit mc \<Longrightarrow> nhr_malloc mc n = Inr (Some (replicate n (mc_fill mc)))"
  by (simp add: nhr_malloc_def)

lemma nhr_malloc_0 [simp]: "nhr_malloc mc 0 = Inr None"
  by (simp add: nhr_malloc_def)

lemma nhr_malloc_Inr_conv:
  "nhr_malloc mc n = Inr m \<longleftrightarrow>
     n = 0 \<and> m = None \<or> 0 < n \<and> n \<le> mc_limit mc \<and> m = Some (replicate n (mc_fill mc))"
  by (auto simp: nhr_malloc_def r_check_def)

lemma nhr_realloc_Some:
  assumes "0 < n" "n \<le> mc_limit mc" "length (blk_bytes mem) \<le> n"
  shows "\<exists>pad. nhr_realloc mc mem n = Inr (Some (blk_bytes mem @ pad))
           \<and> length pad = n - length (blk_bytes mem)"
  using assms by (auto simp: nhr_realloc_def Let_def)

lemma nhr_realloc_Inr_length:
  assumes "nhr_realloc mc mem n = Inr (Some b)"
  shows "length b = n"
  using assms by (auto simp: nhr_realloc_def r_check_def Let_def split: if_splits)

lemma memcpy_to_Nil [simp]: "memcpy_to mem off [] = Inr mem"
  by (simp add: memcpy_to_def)

lemma memcpy_to_Some:
  "off + length data \<le> length b \<Longrightarrow>
     memcpy_to (Some b) off data = Inr (Some (take off b @ data @ drop (off + length data) b))"
  by (auto simp: memcpy_to_def mem_write_def)

lemma memcpy_to_Inr_conv:
  "memcpy_to (Some b) off data = Inr m \<longleftrightarrow>
     data = [] \<and> m = Some b
     \<or> data \<noteq> [] \<and> off + length data \<le> length b \<and> m = Some (take off b @ data @ drop (off + length data) b)"
  by (auto simp: memcpy_to_def mem_write_def)

section \<open>The heap\<close>

type_synonym ptr = "nat option"

type_synonym 'b heap = "'b option list"

definition h_get :: "'b heap \<Rightarrow> nat \<Rightarrow> 'b option" where
  "h_get h a = (if a < length h then h ! a else None)"

definition h_new :: "'b heap \<Rightarrow> 'b \<Rightarrow> nat \<times> 'b heap" where
  "h_new h b = (length h, h @ [Some b])"

definition h_put :: "'b heap \<Rightarrow> nat \<Rightarrow> 'b \<Rightarrow> 'b heap" where
  "h_put h a b = h[a := Some b]"

definition nhr_free :: "'b heap \<Rightarrow> ptr \<Rightarrow> 'b heap res" where
  "nhr_free h mem =
     (case mem of
        None \<Rightarrow> Inr h
      | Some a \<Rightarrow> if h_get h a = None then Inl BadPointer else Inr (h[a := None]))"

definition nhr_free_clean :: "'b heap \<Rightarrow> ptr option \<Rightarrow> (ptr option \<times> 'b heap) res" where
  \<comment> \<open>the argument is the variable the caller passes the address of, if it is not NULL\<close>
  "nhr_free_clean h mem =
     (case mem of
        None \<Rightarrow> Inr (None, h)
      | Some p \<Rightarrow> r_bind (nhr_free h p) (\<lambda>h'. Inr (Some None, h')))"

definition heap_live :: "'b heap \<Rightarrow> nat" where
  "heap_live h = length (filter (\<lambda>b. b \<noteq> None) h)"

lemma h_get_new [simp]:
  "h_get (snd (h_new h b)) x = (if x = length h then Some b else h_get h x)"
  "fst (h_new h b) = length h"
  by (auto simp: h_get_def h_new_def nth_append)

lemma h_get_fresh [simp]: "h_get h (length h) = None"
  by (simp add: h_get_def)

lemma h_get_Some_less: "h_get h a = Some b \<Longrightarrow> a < length h"
  by (auto simp: h_get_def split: if_splits)

lemma h_get_put:
  "h_get h a \<noteq> None \<Longrightarrow> h_get (h_put h a b) x = (if x = a then Some b else h_get h x)"
  by (auto simp: h_get_def h_put_def split: if_splits)

lemma h_get_free:
  "h_get (h[a := None]) x = (if x = a then None else h_get h x)"
  by (auto simp: h_get_def nth_list_update)

lemma heap_live_free:
  assumes "h_get h a \<noteq> None"
  shows "heap_live (h[a := None]) < heap_live h"
proof -
  from assms have a: "a < length h" "h ! a \<noteq> None" by (auto simp: h_get_def split: if_splits)
  then have split: "h = take a h @ h ! a # drop (Suc a) h" by (simp add: id_take_nth_drop)
  have "h[a := None] = take a h @ None # drop (Suc a) h"
    using a by (simp add: upd_conv_take_nth_drop)
  moreover have "heap_live h = heap_live (take a h @ h ! a # drop (Suc a) h)"
    using split by simp
  ultimately show ?thesis using a by (simp add: heap_live_def)
qed

lemma nhr_free_None [simp]: "nhr_free h None = Inr h"
  by (simp add: nhr_free_def)

lemma nhr_free_Some: "h_get h a \<noteq> None \<Longrightarrow> nhr_free h (Some a) = Inr (h[a := None])"
  by (simp add: nhr_free_def)

lemma nhr_free_length: "nhr_free h p = Inr h' \<Longrightarrow> length h' = length h"
  by (auto simp: nhr_free_def split: option.splits if_splits)

lemma heap_live_nhr_free: "nhr_free h p = Inr h' \<Longrightarrow> heap_live h' \<le> heap_live h"
  by (auto simp: nhr_free_def heap_live_free less_imp_le split: option.splits if_splits)

section \<open>The interface of the allocator\<close>

text \<open>
  What the clients of the allocator rely on: a new block is at an address that held nothing,
  freeing an allocated block succeeds and removes it and nothing else, and freeing anything
  else is a fault.
\<close>

locale allocator =
  fixes lookup :: "'h \<Rightarrow> nat \<Rightarrow> 'b option"
    and new :: "'h \<Rightarrow> 'b \<Rightarrow> nat \<times> 'h"
    and release :: "'h \<Rightarrow> ptr \<Rightarrow> 'h res"
  assumes new_fresh: "lookup h (fst (new h b)) = None"
    and lookup_new: "lookup (snd (new h b)) x = (if x = fst (new h b) then Some b else lookup h x)"
    and release_null: "release h None = Inr h"
    and release_ok: "lookup h a \<noteq> None \<Longrightarrow>
          \<exists>h'. release h (Some a) = Inr h' \<and> (\<forall>x. lookup h' x = (if x = a then None else lookup h x))"
    and release_bad: "lookup h a = None \<Longrightarrow> release h (Some a) = Inl BadPointer"
begin

fun release_all :: "'h \<Rightarrow> ptr list \<Rightarrow> 'h res" where
  "release_all h [] = Inr h"
| "release_all h (p # ps) = r_bind (release h p) (\<lambda>h'. release_all h' ps)"

lemma release_all_append:
  "release_all h (ps @ qs) = r_bind (release_all h ps) (\<lambda>h'. release_all h' qs)"
  by (induction ps arbitrary: h) (auto simp: r_bind_assoc)

text \<open>Freeing distinct allocated blocks succeeds and removes exactly these.\<close>

lemma release_all_ok:
  assumes "distinct (concat (map (case_option [] (\<lambda>a. [a])) ps))"
    and "\<And>a. Some a \<in> set ps \<Longrightarrow> lookup h a \<noteq> None"
  shows "\<exists>h'. release_all h ps = Inr h' \<and>
           (\<forall>x. lookup h' x = (if Some x \<in> set ps then None else lookup h x))"
  using assms
proof (induction ps arbitrary: h)
  case Nil
  then show ?case by simp
next
  case (Cons p ps)
  show ?case
  proof (cases p)
    case None
    with Cons show ?thesis by (simp add: release_null)
  next
    case (Some a)
    have na: "Some a \<notin> set ps"
    proof
      assume "Some a \<in> set ps"
      then have "a \<in> set (concat (map (case_option [] (\<lambda>a. [a])) ps))" by force
      with Cons.prems(1) Some show False by simp
    qed
    obtain h1 where h1: "release h (Some a) = Inr h1"
        "\<forall>x. lookup h1 x = (if x = a then None else lookup h x)"
      using release_ok [of h a] Cons.prems(2) Some by auto
    have "\<And>x. Some x \<in> set ps \<Longrightarrow> lookup h1 x \<noteq> None"
      using h1(2) na Cons.prems(2) by auto
    with Cons.IH [of h1] Cons.prems(1) Some obtain h' where h': "release_all h1 ps = Inr h'"
        "\<forall>x. lookup h' x = (if Some x \<in> set ps then None else lookup h1 x)"
      by auto
    then have "release_all h (p # ps) = Inr h' \<and>
        (\<forall>x. lookup h' x = (if Some x \<in> set (p # ps) then None else lookup h x))"
      using h1 Some by auto
    then show ?thesis by blast
  qed
qed

lemma double_release:
  assumes "release h (Some a) = Inr h'"
  shows "release h' (Some a) = Inl BadPointer"
proof -
  have "lookup h a \<noteq> None" using assms release_bad [of h a] by auto
  with release_ok [of h a] assms have "lookup h' a = None" by auto
  then show ?thesis by (rule release_bad)
qed

lemma release_new:
  assumes "new h b = (a, h1)"
  shows "\<exists>h2. release h1 (Some a) = Inr h2 \<and> (\<forall>x. lookup h2 x = lookup h x)"
proof -
  have "\<forall>x. lookup h1 x = (if x = a then Some b else lookup h x)" "lookup h a = None"
    using lookup_new [of h b] new_fresh [of h b] assms by auto
  with release_ok [of h1 a] show ?thesis by fastforce
qed

end

interpretation heap: allocator h_get h_new nhr_free
  by unfold_locales (auto simp: nhr_free_def h_get_free)

lemma heap_release_all_length:
  "heap.release_all h ps = Inr h' \<Longrightarrow> length h' = length h"
  by (induction ps arbitrary: h) (auto simp: r_bind_Inr_conv dest: nhr_free_length)

end
