(* ===== verification/Nhr_Gz.thy ===== *)
theory Nhr_Gz
  imports Nhr_Memory
begin

text \<open>
  nhr_gz.c over zlib. The four zlib entry points and crc32 are parameters (the record
  \<open>zlib\<close>, one field per function): a call is given the state of the stream, the bytes of
  \<open>next_in\<close> and \<open>avail_out\<close>, and answers its return code, the number of bytes it consumed,
  the bytes it wrote to \<open>next_out\<close> and the new state. The two loops end when zlib says so, so
  they carry fuel (\<open>gz_fuel\<close>); running out is the fault \<open>OutOfFuel\<close>. \<open>sizeof(uLong)\<close>,
  the clock and \<open>rand\<close> are parameters of the machine as well; integers are stored little-endian.
\<close>

section \<open>The zlib interface\<close>

datatype z_code = Z_OK | Z_STREAM_END | Z_NEED_DICT | Z_ERRNO | Z_STREAM_ERROR | Z_DATA_ERROR
  | Z_MEM_ERROR | Z_BUF_ERROR

datatype z_flush = Z_NO_FLUSH | Z_FINISH

datatype z_format = Zlib_format | Raw_format   \<comment> \<open>the default window bits and \<open>-15\<close>\<close>

record 'z zlib =
  z_deflateInit :: "z_format \<Rightarrow> 'z option"
  z_deflate :: "'z \<Rightarrow> z_flush \<Rightarrow> bytes \<Rightarrow> nat \<Rightarrow> z_code \<times> nat \<times> bytes \<times> 'z"
  z_inflateInit :: "z_format \<Rightarrow> 'z option"
  z_inflate :: "'z \<Rightarrow> bytes \<Rightarrow> nat \<Rightarrow> z_code \<times> nat \<times> bytes \<times> 'z"
  z_crc32 :: "bytes \<Rightarrow> 32 word"

record 'z gz_mach = mach +
  gz_zlib :: "'z zlib"
  gz_time :: nat
  gz_rand :: "nat \<Rightarrow> nat \<Rightarrow> nat"   \<comment> \<open>\<open>rand()\<close> by the seed and the number of calls since \<open>srand\<close>\<close>
  gz_sizeof_ulong :: nat
  gz_fuel :: nat

definition NHR_GZ_METHOD_DEFLATE :: "8 word" where "NHR_GZ_METHOD_DEFLATE = 0"
definition NHR_GZ_METHOD_GZIP :: "8 word" where "NHR_GZ_METHOD_GZIP = 1"
definition NHR_GZ_CHUNK_SIZE :: nat where "NHR_GZ_CHUNK_SIZE = 512"
definition NHR_GZ_HEADER_SIZE :: nat where "NHR_GZ_HEADER_SIZE = 10"
definition NHR_GZ_FOOTER_SIZE :: nat where "NHR_GZ_FOOTER_SIZE = 8"
definition NHR_GZ_HEADER_FOOTER_SIZE :: nat where "NHR_GZ_HEADER_FOOTER_SIZE = 18"

lemmas NHR_GZ_defs = NHR_GZ_METHOD_DEFLATE_def NHR_GZ_METHOD_GZIP_def NHR_GZ_CHUNK_SIZE_def
  NHR_GZ_HEADER_SIZE_def NHR_GZ_FOOTER_SIZE_def NHR_GZ_HEADER_FOOTER_SIZE_def

definition as_uInt :: "nat \<Rightarrow> nat" where "as_uInt n = n mod 2 ^ 32"

fun le_bytes :: "nat \<Rightarrow> nat \<Rightarrow> bytes" where
  "le_bytes 0 v = []"
| "le_bytes (Suc k) v = char_of (v mod 256) # le_bytes k (v div 256)"

lemma length_le_bytes [simp]: "length (le_bytes k v) = k"
  by (induction k arbitrary: v) auto

section \<open>Header and footer\<close>

definition gz_header :: "nat \<Rightarrow> bytes" where
  "gz_header tm = [CHR 0x1F, CHR 0x8B, CHR 0x08, CHR 0x00] @ le_bytes 4 tm @ [CHR 0x00, CHR 0x00]"

definition nhr_gz_write_header :: "'z gz_mach \<Rightarrow> bytes option \<Rightarrow> bytes option res" where
  "nhr_gz_write_header mc buff = memcpy_to buff 0 (gz_header (gz_time mc))"

definition nhr_gz_write_footer ::
    "'z gz_mach \<Rightarrow> bytes option \<Rightarrow> nat \<Rightarrow> nat \<Rightarrow> bytes \<Rightarrow> nat \<Rightarrow> bytes option res" where
  "nhr_gz_write_footer mc buff buff_size writed src_buff src_size =
     r_bind (if writed \<le> buff_size \<and> buff_size - writed < NHR_GZ_FOOTER_SIZE
             then nhr_realloc mc buff (buff_size + NHR_GZ_FOOTER_SIZE) else Inr buff) (\<lambda>buff.
     r_bind (memcpy_to buff writed
               (le_bytes (gz_sizeof_ulong mc)
                  (unat (z_crc32 (gz_zlib mc) (take (as_uInt src_size) src_buff))))) (\<lambda>buff.
     memcpy_to buff (writed + gz_sizeof_ulong mc) (le_bytes (gz_sizeof_ulong mc) src_size)))"

section \<open>Compression\<close>

record 'z gz_stream =
  gs_z :: 'z
  gs_in :: bytes               \<comment> \<open>\<open>next_in\<close>; \<open>avail_in\<close> is its length\<close>
  gs_out :: "bytes option"     \<comment> \<open>\<open>out_buff\<close>\<close>
  gs_next :: nat               \<comment> \<open>\<open>next_out - out_buff\<close>\<close>
  gs_avail_out :: nat
  gs_total_out :: nat
  gs_writed :: nat
  gs_out_size :: nat

definition gz_took :: "'z gz_stream \<Rightarrow> nat \<Rightarrow> bytes \<Rightarrow> 'z \<Rightarrow> 'z gz_stream res" where
  \<comment> \<open>the fields of the \<open>z_stream\<close> and the buffer after a call of zlib\<close>
  "gz_took s n p z =
     r_bind (memcpy_to (gs_out s) (gs_next s) p) (\<lambda>out.
     Inr (s\<lparr>gs_z := z, gs_in := drop n (gs_in s), gs_out := out, gs_next := gs_next s + length p,
            gs_avail_out := gs_avail_out s - length p, gs_total_out := gs_total_out s + length p\<rparr>))"

definition gz_grow :: "'z gz_mach \<Rightarrow> 'z gz_stream \<Rightarrow> 'z gz_stream res" where
  "gz_grow mc s =
     (if gs_avail_out s = 0
      then r_bind (nhr_realloc mc (gs_out s) (gs_out_size s + NHR_GZ_CHUNK_SIZE)) (\<lambda>out.
           Inr (s\<lparr>gs_out_size := gs_out_size s + NHR_GZ_CHUNK_SIZE,
                  gs_writed := gs_writed s + NHR_GZ_CHUNK_SIZE, gs_out := out,
                  gs_next := gs_writed s + NHR_GZ_CHUNK_SIZE, gs_avail_out := NHR_GZ_CHUNK_SIZE\<rparr>))
      else Inr s)"

definition gz_deflate :: "'z gz_mach \<Rightarrow> z_flush \<Rightarrow> 'z gz_stream \<Rightarrow> (z_code \<times> 'z gz_stream) res" where
  "gz_deflate mc fl s =
     (case z_deflate (gz_zlib mc) (gs_z s) fl (gs_in s) (gs_avail_out s) of (code, n, p, z) \<Rightarrow>
        r_bind (gz_took s n p z) (\<lambda>s. Inr (code, s)))"

fun gz_deflate_input :: "'z gz_mach \<Rightarrow> nat \<Rightarrow> 'z gz_stream \<Rightarrow> 'z gz_stream option res" where
  \<comment> \<open>\<open>while (zip.avail_in)\<close>; \<open>None\<close> is the return of NULL\<close>
  "gz_deflate_input mc 0 s = Inl OutOfFuel"
| "gz_deflate_input mc (Suc fuel) s =
     (if gs_in s = [] then Inr (Some s)
      else r_bind (gz_deflate mc Z_NO_FLUSH s) (\<lambda>(code, s).
           if code \<noteq> Z_OK then Inr None
           else r_bind (gz_grow mc s) (gz_deflate_input mc fuel)))"

fun gz_deflate_finish :: "'z gz_mach \<Rightarrow> nat \<Rightarrow> 'z gz_stream \<Rightarrow> (z_code \<times> 'z gz_stream) res" where
  \<comment> \<open>the \<open>do ... while (result == Z_OK)\<close>\<close>
  "gz_deflate_finish mc 0 s = Inl OutOfFuel"
| "gz_deflate_finish mc (Suc fuel) s =
     r_bind (gz_grow mc s) (\<lambda>s.
     r_bind (gz_deflate mc Z_FINISH s) (\<lambda>(code, s).
     if code = Z_OK then gz_deflate_finish mc fuel s else Inr (code, s)))"

definition nhr_gz_compress ::
    "'z gz_mach \<Rightarrow> bytes option \<Rightarrow> nat \<Rightarrow> 8 word \<Rightarrow> (bytes option \<times> nat) option res" where
  \<comment> \<open>\<open>None\<close> is the return of NULL; otherwise the block and \<open>*compressed_size\<close>\<close>
  "nhr_gz_compress mc buff buff_size meth =
     (case buff of
        None \<Rightarrow> Inr None
      | Some src \<Rightarrow>
          if buff_size = 0 then Inr None
          else case z_deflateInit (gz_zlib mc)
                      (if meth = NHR_GZ_METHOD_DEFLATE then Zlib_format else Raw_format) of
                 None \<Rightarrow> Inr None
               | Some z \<Rightarrow>
                   let hdr = (if meth = NHR_GZ_METHOD_GZIP then NHR_GZ_HEADER_SIZE else 0);
                       out_size = NHR_GZ_CHUNK_SIZE + hdr in
                   r_bind (nhr_malloc mc out_size) (\<lambda>out.
                   r_bind (if meth = NHR_GZ_METHOD_GZIP then nhr_gz_write_header mc out else Inr out) (\<lambda>out.
                   r_bind (mem_read src (as_uInt buff_size)) (\<lambda>inp.
                   r_bind (gz_deflate_input mc (gz_fuel mc)
                             \<lparr>gs_z = z, gs_in = inp, gs_out = out, gs_next = hdr,
                              gs_avail_out = NHR_GZ_CHUNK_SIZE, gs_total_out = 0, gs_writed = hdr,
                              gs_out_size = out_size\<rparr>) (\<lambda>r.
                   case r of
                     None \<Rightarrow> Inr None
                   | Some s \<Rightarrow>
                       r_bind (gz_deflate_finish mc (gz_fuel mc) s) (\<lambda>(code, s).
                       if code \<noteq> Z_STREAM_END then Inr None
                       else if meth = NHR_GZ_METHOD_GZIP
                       then r_bind (nhr_gz_write_footer mc (gs_out s) (gs_out_size s)
                                      (gs_total_out s + NHR_GZ_HEADER_SIZE) src buff_size) (\<lambda>out.
                            Inr (Some (out, gs_total_out s + NHR_GZ_HEADER_SIZE + NHR_GZ_FOOTER_SIZE)))
                       else Inr (Some (gs_out s, gs_total_out s))))))))"

section \<open>Decompression\<close>

definition nhr_gz_is_gzip_file :: "bytes \<Rightarrow> nat \<Rightarrow> bool res" where
  "nhr_gz_is_gzip_file buff buff_size =
     (if buff_size \<le> NHR_GZ_HEADER_FOOTER_SIZE then Inr False
      else r_bind (mem_read buff 2) (\<lambda>m. Inr (m = [CHR 0x1F, CHR 0x8B])))"

definition gz_inflate :: "'z gz_mach \<Rightarrow> 'z gz_stream \<Rightarrow> (z_code \<times> 'z gz_stream) res" where
  "gz_inflate mc s =
     (case z_inflate (gz_zlib mc) (gs_z s) (gs_in s) (gs_avail_out s) of (code, n, p, z) \<Rightarrow>
        r_bind (gz_took s n p z) (\<lambda>s. Inr (code, s)))"

definition gz_inflate_step ::
    "'z gz_mach \<Rightarrow> 'z gz_stream \<Rightarrow> (z_code \<times> 'z gz_stream) option res" where
  \<comment> \<open>the body of the \<open>do\<close> loop; \<open>None\<close> is the return of NULL\<close>
  "gz_inflate_step mc s =
     r_bind (gz_inflate mc (s\<lparr>gs_next := gs_writed s\<rparr>)) (\<lambda>(code, s).
     if code \<in> {Z_NEED_DICT, Z_DATA_ERROR, Z_MEM_ERROR, Z_STREAM_ERROR} then Inr None
     else let available_size = NHR_GZ_CHUNK_SIZE - gs_avail_out s in
          if available_size > 0
          then let writed = gs_writed s + available_size in
               if writed < gs_out_size s
               then Inr (Some (code, s\<lparr>gs_writed := writed,
                                       gs_avail_out := NHR_GZ_CHUNK_SIZE - available_size\<rparr>))
               else r_bind (nhr_realloc mc (gs_out s) (gs_out_size s + NHR_GZ_CHUNK_SIZE)) (\<lambda>out.
                    Inr (Some (code, s\<lparr>gs_writed := writed, gs_out := out,
                           gs_out_size := gs_out_size s + NHR_GZ_CHUNK_SIZE,
                           gs_avail_out := NHR_GZ_CHUNK_SIZE\<rparr>)))
          else Inr None)"

fun gz_inflate_loop :: "'z gz_mach \<Rightarrow> nat \<Rightarrow> 'z gz_stream \<Rightarrow> 'z gz_stream option res" where
  "gz_inflate_loop mc 0 s = Inl OutOfFuel"
| "gz_inflate_loop mc (Suc fuel) s =
     r_bind (gz_inflate_step mc s) (\<lambda>r.
     case r of
       None \<Rightarrow> Inr None
     | Some (code, s) \<Rightarrow> if code = Z_STREAM_END then Inr (Some s) else gz_inflate_loop mc fuel s)"

definition gz_decompress_input :: "bytes \<Rightarrow> nat \<Rightarrow> 8 word \<Rightarrow> (z_format \<times> bytes) option res" where
  \<comment> \<open>\<open>next_in\<close> and \<open>avail_in\<close> for the stream, if one is opened\<close>
  "gz_decompress_input src buff_size meth =
     (if meth = NHR_GZ_METHOD_DEFLATE
      then r_bind (mem_read src (as_uInt buff_size)) (\<lambda>inp. Inr (Some (Zlib_format, inp)))
      else r_bind (nhr_gz_is_gzip_file src buff_size) (\<lambda>gz.
           if gz
           then r_bind (mem_read (drop NHR_GZ_HEADER_SIZE src)
                         (as_uInt (buff_size - NHR_GZ_HEADER_FOOTER_SIZE)))
                  (\<lambda>inp. Inr (Some (Raw_format, inp)))
           else Inr None))"

definition nhr_gz_decompress ::
    "'z gz_mach \<Rightarrow> bytes option \<Rightarrow> nat \<Rightarrow> 8 word \<Rightarrow> (bytes option \<times> nat) option res" where
  "nhr_gz_decompress mc buff buff_size meth =
     (case buff of
        None \<Rightarrow> Inr None
      | Some src \<Rightarrow>
          if buff_size = 0 then Inr None
          else r_bind (gz_decompress_input src buff_size meth) (\<lambda>i.
               case i of
                 None \<Rightarrow> Inr None
               | Some (fmt, inp) \<Rightarrow>
                   (case z_inflateInit (gz_zlib mc) fmt of
                      None \<Rightarrow> Inr None
                    | Some z \<Rightarrow>
                        r_bind (nhr_malloc mc NHR_GZ_CHUNK_SIZE) (\<lambda>out.
                        r_bind (gz_inflate_loop mc (gz_fuel mc)
                                  \<lparr>gs_z = z, gs_in = inp, gs_out = out, gs_next = 0,
                                   gs_avail_out = NHR_GZ_CHUNK_SIZE, gs_total_out = 0, gs_writed = 0,
                                   gs_out_size = NHR_GZ_CHUNK_SIZE\<rparr>) (\<lambda>r.
                        case r of
                          None \<Rightarrow> Inr None
                        | Some s \<Rightarrow> Inr (Some (gs_out s, gs_writed s)))))))"

end
