(* ===== verification/Nhr_Gz_Correct.thy ===== *)
theory Nhr_Gz_Correct
  imports Nhr_Gz
begin

text \<open>
  What nhr_gz.c computes, given what zlib.h promises of its functions. The promises are named
  hypotheses: \<open>inflate_contract\<close> (inflate writes as much of the plain text as fits and says when
  it was the last of it) and \<open>deflate_contract\<close> (deflate takes input until it is used up or the
  output is full, and with \<open>Z_FINISH\<close> writes the rest of the encoding). \<open>stored_zlib\<close>, which
  encodes every text as itself, satisfies both and serves the witnesses.
\<close>

section \<open>Decompression\<close>

definition inflate_contract :: "'z zlib \<Rightarrow> ('z \<Rightarrow> bytes \<Rightarrow> bytes \<Rightarrow> bool) \<Rightarrow> bool" where
  \<comment> \<open>\<open>Q z inp pl\<close>: a stream in state \<open>z\<close> that is still to read \<open>inp\<close> will write \<open>pl\<close>\<close>
  "inflate_contract zl Q \<longleftrightarrow>
     (\<forall>z inp pl room. Q z inp pl \<and> 0 < room \<longrightarrow>
        (\<exists>n z'. if length pl \<le> room then z_inflate zl z inp room = (Z_STREAM_END, n, pl, z')
                else z_inflate zl z inp room = (Z_OK, n, take room pl, z')
                     \<and> Q z' (drop n inp) (drop room pl)))"

definition inflate_ready :: "'z gz_mach \<Rightarrow> ('z \<Rightarrow> bytes \<Rightarrow> bytes \<Rightarrow> bool) \<Rightarrow> 'z gz_stream \<Rightarrow> bytes \<Rightarrow> bool" where
  "inflate_ready mc Q s pl \<longleftrightarrow>
     Q (gs_z s) (gs_in s) pl \<and> gs_avail_out s = NHR_GZ_CHUNK_SIZE
     \<and> gs_out_size s = gs_writed s + NHR_GZ_CHUNK_SIZE
     \<and> (\<exists>b. gs_out s = Some b \<and> length b = gs_out_size s)
     \<and> gs_writed s + length pl + NHR_GZ_CHUNK_SIZE \<le> mc_limit mc"

definition gs_content :: "'z gz_stream \<Rightarrow> bytes" where
  "gs_content s = take (gs_writed s) (blk_bytes (gs_out s))"

lemma realloc_grow:
  assumes "length b \<le> n" "0 < n" "n \<le> mc_limit mc"
  shows "nhr_realloc mc (Some b) n = Inr (Some (b @ replicate (n - length b) (mc_fill mc)))"
  using assms by (simp add: nhr_realloc_def Let_def)

lemma inflate_step_last:
  assumes "inflate_contract (gz_zlib mc) Q" "inflate_ready mc Q s pl" "pl \<noteq> []" "length pl \<le> 512"
  shows "\<exists>s'. gz_inflate_step mc s = Inr (Some (Z_STREAM_END, s'))
           \<and> gs_content s' = gs_content s @ pl \<and> gs_writed s' = gs_writed s + length pl
           \<and> (\<exists>b. gs_out s' = Some b \<and> gs_writed s' \<le> length b)"
proof -
  obtain b where b: "gs_out s = Some b" "length b = gs_writed s + 512"
      and s: "Q (gs_z s) (gs_in s) pl" "gs_avail_out s = 512" "gs_out_size s = gs_writed s + 512"
        "gs_writed s + length pl + 512 \<le> mc_limit mc"
    using assms(2) by (auto simp: inflate_ready_def NHR_GZ_CHUNK_SIZE_def)
  obtain n z' where call: "z_inflate (gz_zlib mc) (gs_z s) (gs_in s) 512 = (Z_STREAM_END, n, pl, z')"
    using assms(1,4) s(1) unfolding inflate_contract_def
    by (metis zero_less_numeral)
  have mem: "memcpy_to (Some b) (gs_writed s) pl
      = Inr (Some (take (gs_writed s) b @ pl @ drop (gs_writed s + length pl) b))"
    using b(2) assms(4) by (intro memcpy_to_Some) simp
  show ?thesis
  proof (cases "length pl = 512")
    case True
    with assms(3) b s call mem show ?thesis
      by (simp add: gz_inflate_step_def gz_inflate_def gz_took_def NHR_GZ_CHUNK_SIZE_def Let_def
          realloc_grow gs_content_def)
  next
    case False
    with assms(3,4) b s call mem show ?thesis
      by (simp add: gz_inflate_step_def gz_inflate_def gz_took_def NHR_GZ_CHUNK_SIZE_def Let_def
          gs_content_def)
  qed
qed

lemma inflate_step_more:
  assumes "inflate_contract (gz_zlib mc) Q" "inflate_ready mc Q s pl" "512 < length pl"
  shows "\<exists>s'. gz_inflate_step mc s = Inr (Some (Z_OK, s'))
           \<and> inflate_ready mc Q s' (drop 512 pl) \<and> gs_content s' = gs_content s @ take 512 pl
           \<and> gs_writed s' = gs_writed s + 512"
proof -
  obtain b where b: "gs_out s = Some b" "length b = gs_writed s + 512"
      and s: "Q (gs_z s) (gs_in s) pl" "gs_avail_out s = 512" "gs_out_size s = gs_writed s + 512"
        "gs_writed s + length pl + 512 \<le> mc_limit mc"
    using assms(2) by (auto simp: inflate_ready_def NHR_GZ_CHUNK_SIZE_def)
  obtain n z' where call: "z_inflate (gz_zlib mc) (gs_z s) (gs_in s) 512 = (Z_OK, n, take 512 pl, z')"
      "Q z' (drop n (gs_in s)) (drop 512 pl)"
    using assms(1,3) s(1) unfolding inflate_contract_def
    by (metis zero_less_numeral not_le)
  have mem: "memcpy_to (Some b) (gs_writed s) (take 512 pl)
      = Inr (Some (take (gs_writed s) b @ take 512 pl))"
    using b(2) assms(3) by (subst memcpy_to_Some) simp_all
  show ?thesis
    using assms(3) b s call mem
    by (simp add: gz_inflate_step_def gz_inflate_def gz_took_def NHR_GZ_CHUNK_SIZE_def Let_def
        realloc_grow gs_content_def inflate_ready_def min_def)
qed

lemma inflate_loop_ready:
  assumes "inflate_contract (gz_zlib mc) Q" "inflate_ready mc Q s pl" "pl \<noteq> []"
    and "length pl \<le> 512 * fuel"
  shows "\<exists>s'. gz_inflate_loop mc fuel s = Inr (Some s')
           \<and> gs_content s' = gs_content s @ pl \<and> gs_writed s' = gs_writed s + length pl
           \<and> (\<exists>b. gs_out s' = Some b \<and> gs_writed s' \<le> length b)"
  using assms(2-4)
proof (induction fuel arbitrary: s pl)
  case 0
  then show ?case by simp
next
  case (Suc fuel)
  show ?case
  proof (cases "length pl \<le> 512")
    case True
    with inflate_step_last [OF assms(1) Suc.prems(1,2)] show ?thesis by auto
  next
    case False
    then obtain s1 where s1: "gz_inflate_step mc s = Inr (Some (Z_OK, s1))"
        "inflate_ready mc Q s1 (drop 512 pl)" "gs_content s1 = gs_content s @ take 512 pl"
        "gs_writed s1 = gs_writed s + 512"
      using inflate_step_more [OF assms(1) Suc.prems(1)] by auto
    have "drop 512 pl \<noteq> []" "length (drop 512 pl) \<le> 512 * fuel" using False Suc.prems(3) by auto
    from Suc.IH [OF s1(2) this] False s1 show ?thesis by auto
  qed
qed

lemma decompress_from:
  assumes "inflate_contract (gz_zlib mc) Q" "z_inflateInit (gz_zlib mc) fmt = Some z"
    and "gz_decompress_input src n meth = Inr (Some (fmt, inp))" "0 < n"
    and "Q z inp pl" "pl \<noteq> []" "length pl \<le> 512 * gz_fuel mc" "length pl + 512 \<le> mc_limit mc"
  shows "\<exists>b. nhr_gz_decompress mc (Some src) n meth = Inr (Some (Some b, length pl))
           \<and> take (length pl) b = pl \<and> length pl \<le> length b"
proof -
  define s0 where "s0 = \<lparr>gs_z = z, gs_in = inp, gs_out = Some (replicate 512 (mc_fill mc)), gs_next = 0,
    gs_avail_out = 512, gs_total_out = 0, gs_writed = 0, gs_out_size = 512\<rparr>"
  have ready: "inflate_ready mc Q s0 pl" and c0: "gs_content s0 = []" "gs_writed s0 = 0"
    using assms(5,8) by (simp_all add: s0_def inflate_ready_def NHR_GZ_CHUNK_SIZE_def gs_content_def)
  obtain s' b where s': "gz_inflate_loop mc (gz_fuel mc) s0 = Inr (Some s')"
      "gs_content s' = pl" "gs_writed s' = length pl" "gs_out s' = Some b" "gs_writed s' \<le> length b"
    using inflate_loop_ready [OF assms(1) ready assms(6,7)] c0 by auto
  have "nhr_malloc mc 512 = Inr (Some (replicate 512 (mc_fill mc)))"
    using assms(8) by (intro nhr_malloc_ok) simp_all
  then have "nhr_gz_decompress mc (Some src) n meth = Inr (Some (Some b, length pl))"
    using s' assms(2-4) unfolding s0_def
    by (simp add: nhr_gz_decompress_def NHR_GZ_CHUNK_SIZE_def)
  then show ?thesis using s' by (auto simp: gs_content_def)
qed

section \<open>The decompressed block\<close>

definition stream_wf :: "'z gz_stream \<Rightarrow> bool" where
  \<comment> \<open>the block grows by whole chunks and is always less than a chunk ahead\<close>
  "stream_wf s \<longleftrightarrow> gs_writed s < gs_out_size s \<and> gs_out_size s \<le> gs_writed s + 512 \<and> 512 dvd gs_out_size s \<and> (\<exists>b. gs_out s = Some b \<and> length b = gs_out_size s)"

lemma memcpy_to_length:
  "memcpy_to (Some b) off d = Inr m \<Longrightarrow> \<exists>b'. m = Some b' \<and> length b' = length b"
  by (auto simp: memcpy_to_Inr_conv)

lemma gz_took_wf: "gz_took s n p z = Inr s' \<Longrightarrow> stream_wf s \<Longrightarrow> stream_wf s'"
  by (auto simp: gz_took_def r_bind_Inr_conv stream_wf_def dest!: memcpy_to_length)

lemma inflate_step_wf:
  assumes "gz_inflate_step mc s = Inr (Some (code, s'))" "stream_wf s"
  shows "stream_wf s'"
proof -
  obtain c n p z s1 where s1: "gz_took (s\<lparr>gs_next := gs_writed s\<rparr>) n p z = Inr s1"
      "(let available_size = NHR_GZ_CHUNK_SIZE - gs_avail_out s1 in
          if available_size > 0
          then let writed = gs_writed s1 + available_size in
               if writed < gs_out_size s1
               then Inr (Some (c, s1\<lparr>gs_writed := writed, gs_avail_out := NHR_GZ_CHUNK_SIZE - available_size\<rparr>))
               else r_bind (nhr_realloc mc (gs_out s1) (gs_out_size s1 + NHR_GZ_CHUNK_SIZE)) (\<lambda>out.
                    Inr (Some (c, s1\<lparr>gs_writed := writed, gs_out := out,
                           gs_out_size := gs_out_size s1 + NHR_GZ_CHUNK_SIZE, gs_avail_out := NHR_GZ_CHUNK_SIZE\<rparr>)))
          else Inr None) = Inr (Some (code, s'))"
    using assms(1)
    by (auto simp: gz_inflate_step_def gz_inflate_def r_bind_Inr_conv split: prod.splits if_splits)
  have "stream_wf s1" using gz_took_wf [OF s1(1)] assms(2) by (simp add: stream_wf_def)
  then obtain b where b: "gs_out s1 = Some b" "length b = gs_out_size s1" "gs_writed s1 < gs_out_size s1"
      "gs_out_size s1 \<le> gs_writed s1 + 512" "512 dvd gs_out_size s1"
    by (auto simp: stream_wf_def)
  have grown: "\<exists>b'. out = Some b' \<and> length b' = gs_out_size s1 + NHR_GZ_CHUNK_SIZE"
    if "nhr_realloc mc (Some b) (gs_out_size s1 + NHR_GZ_CHUNK_SIZE) = Inr out" for out
    using that b(2) by (auto simp: nhr_realloc_def NHR_GZ_CHUNK_SIZE_def r_bind_Inr_conv Let_def)
  show ?thesis
    using s1(2) b
    by (auto simp: Let_def r_bind_Inr_conv stream_wf_def NHR_GZ_CHUNK_SIZE_def split: if_splits
        dest!: grown [unfolded NHR_GZ_CHUNK_SIZE_def])
qed

lemma inflate_loop_wf:
  "gz_inflate_loop mc fuel s = Inr (Some s') \<Longrightarrow> stream_wf s \<Longrightarrow> stream_wf s'"
proof (induction fuel arbitrary: s)
  case 0
  then show ?case by simp
next
  case (Suc fuel)
  then obtain code s1 where s1: "gz_inflate_step mc s = Inr (Some (code, s1))"
      "(if code = Z_STREAM_END then Inr (Some s1) else gz_inflate_loop mc fuel s1) = Inr (Some s')"
    by (cases "gz_inflate_step mc s") (auto split: option.split_asm)
  with Suc inflate_step_wf [OF s1(1)] show ?case by (auto split: if_split_asm)
qed

lemma whole_chunks:
  assumes "(w::nat) < n" "n \<le> w + 512" "512 dvd n"
  shows "n = 512 * (w div 512 + 1)"
proof -
  obtain m where m: "n = 512 * m" using assms(3) by blast
  then have "m = w div 512 + 1" using assms(1,2) by linarith
  with m show ?thesis by simp
qed

text \<open>
  Whatever zlib answers, the block that nhr_gz_decompress returns is the smallest number of whole
  chunks that is longer than the size it gives.
\<close>

lemma decompress_block:
  assumes "nhr_gz_decompress mc src n meth = Inr (Some (b, k))"
  shows "length (blk_bytes b) = 512 * (k div 512 + 1)"
proof -
  obtain src' i where i: "src = Some src'" "gz_decompress_input src' n meth = Inr (Some i)"
    using assms by (cases "gz_decompress_input (the src) n meth")
      (auto simp: nhr_gz_decompress_def split: option.split_asm if_split_asm)
  obtain fmt inp where "i = (fmt, inp)" by (cases i)
  with i assms obtain z out s where "nhr_malloc mc NHR_GZ_CHUNK_SIZE = Inr out"
      "gz_inflate_loop mc (gz_fuel mc) \<lparr>gs_z = z, gs_in = inp, gs_out = out, gs_next = 0,
         gs_avail_out = NHR_GZ_CHUNK_SIZE, gs_total_out = 0, gs_writed = 0, gs_out_size = NHR_GZ_CHUNK_SIZE\<rparr>
       = Inr (Some s)" "b = gs_out s" "k = gs_writed s"
    by (auto simp: nhr_gz_decompress_def r_bind_Inr_conv split: option.split_asm if_split_asm)
  then have "stream_wf s"
    by (auto simp: nhr_malloc_Inr_conv stream_wf_def NHR_GZ_CHUNK_SIZE_def dest!: inflate_loop_wf)
  with \<open>b = gs_out s\<close> \<open>k = gs_writed s\<close> whole_chunks [of k "length (blk_bytes b)"] show ?thesis
    by (auto simp: stream_wf_def)
qed

lemma decompress_long_enough:
  "nhr_gz_decompress mc src n meth = Inr (Some (b, k)) \<Longrightarrow> k < length (blk_bytes b)"
  by (drule decompress_block) (simp add: dividend_less_times_div)

section \<open>Formats\<close>

lemma as_uInt_small: "n < 2 ^ 32 \<Longrightarrow> as_uInt n = n"
  by (simp add: as_uInt_def)

lemma decompress_input_deflate:
  "n \<le> length src \<Longrightarrow> n < 2 ^ 32 \<Longrightarrow>
     gz_decompress_input src n NHR_GZ_METHOD_DEFLATE = Inr (Some (Zlib_format, take n src))"
  by (simp add: gz_decompress_input_def as_uInt_small mem_read_def)

lemma length_gz_header [simp]: "length (gz_header tm) = 10"
  by (simp add: gz_header_def)

lemma decompress_input_gzip:
  assumes "raw \<noteq> []" "length foot = 8" "n = 18 + length raw" "n < 2 ^ 32"
  shows "gz_decompress_input (gz_header tm @ raw @ foot @ rest) n NHR_GZ_METHOD_GZIP
           = Inr (Some (Raw_format, raw))"
proof -
  have h: "take 2 (gz_header tm) = [CHR 0x1F, CHR 0x8B]"
    by (simp add: gz_header_def)
  have r: "as_uInt (length raw) = length raw" "0 < length raw"
    using assms by (simp_all add: as_uInt_def)
  have g: "nhr_gz_is_gzip_file (gz_header tm @ raw @ foot @ rest) (18 + length raw) = Inr True"
    using r(2) by (simp add: nhr_gz_is_gzip_file_def NHR_GZ_HEADER_FOOTER_SIZE_def mem_read_def h)
  show ?thesis
    unfolding assms(3) gz_decompress_input_def g NHR_GZ_HEADER_SIZE_def NHR_GZ_HEADER_FOOTER_SIZE_def
    by (simp add: r NHR_GZ_METHOD_GZIP_def NHR_GZ_METHOD_DEFLATE_def)
qed

section \<open>Compression\<close>

definition deflate_contract ::
    "'z zlib \<Rightarrow> (bytes \<Rightarrow> bytes) \<Rightarrow> ('z \<Rightarrow> bytes \<Rightarrow> bytes \<Rightarrow> bool) \<Rightarrow> bool" where
  \<comment> \<open>\<open>R z fed em\<close>: a stream in state \<open>z\<close> has been given \<open>fed\<close> and has written \<open>em\<close> of \<open>enc fed\<close>\<close>
  "deflate_contract zl enc R \<longleftrightarrow>
     (\<forall>z fed em inp room. R z fed em \<and> inp \<noteq> [] \<and> 0 < room \<longrightarrow>
        (\<exists>n p z'. z_deflate zl z Z_NO_FLUSH inp room = (Z_OK, n, p, z')
            \<and> n \<le> length inp \<and> length p \<le> room \<and> (length p < room \<longrightarrow> n = length inp)
            \<and> R z' (fed @ take n inp) (em @ p)))
     \<and> (\<forall>z fed em room. R z fed em \<and> 0 < room \<longrightarrow>
        (\<exists>p z' code. z_deflate zl z Z_FINISH [] room = (code, 0, p, z')
            \<and> p = take room (drop (length em) (enc fed)) \<and> R z' fed (em @ p)
            \<and> (code = Z_STREAM_END \<and> length (enc fed) \<le> length em + room
               \<or> code = Z_OK \<and> length p = room)))
     \<and> (\<forall>z fed em. R z fed em \<longrightarrow> take (length em) (enc fed) = em)"

lemma deflate_input_call:
  assumes "deflate_contract zl enc R" "R z fed em" "inp \<noteq> []" "0 < room"
  obtains n p z' where "z_deflate zl z Z_NO_FLUSH inp room = (Z_OK, n, p, z')"
    "n \<le> length inp" "length p \<le> room" "length p < room \<longrightarrow> n = length inp"
    "R z' (fed @ take n inp) (em @ p)"
proof -
  from assms(1) have "\<forall>z fed em inp room. R z fed em \<and> inp \<noteq> [] \<and> 0 < room \<longrightarrow>
        (\<exists>n p z'. z_deflate zl z Z_NO_FLUSH inp room = (Z_OK, n, p, z')
            \<and> n \<le> length inp \<and> length p \<le> room \<and> (length p < room \<longrightarrow> n = length inp)
            \<and> R z' (fed @ take n inp) (em @ p))"
    by (simp add: deflate_contract_def)
  from this [rule_format, of z fed em inp room] assms(2-4) that show thesis by blast
qed

lemma deflate_finish_call:
  assumes "deflate_contract zl enc R" "R z fed em" "0 < room"
  obtains p z' code where "z_deflate zl z Z_FINISH [] room = (code, 0, p, z')"
    "p = take room (drop (length em) (enc fed))" "R z' fed (em @ p)"
    "code = Z_STREAM_END \<and> length (enc fed) \<le> length em + room \<or> code = Z_OK \<and> length p = room"
proof -
  from assms(1) have "\<forall>z fed em room. R z fed em \<and> 0 < room \<longrightarrow>
        (\<exists>p z' code. z_deflate zl z Z_FINISH [] room = (code, 0, p, z')
            \<and> p = take room (drop (length em) (enc fed)) \<and> R z' fed (em @ p)
            \<and> (code = Z_STREAM_END \<and> length (enc fed) \<le> length em + room
               \<or> code = Z_OK \<and> length p = room))"
    by (simp add: deflate_contract_def)
  from this [rule_format, of z fed em room] assms(2,3) that show thesis by blast
qed

lemma deflate_written:
  assumes "deflate_contract zl enc R" "R z fed em"
  shows "take (length em) (enc fed) = em" "length em \<le> length (enc fed)"
proof -
  show "take (length em) (enc fed) = em" using assms by (simp add: deflate_contract_def)
  then show "length em \<le> length (enc fed)" by (metis length_take min.cobounded1)
qed

definition deflate_state ::
    "('z \<Rightarrow> bytes \<Rightarrow> bytes \<Rightarrow> bool) \<Rightarrow> bytes \<Rightarrow> bytes \<Rightarrow> bytes \<Rightarrow> bytes \<Rightarrow> 'z gz_stream \<Rightarrow> bool" where
  \<comment> \<open>the buffer holds the header and what was written, and \<open>avail_out\<close> is the room behind it\<close>
  "deflate_state R hdr src fed em s \<longleftrightarrow>
     R (gs_z s) fed em \<and> fed @ gs_in s = src
     \<and> (\<exists>b. gs_out s = Some b \<and> length b = gs_out_size s \<and> take (gs_next s) b = hdr @ em)
     \<and> gs_next s = length hdr + length em \<and> gs_total_out s = length em
     \<and> gs_next s + gs_avail_out s = gs_out_size s \<and> gs_out_size s = gs_writed s + 512
     \<and> gs_avail_out s \<le> 512 \<and> gs_writed s mod 512 = length hdr mod 512"

lemma gz_took_state:
  assumes "deflate_state R hdr src fed em s" "length p \<le> gs_avail_out s" "n \<le> length (gs_in s)"
    and "R z' (fed @ take n (gs_in s)) (em @ p)"
  shows "\<exists>s'. gz_took s n p z' = Inr s'
           \<and> deflate_state R hdr src (fed @ take n (gs_in s)) (em @ p) s'
           \<and> gs_in s' = drop n (gs_in s) \<and> gs_avail_out s' = gs_avail_out s - length p"
proof -
  obtain b where b: "gs_out s = Some b" "length b = gs_out_size s" "take (gs_next s) b = hdr @ em"
      and s: "fed @ gs_in s = src" "gs_next s = length hdr + length em" "gs_total_out s = length em"
        "gs_next s + gs_avail_out s = gs_out_size s" "gs_out_size s = gs_writed s + 512"
        "gs_avail_out s \<le> 512" "gs_writed s mod 512 = length hdr mod 512"
    using assms(1) by (auto simp: deflate_state_def)
  have "memcpy_to (Some b) (gs_next s) p
      = Inr (Some (take (gs_next s) b @ p @ drop (gs_next s + length p) b))"
    using b(2) s(4) assms(2) by (intro memcpy_to_Some) simp
  then have "gz_took s n p z' = Inr (s\<lparr>gs_z := z', gs_in := drop n (gs_in s),
      gs_out := Some ((hdr @ em) @ p @ drop (gs_next s + length p) b), gs_next := gs_next s + length p,
      gs_avail_out := gs_avail_out s - length p, gs_total_out := gs_total_out s + length p\<rparr>)"
    using b by (simp add: gz_took_def)
  then show ?thesis using b s assms(2-4) by (auto simp: deflate_state_def)
qed

lemma gz_grow_state:
  assumes "deflate_state R hdr src fed em s" "length hdr + length em + 512 \<le> mc_limit mc"
  shows "\<exists>s'. gz_grow mc s = Inr s' \<and> deflate_state R hdr src fed em s' \<and> gs_in s' = gs_in s
           \<and> gs_avail_out s' = (if gs_avail_out s = 0 then 512 else gs_avail_out s)"
proof (cases "gs_avail_out s = 0")
  case False
  with assms(1) show ?thesis by (simp add: gz_grow_def)
next
  case True
  obtain b where b: "gs_out s = Some b" "length b = gs_out_size s" "take (gs_next s) b = hdr @ em"
      and s: "gs_next s = length hdr + length em" "gs_next s = gs_out_size s"
        "gs_out_size s = gs_writed s + 512" "gs_writed s mod 512 = length hdr mod 512"
    using assms(1) True by (auto simp: deflate_state_def)
  have "nhr_realloc mc (Some b) (gs_out_size s + 512) = Inr (Some (b @ replicate 512 (mc_fill mc)))"
    using b(2) s assms(2) by (subst realloc_grow) simp_all
  then have "gz_grow mc s = Inr (s\<lparr>gs_out_size := gs_out_size s + 512, gs_writed := gs_writed s + 512,
      gs_out := Some (b @ replicate 512 (mc_fill mc)), gs_next := gs_writed s + 512,
      gs_avail_out := 512\<rparr>)"
    using True b(1) by (simp add: gz_grow_def NHR_GZ_CHUNK_SIZE_def)
  moreover have "take (gs_writed s + 512) b = hdr @ em" using b(3) s by simp
  moreover have "(length hdr + length em) mod 512 = length hdr mod 512"
    using s by (metis mod_add_self2)
  ultimately show ?thesis
    using assms(1) True b(2) s(1-3) by (auto simp: deflate_state_def)
qed

lemma gz_deflate_input_state:
  assumes dc: "deflate_contract (gz_zlib mc) enc R"
    and "deflate_state R hdr src fed em s" "gs_avail_out s > 0"
    and "gs_in s \<noteq> [] \<longrightarrow> gs_avail_out s = 512"
    and bound: "\<And>k. length (enc (take k src)) \<le> B" "length hdr + B + 512 \<le> mc_limit mc"
    and "B + (if gs_in s = [] then 1 else 513) \<le> length em + 512 * fuel"
  shows "\<exists>s' em'. gz_deflate_input mc fuel s = Inr (Some s')
           \<and> deflate_state R hdr src src em' s' \<and> gs_in s' = [] \<and> gs_avail_out s' > 0"
  using assms(2-4,7)
proof (induction fuel arbitrary: s fed em)
  case 0
  have "fed = take (length fed) src" using 0(1) by (auto simp: deflate_state_def)
  moreover have "length em \<le> length (enc fed)"
    using deflate_written(2) [OF dc] 0(1) by (auto simp: deflate_state_def)
  ultimately have "length em \<le> B" using bound(1) [of "length fed"] by simp
  with 0 show ?case by (simp split: if_splits)
next
  case (Suc fuel)
  show ?case
  proof (cases "gs_in s = []")
    case True
    with Suc.prems show ?thesis by (auto simp: deflate_state_def)
  next
    case False
    note False0 = False
    then have a: "gs_avail_out s = 512" using Suc.prems(3) by simp
    have R: "R (gs_z s) fed em" using Suc.prems(1) by (simp add: deflate_state_def)
    have "(0::nat) < 512" by simp
    from deflate_input_call [OF dc R False this] obtain n p z' where call:
        "z_deflate (gz_zlib mc) (gs_z s) Z_NO_FLUSH (gs_in s) 512 = (Z_OK, n, p, z')"
        "n \<le> length (gs_in s)" "length p \<le> 512" "length p < 512 \<longrightarrow> n = length (gs_in s)"
        "R z' (fed @ take n (gs_in s)) (em @ p)"
      by metis
    let ?fed = "fed @ take n (gs_in s)"
    obtain s1 where s1: "gz_took s n p z' = Inr s1" "deflate_state R hdr src ?fed (em @ p) s1"
        "gs_in s1 = drop n (gs_in s)" "gs_avail_out s1 = 512 - length p"
      using gz_took_state [OF Suc.prems(1) _ call(2,5)] call(3) a by auto
    have "src = ?fed @ gs_in s1" using s1(2) by (simp add: deflate_state_def)
    then have "?fed = take (length ?fed) src" by (metis append_eq_conv_conj)
    then have "length (enc ?fed) \<le> B" using bound(1) [of "length ?fed"] by metis
    with deflate_written(2) [OF dc call(5)] have emp: "length (em @ p) \<le> B" by linarith
    then obtain s2 where s2: "gz_grow mc s1 = Inr s2" "deflate_state R hdr src ?fed (em @ p) s2"
        "gs_in s2 = gs_in s1" "gs_avail_out s2 = (if gs_avail_out s1 = 0 then 512 else gs_avail_out s1)"
      using gz_grow_state [OF s1(2), of mc] bound(2) by auto
    have "gz_deflate_input mc (Suc fuel) s = gz_deflate_input mc fuel s2"
      using False a call(1) s1(1) s2(1) by (simp add: gz_deflate_def)
    moreover have "\<exists>s' em'. gz_deflate_input mc fuel s2 = Inr (Some s')
           \<and> deflate_state R hdr src src em' s' \<and> gs_in s' = [] \<and> gs_avail_out s' > 0"
    proof (cases "gs_in s2 = []")
      case True
      have "fuel \<noteq> 0 \<or> B < length (em @ p)" using Suc.prems(4) False0 by (cases fuel) auto
      with emp obtain f where "fuel = Suc f" by (cases fuel) auto
      with True s2 s1(4) show ?thesis by (auto simp: deflate_state_def)
    next
      case False
      then have "length p = 512" using call(3,4) s1(3) s2(3) by (cases "length p < 512") auto
      with s1(4) s2(4) Suc.prems(4) False0 show ?thesis
        by (intro Suc.IH [OF s2(2)]) auto
    qed
    ultimately show ?thesis by simp
  qed
qed

lemma gz_deflate_finish_state:
  assumes dc: "deflate_contract (gz_zlib mc) enc R"
    and "deflate_state R hdr src src em s" "gs_in s = []"
    and bound: "length hdr + length (enc src) + 512 \<le> mc_limit mc"
    and "length (enc src) + (if gs_avail_out s = 0 then 1 else 512) \<le> length em + 512 * fuel"
  shows "\<exists>s'. gz_deflate_finish mc fuel s = Inr (Z_STREAM_END, s')
           \<and> deflate_state R hdr src src (enc src) s'"
  using assms(2,3,5)
proof (induction fuel arbitrary: s em)
  case 0
  have "length em \<le> length (enc src)"
    using deflate_written(2) [OF dc] 0(1) by (auto simp: deflate_state_def)
  with 0(3) show ?case by (simp split: if_splits)
next
  case (Suc fuel)
  have "length em \<le> length (enc src)"
    using deflate_written(2) [OF dc] Suc.prems(1) by (auto simp: deflate_state_def)
  then obtain s1 where s1: "gz_grow mc s = Inr s1" "deflate_state R hdr src src em s1" "gs_in s1 = []"
      "gs_avail_out s1 = (if gs_avail_out s = 0 then 512 else gs_avail_out s)"
    using gz_grow_state [OF Suc.prems(1), of mc] bound Suc.prems(2) by auto
  have room: "0 < gs_avail_out s1" using s1(4) by simp
  have R: "R (gs_z s1) src em" using s1(2) by (simp add: deflate_state_def)
  obtain p z' code where call:
      "z_deflate (gz_zlib mc) (gs_z s1) Z_FINISH [] (gs_avail_out s1) = (code, 0, p, z')"
      "p = take (gs_avail_out s1) (drop (length em) (enc src))" "R z' src (em @ p)"
      "code = Z_STREAM_END \<and> length (enc src) \<le> length em + gs_avail_out s1
        \<or> code = Z_OK \<and> length p = gs_avail_out s1"
    using deflate_finish_call [OF dc R room] by blast
  have "length p \<le> gs_avail_out s1" using call(2) by simp
  then obtain s2 where s2: "gz_took s1 0 p z' = Inr s2" "deflate_state R hdr src src (em @ p) s2"
      "gs_in s2 = []" "gs_avail_out s2 = gs_avail_out s1 - length p"
    using gz_took_state [OF s1(2), of p 0 z'] call(3) s1(3) by auto
  have step: "gz_deflate_finish mc (Suc fuel) s =
      (if code = Z_OK then gz_deflate_finish mc fuel s2 else Inr (code, s2))"
    using s1(1,3) call(1) s2(1) by (simp add: gz_deflate_def)
  from call(4) show ?case
  proof
    assume e: "code = Z_STREAM_END \<and> length (enc src) \<le> length em + gs_avail_out s1"
    then have "length (drop (length em) (enc src)) \<le> gs_avail_out s1" by auto
    then have "p = drop (length em) (enc src)" using call(2) by simp
    then have "em @ p = take (length em) (enc src) @ drop (length em) (enc src)"
      using deflate_written(1) [OF dc R] by simp
    with step s2(2) e show ?thesis by auto
  next
    assume o: "code = Z_OK \<and> length p = gs_avail_out s1"
    then have "length (enc src) + (if gs_avail_out s2 = 0 then 1 else 512) \<le> length (em @ p) + 512 * fuel"
      using Suc.prems(3) s1(4) s2(4) room by (simp split: if_splits)
    from Suc.IH [OF s2(2,3) this] step o show ?thesis by auto
  qed
qed

definition gz_footer :: "'z gz_mach \<Rightarrow> bytes \<Rightarrow> bytes" where
  \<comment> \<open>CRC32 and ISIZE, each a \<open>uLong\<close>\<close>
  "gz_footer mc src = le_bytes (gz_sizeof_ulong mc) (unat (z_crc32 (gz_zlib mc) src))
     @ le_bytes (gz_sizeof_ulong mc) (length src)"

definition gz_prefix :: "'z gz_mach \<Rightarrow> 8 word \<Rightarrow> bytes" where
  "gz_prefix mc meth = (if meth = NHR_GZ_METHOD_GZIP then gz_header (gz_time mc) else [])"

definition gz_format :: "8 word \<Rightarrow> z_format" where
  "gz_format meth = (if meth = NHR_GZ_METHOD_DEFLATE then Zlib_format else Raw_format)"

definition compress_ready ::
    "'z gz_mach \<Rightarrow> (bytes \<Rightarrow> bytes) \<Rightarrow> ('z \<Rightarrow> bytes \<Rightarrow> bytes \<Rightarrow> bool) \<Rightarrow> 8 word \<Rightarrow> bytes \<Rightarrow> bool" where
  \<comment> \<open>zlib opens a stream, and fuel and memory suffice for the encoding of every prefix\<close>
  "compress_ready mc enc R meth src \<longleftrightarrow>
     deflate_contract (gz_zlib mc) enc R
     \<and> (\<exists>z. z_deflateInit (gz_zlib mc) (gz_format meth) = Some z \<and> R z [] [])
     \<and> src \<noteq> [] \<and> length src < 2 ^ 32
     \<and> (\<forall>k. length (enc (take k src)) + 513 \<le> 512 * gz_fuel mc)
     \<and> (\<forall>k. length (enc (take k src)) + 540 \<le> mc_limit mc)"

lemma compress_streams:
  assumes "compress_ready mc enc R meth src"
  obtains z s1 s2 where
    "z_deflateInit (gz_zlib mc) (gz_format meth) = Some z"
    "gz_deflate_input mc (gz_fuel mc)
       \<lparr>gs_z = z, gs_in = src, gs_out = Some (gz_prefix mc meth @ replicate 512 (mc_fill mc)),
        gs_next = length (gz_prefix mc meth), gs_avail_out = 512, gs_total_out = 0,
        gs_writed = length (gz_prefix mc meth), gs_out_size = length (gz_prefix mc meth) + 512\<rparr>
     = Inr (Some s1)"
    "gz_deflate_finish mc (gz_fuel mc) s1 = Inr (Z_STREAM_END, s2)"
    "deflate_state R (gz_prefix mc meth) src src (enc src) s2"
proof -
  have dc: "deflate_contract (gz_zlib mc) enc R" using assms by (simp add: compress_ready_def)
  obtain z where z: "z_deflateInit (gz_zlib mc) (gz_format meth) = Some z" "R z [] []"
    using assms by (auto simp: compress_ready_def)
  let ?h = "gz_prefix mc meth"
  let ?s = "\<lparr>gs_z = z, gs_in = src, gs_out = Some (?h @ replicate 512 (mc_fill mc)),
        gs_next = length ?h, gs_avail_out = 512, gs_total_out = 0,
        gs_writed = length ?h, gs_out_size = length ?h + 512\<rparr>"
  have h: "length ?h \<le> 10" by (simp add: gz_prefix_def)
  define B where "B = min (512 * gz_fuel mc - 513) (mc_limit mc - 540)"
  have en: "length (enc (take k src)) + 513 \<le> 512 * gz_fuel mc"
      "length (enc (take k src)) + 540 \<le> mc_limit mc" for k
    using assms by (auto simp: compress_ready_def)
  have B: "length (enc (take k src)) \<le> B" for k 
    unfolding B_def min.bounded_iff using en(1) [of k] en(2) [of k] by (intro conjI; linarith)
  have Bl: "B + 540 \<le> mc_limit mc" "B + 513 \<le> 512 * gz_fuel mc" "0 < gz_fuel mc"
    using en(1) [of 0] en(2) [of 0] by (auto simp: B_def intro!: Nat.gr0I)
  have st: "deflate_state R ?h src [] [] ?s" using z(2) by (simp add: deflate_state_def)
  have "B + (if src = [] then 1 else 513) \<le> 512 * gz_fuel mc" using Bl(2) by simp
  then obtain s1 em where s1:
      "gz_deflate_input mc (gz_fuel mc) ?s = Inr (Some s1)" "deflate_state R ?h src src em s1"
      "gs_in s1 = []" "gs_avail_out s1 > 0"
    using gz_deflate_input_state [OF dc st _ _ B, where fuel = "gz_fuel mc"] Bl(1) h
    by auto
  have "length (enc src) \<le> B" using B [of "length src"] by simp
  then obtain s2 where "gz_deflate_finish mc (gz_fuel mc) s1 = Inr (Z_STREAM_END, s2)"
      "deflate_state R ?h src src (enc src) s2"
    using gz_deflate_finish_state [OF dc s1(2,3), of "gz_fuel mc"] Bl h s1(4) by auto
  with z(1) s1(1) show thesis by (rule that)
qed

lemma compress_end:
  assumes "compress_ready mc enc R meth src"
  obtains b sz where
    "nhr_gz_compress mc (Some src) (length src) meth =
       (if meth = NHR_GZ_METHOD_GZIP
        then r_bind (nhr_gz_write_footer mc (Some b) sz (length (enc src) + 10) src (length src))
               (\<lambda>out. Inr (Some (out, 18 + length (enc src))))
        else Inr (Some (Some b, length (enc src))))"
    "length b = sz" "length (gz_prefix mc meth @ enc src) \<le> sz"
    "take (length (gz_prefix mc meth @ enc src)) b = gz_prefix mc meth @ enc src"
    "sz mod 512 = length (gz_prefix mc meth) mod 512"
    "sz \<le> length (gz_prefix mc meth @ enc src) + 512"
proof -
  obtain z s1 s2 where z: "z_deflateInit (gz_zlib mc) (gz_format meth) = Some z"
    and run: "gz_deflate_input mc (gz_fuel mc)
       \<lparr>gs_z = z, gs_in = src, gs_out = Some (gz_prefix mc meth @ replicate 512 (mc_fill mc)),
        gs_next = length (gz_prefix mc meth), gs_avail_out = 512, gs_total_out = 0,
        gs_writed = length (gz_prefix mc meth), gs_out_size = length (gz_prefix mc meth) + 512\<rparr>
     = Inr (Some s1)" "gz_deflate_finish mc (gz_fuel mc) s1 = Inr (Z_STREAM_END, s2)"
    and st: "deflate_state R (gz_prefix mc meth) src src (enc src) s2"
    by (rule compress_streams [OF assms])
  obtain b where b: "gs_out s2 = Some b" "length b = gs_out_size s2"
      "take (gs_next s2) b = gz_prefix mc meth @ enc src"
      "gs_next s2 = length (gz_prefix mc meth) + length (enc src)" "gs_total_out s2 = length (enc src)"
      "gs_next s2 + gs_avail_out s2 = gs_out_size s2" "gs_avail_out s2 \<le> 512"
      "gs_out_size s2 = gs_writed s2 + 512" "gs_writed s2 mod 512 = length (gz_prefix mc meth) mod 512"
    using st by (auto simp: deflate_state_def)
  have src: "src \<noteq> []" "length src < 2 ^ 32" and lim: "540 \<le> mc_limit mc"
    using assms by (auto simp: compress_ready_def intro: order_trans [OF le_add2])
  have m: "nhr_malloc mc 522 = Inr (Some (replicate 522 (mc_fill mc)))"
      "nhr_malloc mc 512 = Inr (Some (replicate 512 (mc_fill mc)))"
    using lim by (simp_all add: nhr_malloc_def)
  have w: "nhr_gz_write_header mc (Some (replicate 522 (mc_fill mc)))
      = Inr (Some (gz_header (gz_time mc) @ replicate 512 (mc_fill mc)))"
    by (simp add: nhr_gz_write_header_def memcpy_to_Some)
  have "nhr_gz_compress mc (Some src) (length src) meth =
       (if meth = NHR_GZ_METHOD_GZIP
        then r_bind (nhr_gz_write_footer mc (Some b) (gs_out_size s2) (length (enc src) + 10) src (length src))
               (\<lambda>out. Inr (Some (out, 18 + length (enc src))))
        else Inr (Some (Some b, length (enc src))))"
  proof (cases "meth = NHR_GZ_METHOD_GZIP")
    case True
    then show ?thesis using src z run m w b
      by (simp add: nhr_gz_compress_def NHR_GZ_CHUNK_SIZE_def NHR_GZ_HEADER_SIZE_def
          NHR_GZ_FOOTER_SIZE_def gz_format_def gz_prefix_def as_uInt_small mem_read_def Let_def)
  next
    case False
    then show ?thesis using src z run m w b
      by (simp add: nhr_gz_compress_def NHR_GZ_CHUNK_SIZE_def NHR_GZ_HEADER_SIZE_def
          NHR_GZ_FOOTER_SIZE_def gz_format_def gz_prefix_def as_uInt_small mem_read_def Let_def)
  qed
  then show thesis using b by (intro that [of b "gs_out_size s2"]) auto
qed

lemma footer_room:
  assumes "length b = sz" "n \<le> sz" "sz + 8 \<le> mc_limit mc"
  obtains b' where
    "(if n \<le> sz \<and> sz - n < NHR_GZ_FOOTER_SIZE
      then nhr_realloc mc (Some b) (sz + NHR_GZ_FOOTER_SIZE) else Inr (Some b)) = Inr (Some b')"
    "take n b' = take n b" "length b' = (if sz - n < 8 then sz + 8 else sz)"
proof (cases "sz - n < 8")
  case True
  with assms show thesis
    by (intro that [of "b @ replicate 8 (mc_fill mc)"])
       (simp_all add: NHR_GZ_FOOTER_SIZE_def realloc_grow)
next
  case False
  with assms show thesis by (intro that [of b]) (simp_all add: NHR_GZ_FOOTER_SIZE_def)
qed

lemma write_footer_ok:
  assumes "length b = sz" "n \<le> sz" "length src < 2 ^ 32" "sz + 8 \<le> mc_limit mc"
    and "2 * gz_sizeof_ulong mc \<le> (if sz - n < 8 then sz + 8 else sz) - n"
  shows "\<exists>b'. nhr_gz_write_footer mc (Some b) sz n src (length src) = Inr (Some b')
           \<and> take (n + 2 * gz_sizeof_ulong mc) b' = take n b @ gz_footer mc src
           \<and> n + 2 * gz_sizeof_ulong mc \<le> length b'"
proof -
  obtain b1 where b1: "(if n \<le> sz \<and> sz - n < NHR_GZ_FOOTER_SIZE
      then nhr_realloc mc (Some b) (sz + NHR_GZ_FOOTER_SIZE) else Inr (Some b)) = Inr (Some b1)"
    "take n b1 = take n b" "length b1 = (if sz - n < 8 then sz + 8 else sz)"
    using footer_room [OF assms(1,2,4)] by blast
  let ?w = "gz_sizeof_ulong mc"
  have "n + 2 * ?w \<le> length b1" using assms(2,5) b1(3) by (simp split: if_splits)
  moreover define c where "c = le_bytes ?w (unat (z_crc32 (gz_zlib mc) src))"
  moreover define i where "i = le_bytes ?w (length src)"
  ultimately have "memcpy_to (Some b1) n c = Inr (Some (take n b1 @ c @ drop (n + ?w) b1))"
      "memcpy_to (Some (take n b1 @ c @ drop (n + ?w) b1)) (n + ?w) i
        = Inr (Some (take n b1 @ c @ i @ drop (?w + (n + ?w)) b1))"
    using assms(2) by (simp_all add: memcpy_to_Some)
  with \<open>n + 2 * ?w \<le> length b1\<close> b1(2) assms(1-3) show ?thesis
    unfolding nhr_gz_write_footer_def b1(1)
    by (simp add: gz_footer_def as_uInt_small c_def [symmetric] i_def [symmetric])
       (simp add: c_def i_def)
qed

lemma write_footer_overflow:
  assumes "length b = sz" "n \<le> sz" "sz + 8 \<le> mc_limit mc" "sz - n < 16" "gz_sizeof_ulong mc = 8"
  shows "nhr_gz_write_footer mc (Some b) sz n src k = Inl OutOfBounds"
proof -
  obtain b1 where b1: "(if n \<le> sz \<and> sz - n < NHR_GZ_FOOTER_SIZE
      then nhr_realloc mc (Some b) (sz + NHR_GZ_FOOTER_SIZE) else Inr (Some b)) = Inr (Some b1)"
    "length b1 = (if sz - n < 8 then sz + 8 else sz)"
    using footer_room [OF assms(1-3)] by blast
  have l: "n + 8 \<le> length b1" "length b1 < n + 16" using b1(2) assms(2,4) by (auto split: if_splits)
  have "le_bytes 8 v \<noteq> []" for v using length_le_bytes [of 8 v] by (metis list.size(3) zero_neq_numeral)
  with l show ?thesis unfolding nhr_gz_write_footer_def b1(1)
    by (simp add: memcpy_to_Some assms(5)) (simp add: memcpy_to_def mem_write_def)
qed

text \<open>Only the first \<open>buff_size\<close> bytes of the input matter.\<close>

lemma compress_prefix:
  assumes "length src < 2 ^ 32"
  shows "nhr_gz_compress mc (Some (src @ rest)) (length src) meth
           = nhr_gz_compress mc (Some src) (length src) meth"
proof -
  have f: "nhr_gz_write_footer mc b n w (src @ rest) (length src)
      = nhr_gz_write_footer mc b n w src (length src)" for b n w
    using assms by (simp add: nhr_gz_write_footer_def as_uInt_small)
  have m: "mem_read (src @ rest) (as_uInt (length src)) = mem_read src (as_uInt (length src))"
    using assms by (simp add: as_uInt_small mem_read_def)
  show ?thesis by (simp only: nhr_gz_compress_def option.case f m)
qed

section \<open>A zlib that stores\<close>

definition stored_zlib :: "(bytes \<times> nat) zlib" where
  "stored_zlib = \<lparr>z_deflateInit = (\<lambda>f. Some ([], 0)),
     z_deflate = (\<lambda>(fed, k) fl inp room.
        let fed' = fed @ inp; p = take room (drop k fed') in
        (if fl = Z_FINISH \<and> length fed' \<le> k + room then Z_STREAM_END else Z_OK,
         length inp, p, (fed', k + length p))),
     z_inflateInit = (\<lambda>f. Some ([], 0)),
     z_inflate = (\<lambda>z inp room. if length inp \<le> room then (Z_STREAM_END, length inp, inp, z)
                      else (Z_OK, room, take room inp, z)),
     z_crc32 = (\<lambda>b. of_nat (sum_list (map of_char b)))\<rparr>"

definition stored_R :: "bytes \<times> nat \<Rightarrow> bytes \<Rightarrow> bytes \<Rightarrow> bool" where
  "stored_R z fed em \<longleftrightarrow> fst z = fed \<and> snd z = length em \<and> take (length em) fed = em"

lemma stored_deflate: "deflate_contract stored_zlib (\<lambda>x. x) stored_R"
proof -
  have a: "take (length em + length (take room (drop (length em) xs))) xs
      = em @ take room (drop (length em) xs)"
    if "take (length em) xs = em" for em xs :: bytes and room
    using that by (auto simp: take_add min_def)
  show ?thesis
    unfolding deflate_contract_def
  proof (intro conjI allI impI, goal_cases)
    case (1 z fed em inp room)
    then have em: "take (length em) fed = em" "fst z = fed" "snd z = length em"
      by (auto simp: stored_R_def)
    from em(1) have "length em \<le> length fed" by (metis length_take min.cobounded1)
    with em have "take (length em) (fed @ inp) = em" "fst z = fed" "snd z = length em"
      "length em \<le> length fed" by auto
    then show ?case using a [of em "fed @ inp" room]
      by (auto simp: stored_zlib_def stored_R_def Let_def split: prod.split)
  next
    case (2 z fed em room)
    then have "take (length em) fed = em" "fst z = fed" "snd z = length em" "length em \<le> length fed"
      by (auto simp: stored_R_def) (metis length_take min.cobounded1)
    then show ?case using a [of em fed room]
      by (auto simp: stored_zlib_def stored_R_def Let_def split: prod.split)
  next
    case (3 z fed em)
    then show ?case by (simp add: stored_R_def)
  qed
qed

lemma stored_inflate: "inflate_contract stored_zlib (\<lambda>z inp pl. inp = pl)"
  unfolding inflate_contract_def
proof (intro allI impI, goal_cases)
  case (1 z inp pl room)
  then show ?case by (cases "length pl \<le> room") (auto simp: stored_zlib_def)
qed

definition stored_mach :: "nat \<Rightarrow> (bytes \<times> nat) gz_mach" where
  "stored_mach w = \<lparr>mc_fill = CHR 0xAA, mc_limit = 100000, gz_zlib = stored_zlib, gz_time = 0, gz_rand = (\<lambda>seed i. seed + 7 * i),
     gz_sizeof_ulong = w, gz_fuel = 10\<rparr>"

lemma stored_mach_simps [simp]:
  "mc_limit (stored_mach w) = 100000" "gz_zlib (stored_mach w) = stored_zlib"
  "gz_sizeof_ulong (stored_mach w) = w" "gz_fuel (stored_mach w) = 10"
  "gz_time (stored_mach w) = 0" "z_inflateInit stored_zlib f = Some ([], 0)"
  "z_crc32 stored_zlib b = of_nat (sum_list (map of_char b))"
  by (simp_all add: stored_mach_def stored_zlib_def)

lemma stored_ready:
  "src \<noteq> [] \<Longrightarrow> length src \<le> 4000 \<Longrightarrow> compress_ready (stored_mach w) (\<lambda>x. x) stored_R meth src"
  using stored_deflate
  by (auto simp: compress_ready_def stored_mach_def min_def stored_R_def)
     (simp add: stored_zlib_def)

lemma le_bytes_add: "le_bytes (a + b) v = le_bytes a v @ le_bytes b (v div 256 ^ a)"
  by (induction a arbitrary: v) (simp_all add: div_mult2_eq)

lemma le_bytes_0: "le_bytes k 0 = replicate k NUL"
  by (induction k) (auto simp: char_of_def)

lemma le_bytes_8_of_32: "v < 2 ^ 32 \<Longrightarrow> le_bytes 8 v = le_bytes 4 v @ replicate 4 NUL"
  using le_bytes_add [of 4 4 v] by (simp add: le_bytes_0)

section \<open>The properties\<close>

lemma room_of_size:
  assumes "sz mod 512 = 10 mod 512" "l + 10 \<le> sz" "sz \<le> l + 10 + 512" "r = sz - (l + 10)"
  shows "\<exists>k. l mod 512 + r = 512 * k" "r \<le> (512::nat)"
proof -
  have "512 dvd sz - 10"
    using assms(1,2) mod_eq_dvd_iff_nat [of 10 sz 512] by simp
  moreover have "sz - 10 = 512 * (l div 512) + (l mod 512 + r)"
    using assms(2,4) div_mult_mod_eq [of l 512] by linarith
  ultimately have "512 dvd l mod 512 + r"
    using dvd_add_right_iff [of 512 "512 * (l div 512)"] by (metis dvd_triv_left)
  then show "\<exists>k. l mod 512 + r = 512 * k" by (auto elim: dvdE)
  show "r \<le> 512" using assms(3,4) by simp
qed

lemma room_small:
  assumes "m + r = 512 * k" "m < (512::nat)" "r \<le> 512"
  shows "496 < m \<Longrightarrow> r < 16" "0 < m \<Longrightarrow> m \<le> 496 \<Longrightarrow> 16 \<le> r"
proof -
  have "k = 1" if "0 < m"
  proof -
    have "512 * k < 1024" "0 < 512 * k" using assms that by linarith+
    then show ?thesis by simp
  qed
  with assms show "496 < m \<Longrightarrow> r < 16" "0 < m \<Longrightarrow> m \<le> 496 \<Longrightarrow> 16 \<le> r" by auto
qed

text \<open>
  What the compressor can end with on either size of \<open>uLong\<close>: \<open>gz_written\<close> is the block as far as
  its size is counted, and \<open>footer_spills\<close> says that sixteen bytes of footer may not fit behind the
  encoding in its 512-byte chunk.
\<close>

definition gz_written :: "'z gz_mach \<Rightarrow> bytes \<Rightarrow> bytes \<Rightarrow> bytes" where
  "gz_written mc coded src = gz_header (gz_time mc) @ coded @ le_bytes 4 (unat (z_crc32 (gz_zlib mc) src))
     @ (if gz_sizeof_ulong mc = 4 then le_bytes 4 (length src) else replicate 4 NUL)"

definition footer_spills :: "'z gz_mach \<Rightarrow> bytes \<Rightarrow> bool" where
  "footer_spills mc coded \<longleftrightarrow>
     gz_sizeof_ulong mc = 8 \<and> (length coded mod 512 = 0 \<or> 496 < length coded mod 512)"

lemma length_gz_written [simp]: "length (gz_written mc coded src) = 18 + length coded"
  by (simp add: gz_written_def gz_header_def)

lemma footer_counted:
  assumes "gz_sizeof_ulong mc \<in> {4, 8}"
  shows "gz_header (gz_time mc) @ coded @ take 8 (gz_footer mc src) = gz_written mc coded src"
proof -
  have "unat (z_crc32 (gz_zlib mc) src) < 2 ^ 32"
    using unsigned_less [of "z_crc32 (gz_zlib mc) src"] by simp
  from le_bytes_8_of_32 [OF this] assms show ?thesis by (auto simp: gz_footer_def gz_written_def)
qed

lemma compress_gzip_ends:
  assumes "compress_ready mc enc R NHR_GZ_METHOD_GZIP src"
  obtains b sz r k where
    "nhr_gz_compress mc (Some src) (length src) NHR_GZ_METHOD_GZIP =
        r_bind (nhr_gz_write_footer mc (Some b) sz (length (enc src) + 10) src (length src))
               (\<lambda>out. Inr (Some (out, 18 + length (enc src))))"
    "length b = sz" "sz = length (enc src) + 10 + r" "sz + 8 \<le> mc_limit mc"
    "take (length (enc src) + 10) b = gz_header (gz_time mc) @ enc src"
    "length (enc src) mod 512 + r = 512 * k" "r \<le> 512"
proof -
  have p: "gz_prefix mc NHR_GZ_METHOD_GZIP = gz_header (gz_time mc)" by (simp add: gz_prefix_def)
  obtain b sz where b: "nhr_gz_compress mc (Some src) (length src) NHR_GZ_METHOD_GZIP =
        r_bind (nhr_gz_write_footer mc (Some b) sz (length (enc src) + 10) src (length src))
               (\<lambda>out. Inr (Some (out, 18 + length (enc src))))"
    "length b = sz" "length (gz_header (gz_time mc) @ enc src) \<le> sz"
    "take (length (gz_header (gz_time mc) @ enc src)) b = gz_header (gz_time mc) @ enc src"
    "sz mod 512 = length (gz_header (gz_time mc)) mod 512"
    "sz \<le> length (gz_header (gz_time mc) @ enc src) + 512"
    using compress_end [OF assms] unfolding p by auto
  have lim: "length (enc (take (length src) src)) + 540 \<le> mc_limit mc"
    using assms unfolding compress_ready_def by blast
  define r where "r = sz - (length (enc src) + 10)"
  obtain k where k: "length (enc src) mod 512 + r = 512 * k" "r \<le> 512"
    using room_of_size [OF _ _ _ r_def] b(3,5,6) by auto
  show thesis
    by (rule that [OF b(1,2) _ _ _ k]) (use b(3,4,6) lim in \<open>simp_all add: r_def add.commute\<close>)
qed

lemma compress_gzip_cases:
  assumes "compress_ready mc enc R NHR_GZ_METHOD_GZIP src" "gz_sizeof_ulong mc \<in> {4, 8}"
  shows "nhr_gz_compress mc (Some src) (length src) NHR_GZ_METHOD_GZIP = Inl OutOfBounds \<and> footer_spills mc (enc src)
    \<or> (\<exists>b. nhr_gz_compress mc (Some src) (length src) NHR_GZ_METHOD_GZIP = Inr (Some (Some b, 18 + length (enc src)))
         \<and> take (18 + length (enc src)) b = gz_written mc (enc src) src \<and> 18 + length (enc src) \<le> length b
         \<and> (gz_sizeof_ulong mc = 4 \<or> length (enc src) mod 512 \<le> 496))"
proof -
  let ?w = "gz_sizeof_ulong mc" and ?n = "length (enc src) + 10"
  obtain b sz r k where b: "nhr_gz_compress mc (Some src) (length src) NHR_GZ_METHOD_GZIP =
        r_bind (nhr_gz_write_footer mc (Some b) sz ?n src (length src))
               (\<lambda>out. Inr (Some (out, 18 + length (enc src))))"
    "length b = sz" "sz = ?n + r" "sz + 8 \<le> mc_limit mc" "take ?n b = gz_header (gz_time mc) @ enc src"
    and k: "length (enc src) mod 512 + r = 512 * k" "r \<le> 512"
    by (rule compress_gzip_ends [OF assms(1)])
  note room = room_small [OF k(1) _ k(2), simplified]
  show ?thesis
  proof (cases "?w = 8 \<and> r < 16")
    case True
    with b(2-4) have "nhr_gz_write_footer mc (Some b) sz ?n src (length src) = Inl OutOfBounds"
      by (intro write_footer_overflow) simp_all
    moreover have "length (enc src) mod 512 = 0 \<or> 496 < length (enc src) mod 512"
      using room(2) True by (metis not_gr_zero not_le)
    ultimately show ?thesis using b(1) True by (simp add: footer_spills_def)
  next
    case False
    then have "2 * ?w \<le> (if sz - ?n < 8 then sz + 8 else sz) - ?n" using assms(2) b(3) by auto
    moreover have "length src < 2 ^ 32" using assms(1) by (simp add: compress_ready_def)
    ultimately obtain b' where b': "nhr_gz_write_footer mc (Some b) sz ?n src (length src) = Inr (Some b')"
        "take (?n + 2 * ?w) b' = take ?n b @ gz_footer mc src" "?n + 2 * ?w \<le> length b'"
      using write_footer_ok [of b sz ?n src mc] b(2-4) by auto
    have w: "8 \<le> 2 * ?w" using assms(2) by auto
    then have "take (18 + length (enc src)) b' = take (?n + 8) (take (?n + 2 * ?w) b')"
      by (simp add: min_def add.commute)
    also have "\<dots> = gz_written mc (enc src) src"
      unfolding b'(2) b(5) footer_counted [OF assms(2), symmetric] by simp
    finally have "take (18 + length (enc src)) b' = gz_written mc (enc src) src" .
    moreover have "gz_sizeof_ulong mc = 4 \<or> length (enc src) mod 512 \<le> 496"
      using room(1) False assms(2) by (metis insertE not_le singletonD)
    ultimately show ?thesis using b(1) b' w by simp
  qed
qed

text \<open>
  C15: Compressing with the gzip method, on a platform whose \<open>uLong\<close> has four or eight bytes. It
  ends with a block that holds the ten header bytes with the time, the raw deflate encoding of the
  input and its CRC32, and then the size of the input if \<open>uLong\<close> has four bytes, four zero bytes
  if it has eight. The only fault there can be is that, with eight bytes, the footer leaves the block:
  never when the encoding fills 1 to 496 bytes of its last 512-byte chunk, always when it fills 497
  to 511, and with a full chunk depending on whether zlib ends before the block is grown again.
\<close>

theorem gz_compress_exact:
  assumes "compress_ready mc enc R NHR_GZ_METHOD_GZIP src" "gz_sizeof_ulong mc \<in> {4, 8}"
  shows "case nhr_gz_compress mc (Some src) (length src) NHR_GZ_METHOD_GZIP of
       Inl f \<Rightarrow> f = OutOfBounds \<and> gz_sizeof_ulong mc = 8
          \<and> (length (enc src) mod 512 = 0 \<or> 496 < length (enc src) mod 512)
     | Inr (Some (Some b, k)) \<Rightarrow> k = 18 + length (enc src)
          \<and> take k b = gz_header (gz_time mc) @ enc src @ le_bytes 4 (unat (z_crc32 (gz_zlib mc) src))
              @ (if gz_sizeof_ulong mc = 4 then le_bytes 4 (length src) else replicate 4 NUL)
          \<and> k \<le> length b \<and> (gz_sizeof_ulong mc = 4 \<or> length (enc src) mod 512 \<le> 496)
     | Inr _ \<Rightarrow> False"
  using compress_gzip_cases [OF assms] by (auto simp: gz_written_def footer_spills_def)

theorem gz_compress_exact_witness:
  "(\<exists>b. nhr_gz_compress (stored_mach 4) (Some (replicate 600 CHR ''a'')) 600 NHR_GZ_METHOD_GZIP
         = Inr (Some (Some b, 618)))
   \<and> (\<exists>b. nhr_gz_compress (stored_mach 8) (Some (replicate 600 CHR ''a'')) 600 NHR_GZ_METHOD_GZIP
         = Inr (Some (Some b, 618)) \<and> drop 614 (take 618 b) = replicate 4 NUL)
   \<and> nhr_gz_compress (stored_mach 8) (Some (replicate 500 CHR ''a'')) 500 NHR_GZ_METHOD_GZIP = Inl OutOfBounds"
  using gz_compress_exact [OF stored_ready [of "replicate 600 CHR ''a''" 4]]
    gz_compress_exact [OF stored_ready [of "replicate 600 CHR ''a''" 8]]
    gz_compress_exact [OF stored_ready [of "replicate 500 CHR ''a''" 8]]
  by (auto split: sum.splits option.splits prod.splits simp: gz_header_def)

text \<open>
  C16: Round trip of the gzip method on a platform whose \<open>uLong\<close> has four or eight bytes (the
  reader skips the footer): whatever block the compressor returns is decompressed to the original.
  It returns one unless \<open>uLong\<close> has eight bytes and the encoding leaves no room for the footer in its
  last 512-byte chunk.
\<close>

theorem gz_roundtrip_gzip:
  assumes "compress_ready mc enc R NHR_GZ_METHOD_GZIP src" "gz_sizeof_ulong mc \<in> {4, 8}"
    and "inflate_contract (gz_zlib mc) Q" "z_inflateInit (gz_zlib mc) Raw_format = Some z"
    and "Q z (enc src) src" "enc src \<noteq> []" "length (enc src) + 18 < 2 ^ 32"
    and "length src \<le> 512 * gz_fuel mc" "length src + 512 \<le> mc_limit mc"
  shows "case nhr_gz_compress mc (Some src) (length src) NHR_GZ_METHOD_GZIP of
       Inl f \<Rightarrow> gz_sizeof_ulong mc = 8 \<and> (length (enc src) mod 512 = 0 \<or> 496 < length (enc src) mod 512)
     | Inr (Some (Some b, k)) \<Rightarrow>
         (\<exists>b'. nhr_gz_decompress mc (Some b) k NHR_GZ_METHOD_GZIP = Inr (Some (Some b', length src))
            \<and> take (length src) b' = src)
     | Inr _ \<Rightarrow> False"
proof -
  let ?k = "18 + length (enc src)" and ?z = "nhr_gz_compress mc (Some src) (length src) NHR_GZ_METHOD_GZIP"
  have "\<exists>b'. nhr_gz_decompress mc (Some b) ?k NHR_GZ_METHOD_GZIP = Inr (Some (Some b', length src))
      \<and> take (length src) b' = src"
    if b: "take ?k b = gz_written mc (enc src) src" "?k \<le> length b" for b
  proof -
    define f where "f = le_bytes 4 (unat (z_crc32 (gz_zlib mc) src))
        @ (if gz_sizeof_ulong mc = 4 then le_bytes 4 (length src) else replicate 4 NUL)"
    have "b = gz_header (gz_time mc) @ enc src @ f @ drop ?k b"
      using append_take_drop_id [of ?k b] unfolding b(1) by (simp add: gz_written_def f_def)
    moreover have "length f = 8" by (simp add: f_def)
    ultimately have "gz_decompress_input b ?k NHR_GZ_METHOD_GZIP = Inr (Some (Raw_format, enc src))"
      using decompress_input_gzip [OF assms(6), of f ?k "gz_time mc"] assms(7)
      by (metis (no_types, lifting) add.commute)
    from decompress_from [OF assms(3,4) this _ assms(5) _ assms(8,9)] assms(1)
    show ?thesis by (auto simp: compress_ready_def)
  qed
  with compress_gzip_cases [OF assms(1,2)] show ?thesis by (auto simp: footer_spills_def)
qed

theorem gz_roundtrip_gzip_witness:
  "\<exists>b k b'. nhr_gz_compress (stored_mach 8) (Some (replicate 600 CHR ''a'')) 600 NHR_GZ_METHOD_GZIP
         = Inr (Some (Some b, k))
     \<and> nhr_gz_decompress (stored_mach 8) (Some b) k NHR_GZ_METHOD_GZIP = Inr (Some (Some b', 600))
     \<and> take 600 b' = replicate 600 CHR ''a''"
  using gz_roundtrip_gzip [OF stored_ready [of "replicate 600 CHR ''a''" 8],
      where Q = "\<lambda>z inp pl. inp = pl" and z = "([], 0)"] stored_inflate
  by (auto split: sum.splits option.splits prod.splits)

text \<open>
  C33: Round trip of the deflate method (the zlib format).
\<close>

theorem gz_roundtrip_deflate:
  assumes "compress_ready mc enc R NHR_GZ_METHOD_DEFLATE src"
    and "inflate_contract (gz_zlib mc) Q" "z_inflateInit (gz_zlib mc) Zlib_format = Some z"
    and "Q z (enc src) src" "enc src \<noteq> []" "length (enc src) < 2 ^ 32"
    and "length src \<le> 512 * gz_fuel mc" "length src + 512 \<le> mc_limit mc"
  shows "\<exists>b b'. nhr_gz_compress mc (Some src) (length src) NHR_GZ_METHOD_DEFLATE
             = Inr (Some (Some b, length (enc src)))
           \<and> take (length (enc src)) b = enc src
           \<and> nhr_gz_decompress mc (Some b) (length (enc src)) NHR_GZ_METHOD_DEFLATE
             = Inr (Some (Some b', length src))
           \<and> take (length src) b' = src"
proof -
  obtain b where b: "nhr_gz_compress mc (Some src) (length src) NHR_GZ_METHOD_DEFLATE
        = Inr (Some (Some b, length (enc src)))"
      "length (enc src) \<le> length b" "take (length (enc src)) b = enc src"
    using compress_end [OF assms(1)]
    by (auto simp: gz_prefix_def NHR_GZ_METHOD_GZIP_def NHR_GZ_METHOD_DEFLATE_def)
  have i: "gz_decompress_input b (length (enc src)) NHR_GZ_METHOD_DEFLATE
      = Inr (Some (Zlib_format, enc src))"
    using decompress_input_deflate [OF b(2) assms(6)] b(3) by simp
  have ne: "0 < length (enc src)" "src \<noteq> []" using assms(1,5) by (auto simp: compress_ready_def)
  from decompress_from [OF assms(2,3) i ne(1) assms(4) ne(2) assms(7,8)] b
  show ?thesis by auto
qed

theorem gz_roundtrip_deflate_witness:
  "\<exists>b b'. nhr_gz_compress (stored_mach 8) (Some (replicate 12 CHR ''a'')) 12 NHR_GZ_METHOD_DEFLATE
         = Inr (Some (Some b, 12))
     \<and> nhr_gz_decompress (stored_mach 8) (Some b) 12 NHR_GZ_METHOD_DEFLATE = Inr (Some (Some b', 12))
     \<and> take 12 b' = replicate 12 CHR ''a''"
  using gz_roundtrip_deflate [OF stored_ready [of "replicate 12 CHR ''a''" 8],
      where Q = "\<lambda>z inp pl. inp = pl" and z = "([], 0)"] stored_inflate
  by auto

text \<open>
  On LP64, where \<open>uLong\<close> has eight bytes, the footer is not the one of a gzip file: the
  eight bytes that are counted hold the CRC32 and four zero bytes in place of the size.
\<close>

theorem gz_lp64_size_lost:
  assumes "compress_ready mc enc R NHR_GZ_METHOD_GZIP src" "gz_sizeof_ulong mc = 8"
    and "0 < length (enc src) mod 512" "length (enc src) mod 512 \<le> 496"
  shows "\<exists>b. nhr_gz_compress mc (Some src) (length src) NHR_GZ_METHOD_GZIP
               = Inr (Some (Some b, 18 + length (enc src)))
           \<and> take (18 + length (enc src)) b = gz_header (gz_time mc) @ enc src
               @ le_bytes 4 (unat (z_crc32 (gz_zlib mc) src)) @ replicate 4 NUL"
  using compress_gzip_cases [OF assms(1)] assms(2-4) by (auto simp: gz_written_def footer_spills_def)

theorem gz_lp64_size_lost_witness:
  "\<exists>b. nhr_gz_compress (stored_mach 8) (Some ''aa'') 2 NHR_GZ_METHOD_GZIP = Inr (Some (Some b, 20))
     \<and> drop 16 (take 20 b) = replicate 4 NUL"
  using gz_lp64_size_lost [OF stored_ready [of "''aa''" 8]]
  by (auto simp: numeral_2_eq_2) 

text \<open>
  On LP64 the sixteen bytes of the footer are written into room made for eight: whenever
  fewer than sixteen bytes are left of the last 512-byte chunk, compressing writes past the
  end of the block.
\<close>

theorem gz_lp64_footer_overflow:
  assumes "compress_ready mc enc R NHR_GZ_METHOD_GZIP src" "gz_sizeof_ulong mc = 8"
    and "496 < length (enc src) mod 512"
  shows "nhr_gz_compress mc (Some src) (length src) NHR_GZ_METHOD_GZIP = Inl OutOfBounds"
  using compress_gzip_cases [OF assms(1)] assms(2,3) by auto

theorem gz_lp64_footer_overflow_witness:
  "nhr_gz_compress (stored_mach 8) (Some (replicate 500 CHR ''a'')) 500 NHR_GZ_METHOD_GZIP
     = Inl OutOfBounds"
  using gz_lp64_footer_overflow [OF stored_ready [of "replicate 500 CHR ''a''" 8]] by simp

text \<open>
  A gzip file of the empty text cannot be decompressed: the loop takes a call of
  \<open>inflate\<close> that wrote nothing for an error, although the stream has ended well.
\<close>

theorem gz_decompress_empty:
  assumes "inflate_contract (gz_zlib mc) Q" "z_inflateInit (gz_zlib mc) Raw_format = Some z"
    and "Q z raw []" "raw \<noteq> []" "length foot = 8" "length raw + 18 < 2 ^ 32"
    and "0 < gz_fuel mc" "512 \<le> mc_limit mc"
  shows "nhr_gz_decompress mc (Some (gz_header tm @ raw @ foot)) (18 + length raw) NHR_GZ_METHOD_GZIP
           = Inr None"
proof -
  have i: "gz_decompress_input (gz_header tm @ raw @ foot) (18 + length raw) NHR_GZ_METHOD_GZIP
      = Inr (Some (Raw_format, raw))"
    using decompress_input_gzip [OF assms(4,5) refl, of tm "[]"] assms(6) by (simp add: add.commute)
  obtain f where f: "gz_fuel mc = Suc f" using assms(7) by (cases "gz_fuel mc") auto
  obtain n z' where c: "z_inflate (gz_zlib mc) z raw 512 = (Z_STREAM_END, n, [], z')"
    using assms(1,3) unfolding inflate_contract_def
    by (metis le0 list.size(3) zero_less_numeral)
  have "nhr_malloc mc 512 = Inr (Some (replicate 512 (mc_fill mc)))"
    using assms(8) by (intro nhr_malloc_ok) simp_all
  with i f c assms(2) show ?thesis
    by (simp add: nhr_gz_decompress_def NHR_GZ_CHUNK_SIZE_def gz_inflate_step_def gz_inflate_def
        gz_took_def)
qed

definition marker_zlib :: "(bytes \<times> nat) zlib" where
  \<comment> \<open>\<open>stored_zlib\<close> with one byte in front of the encoding, so that none is empty\<close>
  "marker_zlib = stored_zlib\<lparr>z_inflate := (\<lambda>z inp room.
     if length inp \<le> Suc room then (Z_STREAM_END, length inp, tl inp, z)
     else (Z_OK, room, take room (tl inp), z))\<rparr>"

theorem gz_decompress_empty_witness:
  "nhr_gz_decompress ((stored_mach 8)\<lparr>gz_zlib := marker_zlib\<rparr>)
     (Some (gz_header 0 @ [CHR 0x03] @ replicate 8 NUL)) 19 NHR_GZ_METHOD_GZIP = Inr None"
proof -
  have "inflate_contract marker_zlib (\<lambda>z inp pl. tl inp = pl \<and> inp \<noteq> [])"
    unfolding inflate_contract_def
  proof (intro allI impI, goal_cases)
    case (1 z inp pl room)
    then show ?case
      by (cases inp; cases room; cases "length pl \<le> room") (auto simp: marker_zlib_def drop_Suc tl_drop)
  qed
  then show ?thesis
    using gz_decompress_empty [of "(stored_mach 8)\<lparr>gz_zlib := marker_zlib\<rparr>"
      "\<lambda>z inp pl. tl inp = pl \<and> inp \<noteq> []" "([], 0)" "[CHR 0x03]" "replicate 8 NUL" 0]
    by (simp add: marker_zlib_def)
qed

end
