(* ===== verification/C_Scan.thy ===== *)
theory C_Scan
  imports C_String
begin

text \<open>
  The conversions of \<open>sscanf\<close> and \<open>sprintf\<close> that libnhr uses: \<open>" %i"\<close> for the
  status code, \<open>"%lu"\<close> for the content length, \<open>"%X"\<close> and \<open>"%x"\<close> for the length of a
  chunk, and the decimal printing behind \<open>"%i"\<close> and \<open>"%lu"\<close>. The result \<open>None\<close> of a
  scan is a return value other than 1 (no conversion); a converted value that the target
  type cannot hold, which C leaves undefined, is the fault \<open>ConvRange\<close>.
\<close>

section \<open>Digits\<close>

definition xdigit_val :: "char \<Rightarrow> nat" where
  "xdigit_val c =
     (if isdigit c then char_code c - 48
      else if char_code c \<le> 70 then char_code c - 55 else char_code c - 87)"

definition digits_value :: "nat \<Rightarrow> string \<Rightarrow> nat" where
  "digits_value b ds = foldl (\<lambda>n c. n * b + xdigit_val c) 0 ds"

definition isodigit :: "char \<Rightarrow> bool" where
  "isodigit c \<longleftrightarrow> 48 \<le> char_code c \<and> char_code c \<le> 55"

lemma digits_value_Nil [simp]: "digits_value b [] = 0"
  by (simp add: digits_value_def)

lemma digits_value_snoc [simp]: "digits_value b (ds @ [c]) = digits_value b ds * b + xdigit_val c"
  by (simp add: digits_value_def)

definition scan_digits :: "(char \<Rightarrow> bool) \<Rightarrow> nat \<Rightarrow> string \<Rightarrow> nat option" where
  "scan_digits ok b s =
     (let ds = takeWhile ok s in if ds = [] then None else Some (digits_value b ds))"

definition scan_sign :: "string \<Rightarrow> bool \<times> string" where
  "scan_sign s =
     (case s of
        [] \<Rightarrow> (False, s)
      | c # cs \<Rightarrow> if c = CHR ''-'' then (True, cs) else if c = CHR ''+'' then (False, cs) else (False, s))"

definition has_0x :: "string \<Rightarrow> bool" where
  "has_0x s \<longleftrightarrow> take 2 s = ''0x'' \<or> take 2 s = ''0X''"

lemma scan_digits_append:
  assumes "\<And>c. c \<in> set ds \<Longrightarrow> ok c" "ds \<noteq> []" "rest = [] \<or> \<not> ok (hd rest)"
  shows "scan_digits ok b (ds @ rest) = Some (digits_value b ds)"
proof -
  have "takeWhile ok rest = []" using assms(3) by (cases rest) auto
  then have "takeWhile ok (ds @ rest) = ds"
    using assms(1) by (simp add: takeWhile_append_all)
  then show ?thesis using assms(2) by (simp add: scan_digits_def)
qed

lemma scan_sign_alnum: "isalnum c \<Longrightarrow> scan_sign (c # s) = (False, c # s)"
  by (auto simp: scan_sign_def ctype_defs)

section \<open>Scanning\<close>

definition sscanf_X :: "bytes \<Rightarrow> 32 word option res" where
  "sscanf_X p = r_bind (c_string p) (\<lambda>s.
     (case scan_sign (dropWhile isspace s) of (neg, t) \<Rightarrow>
        (case scan_digits isxdigit 16 (if has_0x t then drop 2 t else t) of
           None \<Rightarrow> Inr None
         | Some n \<Rightarrow>
             if n < 2 ^ 32 then Inr (Some (if neg then - of_nat n else of_nat n))
             else Inl ConvRange)))"

definition sscanf_lu :: "bytes \<Rightarrow> 64 word option res" where
  "sscanf_lu p = r_bind (c_string p) (\<lambda>s.
     (case scan_sign (dropWhile isspace s) of (neg, t) \<Rightarrow>
        (case scan_digits isdigit 10 t of
           None \<Rightarrow> Inr None
         | Some n \<Rightarrow>
             if n < 2 ^ 64 then Inr (Some (if neg then - of_nat n else of_nat n))
             else Inl ConvRange)))"

definition scan_i_magnitude :: "string \<Rightarrow> nat option" where
  "scan_i_magnitude t =
     (if has_0x t then scan_digits isxdigit 16 (drop 2 t)
      else if take 1 t = ''0'' then scan_digits isodigit 8 t
      else scan_digits isdigit 10 t)"

definition sscanf_i :: "bytes \<Rightarrow> int option res" where
  \<comment> \<open>the blank of \<open>" %i"\<close> skips the white space that \<open>%i\<close> skips by itself\<close>
  "sscanf_i p = r_bind (c_string p) (\<lambda>s.
     (case scan_sign (dropWhile isspace s) of (neg, t) \<Rightarrow>
        (case scan_i_magnitude t of
           None \<Rightarrow> Inr None
         | Some n \<Rightarrow>
             (let v = (if neg then - int n else int n) in
              if - (2 ^ 31) \<le> v \<and> v < 2 ^ 31 then Inr (Some v) else Inl ConvRange))))"

lemma not_has_0x:
  assumes "\<forall>c \<in> set ds. isxdigit c" "ds \<noteq> []" "rest = [] \<or> char_code (hd rest) < 88"
  shows "\<not> has_0x (ds @ rest)"
proof -
  obtain d ds' where ds: "ds = d # ds'" using assms(2) by (cases ds) auto
  show ?thesis
  proof (cases ds')
    case Nil
    with ds assms(3) show ?thesis
      by (cases rest) (auto simp: has_0x_def)
  next
    case (Cons e es)
    with ds assms(1) have "isxdigit e" by simp
    then have "e \<noteq> CHR ''x'' \<and> e \<noteq> CHR ''X''" by (auto simp: ctype_defs)
    with ds Cons show ?thesis by (auto simp: has_0x_def numeral_2_eq_2)
  qed
qed

lemma c_string_digits:
  assumes "\<forall>c \<in> set ds. isxdigit c" "NUL \<in> set rest"
  shows "c_string (ds @ rest) = Inr (ds @ takeWhile (\<lambda>c. c \<noteq> NUL) rest)"
proof -
  have "NUL \<notin> set ds" using assms(1) isxdigit_not_NUL by blast
  with assms(2) show ?thesis by (simp add: c_string_def takeWhile_not_in)
qed

text \<open>A number in front of a character that ends it is read as its value.\<close>

lemma sscanf_X_number:
  assumes "\<forall>c \<in> set ds. isxdigit c" "ds \<noteq> []" "digits_value 16 ds < 2 ^ 32"
    and "rest \<noteq> []" "\<not> isxdigit (hd rest)" "char_code (hd rest) < 88" "NUL \<in> set rest"
  shows "sscanf_X (ds @ rest) = Inr (Some (of_nat (digits_value 16 ds)))"
proof -
  define t where "t = takeWhile (\<lambda>c. c \<noteq> NUL) rest"
  have t: "t = [] \<or> hd t = hd rest" using assms(4) by (cases rest) (auto simp: t_def)
  obtain d ds' where ds: "ds = d # ds'" using assms(2) by (cases ds) auto
  with assms(1) have d: "isalnum d" "\<not> isspace d"
    by (auto simp: isxdigit_isalnum isxdigit_not_isspace)
  have "\<not> has_0x (ds @ t)"
    using not_has_0x [of ds t] assms(1,2,6) t by auto
  moreover have "scan_digits isxdigit 16 (ds @ t) = Some (digits_value 16 ds)"
    using assms(1,2,5) t by (intro scan_digits_append) auto
  moreover have "scan_sign (dropWhile isspace (ds @ t)) = (False, ds @ t)"
    using d ds by (simp add: scan_sign_alnum)
  ultimately show ?thesis
    using assms(1,3,7) by (simp add: sscanf_X_def c_string_digits t_def)
qed

lemma sscanf_X_none:
  assumes "c_string p = Inr s" "scan_sign (dropWhile isspace s) = (neg, t)"
    and "t = [] \<or> \<not> isxdigit (hd t)"
  shows "sscanf_X p = Inr None"
proof -
  have "\<not> has_0x t" using assms(3) by (cases t) (auto simp: has_0x_def ctype_defs)
  moreover have "takeWhile isxdigit t = []" using assms(3) by (cases t) auto
  ultimately show ?thesis using assms(1,2) by (simp add: sscanf_X_def scan_digits_def)
qed

lemma sscanf_X_NUL: "sscanf_X (NUL # p) = Inr None"
  by (rule sscanf_X_none [of _ "[]" False "[]"]) (auto simp: c_string_def scan_sign_def)

lemma sscanf_lu_number:
  assumes "\<forall>c \<in> set ds. isdigit c" "ds \<noteq> []" "digits_value 10 ds < 2 ^ 64"
    and "rest \<noteq> []" "\<not> isdigit (hd rest)" "NUL \<in> set rest"
  shows "sscanf_lu (ds @ rest) = Inr (Some (of_nat (digits_value 10 ds)))"
proof -
  define t where "t = takeWhile (\<lambda>c. c \<noteq> NUL) rest"
  have t: "t = [] \<or> hd t = hd rest" using assms(4) by (cases rest) (auto simp: t_def)
  obtain d ds' where ds: "ds = d # ds'" using assms(2) by (cases ds) auto
  with assms(1) have d: "isalnum d" "\<not> isspace d"
    by (auto simp: isalnum_not_isspace)
  have "scan_digits isdigit 10 (ds @ t) = Some (digits_value 10 ds)"
    using assms(1,2,5) t by (intro scan_digits_append) auto
  moreover have "scan_sign (dropWhile isspace (ds @ t)) = (False, ds @ t)"
    using d ds by (simp add: scan_sign_alnum)
  moreover have "\<forall>c \<in> set ds. isxdigit c" using assms(1) by auto
  ultimately show ?thesis
    using assms(3,6) by (simp add: sscanf_lu_def c_string_digits t_def)
qed

lemma sscanf_i_number:
  assumes "\<forall>c \<in> set ds. isdigit c" "ds \<noteq> []" "hd ds \<noteq> CHR ''0''" "digits_value 10 ds < 2 ^ 31"
    and "rest \<noteq> []" "\<not> isdigit (hd rest)" "NUL \<in> set rest"
  shows "sscanf_i (CHR '' '' # ds @ rest) = Inr (Some (int (digits_value 10 ds)))"
proof -
  define t where "t = takeWhile (\<lambda>c. c \<noteq> NUL) rest"
  have t: "t = [] \<or> hd t = hd rest" using assms(5) by (cases rest) (auto simp: t_def)
  obtain d ds' where ds: "ds = d # ds'" using assms(2) by (cases ds) auto
  with assms(1,3) have d: "isalnum d" "\<not> isspace d" "d \<noteq> CHR ''0''"
    by (auto simp: isalnum_not_isspace)
  have "scan_digits isdigit 10 (ds @ t) = Some (digits_value 10 ds)"
    using assms(1,2,6) t by (intro scan_digits_append) auto
  then have "scan_i_magnitude (ds @ t) = Some (digits_value 10 ds)"
    using d(3) ds by (auto simp: scan_i_magnitude_def has_0x_def numeral_2_eq_2)
  moreover have "scan_sign (dropWhile isspace (ds @ t)) = (False, ds @ t)"
    using d ds by (simp add: scan_sign_alnum)
  moreover have "c_string (CHR '' '' # ds @ rest) = Inr (CHR '' '' # ds @ t)"
    using assms(1,7) c_string_digits [of ds rest] c_string_prefix [of "'' ''" "ds @ rest"]
    by (auto simp: t_def)
  ultimately show ?thesis
    using assms(4) by (simp add: sscanf_i_def)
qed

lemma sscanf_X_total:
  "NUL \<in> set p \<Longrightarrow> (\<exists>v. sscanf_X p = Inr v) \<or> sscanf_X p = Inl ConvRange"
  by (auto simp: sscanf_X_def c_string_def split: prod.splits option.splits)

section \<open>Printing\<close>

definition digit_char :: "nat \<Rightarrow> char" where
  "digit_char d = char_of (48 + d)"

fun dec_digits :: "nat \<Rightarrow> string" where
  \<comment> \<open>\<open>"%lu"\<close>, and \<open>"%i"\<close> on a value that is not negative\<close>
  "dec_digits n = (if n < 10 then [digit_char n] else dec_digits (n div 10) @ [digit_char (n mod 10)])"

declare dec_digits.simps [simp del]

lemma char_code_digit_char: "d < 10 \<Longrightarrow> char_code (digit_char d) = 48 + d"
  by (simp add: digit_char_def)

lemma isdigit_digit_char [simp]: "d < 10 \<Longrightarrow> isdigit (digit_char d)"
  by (simp add: isdigit_def char_code_digit_char)

lemma xdigit_val_digit_char [simp]: "d < 10 \<Longrightarrow> xdigit_val (digit_char d) = d"
  by (simp add: xdigit_val_def char_code_digit_char)

lemma dec_digits_not_Nil [simp]: "dec_digits n \<noteq> []"
  by (subst dec_digits.simps) simp

lemma dec_digits_isdigit: "c \<in> set (dec_digits n) \<Longrightarrow> isdigit c"
proof (induction n rule: dec_digits.induct)
  case (1 n)
  then show ?case
    by (cases "n < 10") (auto simp: dec_digits.simps [of n])
qed

lemma digits_value_dec_digits [simp]: "digits_value 10 (dec_digits n) = n"
proof (induction n rule: dec_digits.induct)
  case (1 n)
  show ?case
  proof (cases "n < 10")
    case True
    then show ?thesis
      by (subst dec_digits.simps) (simp add: digits_value_def)
  next
    case False
    with 1 show ?thesis by (subst dec_digits.simps) simp
  qed
qed

lemma dec_digits_no_NUL [simp]: "NUL \<notin> set (dec_digits n)"
  using dec_digits_isdigit [of NUL n] by (auto simp: isdigit_def)

lemma dec_digits_hd: "0 < n \<Longrightarrow> hd (dec_digits n) \<noteq> CHR ''0''"
proof (induction n rule: dec_digits.induct)
  case (1 n)
  have z: "digit_char d \<noteq> CHR ''0''" if "0 < d" "d < 10" for d
  proof
    assume "digit_char d = CHR ''0''"
    then have "char_code (digit_char d) = (48 :: nat)" by simp
    with that show False by (simp add: char_code_digit_char)
  qed
  show ?case
    by (cases "n < 10") (use 1 z in \<open>auto simp: dec_digits.simps [of n]\<close>)
qed

lemma length_dec_digits: "n < 10 ^ Suc k \<Longrightarrow> length (dec_digits n) \<le> Suc k"
proof (induction k arbitrary: n)
  case 0
  then show ?case by (subst dec_digits.simps) simp
next
  case (Suc k)
  show ?case
  proof (cases "n < 10")
    case False
    have "n div 10 < 10 ^ Suc k" using Suc.prems by (simp add: div_less_iff_less_mult mult.commute)
    with False Suc.IH show ?thesis by (subst dec_digits.simps) simp
  qed (subst dec_digits.simps, simp)
qed

lemma sscanf_lu_dec_digits:
  assumes "n < 2 ^ 64" "rest \<noteq> []" "\<not> isdigit (hd rest)" "NUL \<in> set rest"
  shows "sscanf_lu (dec_digits n @ rest) = Inr (Some (of_nat n))"
  using sscanf_lu_number [of "dec_digits n" rest] assms by (auto simp: dec_digits_isdigit)

end
