(* ===== verification/Nhr_Response.thy ===== *)
theory Nhr_Response
  imports Nhr_Gz C_Scan
begin

unbundle bit_operations_syntax

text \<open>
  nhr_response.c: the parser of a response. \<open>received\<close> is the receive buffer from its start
  to its end, of which the first \<open>received_len\<close> bytes came from the peer; the code searches it
  with string functions, so what lies behind those bytes matters and is part of the argument.
  Sizes are 64-bit words with C's wrap-around, a chunk length is a 32-bit word.
\<close>

section \<open>The response\<close>

record nhr_response =
  rs_body :: "bytes option"
  rs_body_len :: size_t
  rs_body_size :: size_t
  rs_content_length :: size_t
  rs_status_code :: "16 word"
  rs_transfer_encoding :: "8 word"
  rs_content_encoding :: "8 word"
  rs_is_all_chunks_processed :: bool
  rs_is_finished :: bool

definition sizeof_response :: nat where "sizeof_response = 40"

definition zero_response :: nhr_response where
  "zero_response = \<lparr>rs_body = None, rs_body_len = 0, rs_body_size = 0, rs_content_length = 0,
     rs_status_code = 0, rs_transfer_encoding = 0, rs_content_encoding = 0,
     rs_is_all_chunks_processed = False, rs_is_finished = False\<rparr>"

definition NHR_TRANSFER_ENCODING_CHUNKED :: "8 word" where "NHR_TRANSFER_ENCODING_CHUNKED = 1"
definition NHR_CONTENT_ENCODING_GZIP :: "8 word" where "NHR_CONTENT_ENCODING_GZIP = 1"
definition NHR_CONTENT_ENCODING_DEFLATE :: "8 word" where "NHR_CONTENT_ENCODING_DEFLATE = 2"

lemmas NHR_ENCODING_defs = NHR_TRANSFER_ENCODING_CHUNKED_def NHR_CONTENT_ENCODING_GZIP_def
  NHR_CONTENT_ENCODING_DEFLATE_def

definition is_chunked :: "nhr_response \<Rightarrow> bool" where
  "is_chunked r \<longleftrightarrow> rs_transfer_encoding r AND NHR_TRANSFER_ENCODING_CHUNKED \<noteq> 0"

definition is_gzip :: "nhr_response \<Rightarrow> bool" where
  "is_gzip r \<longleftrightarrow> rs_content_encoding r AND NHR_CONTENT_ENCODING_GZIP \<noteq> 0"

definition is_deflate :: "nhr_response \<Rightarrow> bool" where
  "is_deflate r \<longleftrightarrow> rs_content_encoding r AND NHR_CONTENT_ENCODING_DEFLATE \<noteq> 0"

section \<open>The body\<close>

definition nhr_response_ungzip :: "'z gz_mach \<Rightarrow> nhr_response \<Rightarrow> nhr_response res" where
  "nhr_response_ungzip mc r =
     (if rs_body r = None \<or> rs_body_len r = 0 then Inr r
      else r_bind (if is_gzip r
                   then nhr_gz_decompress mc (rs_body r) (unat (rs_body_len r)) NHR_GZ_METHOD_GZIP
                   else if is_deflate r
                   then nhr_gz_decompress mc (rs_body r) (unat (rs_body_len r)) NHR_GZ_METHOD_DEFLATE
                   else Inr None) (\<lambda>d.
           case d of
             Some (Some decompressed, decompressed_size) \<Rightarrow>
               if decompressed_size > 0
               then Inr (r\<lparr>rs_body := Some decompressed, rs_body_len := of_nat decompressed_size\<rparr>)
               else Inr r
           | _ \<Rightarrow> Inr r))"

definition nhr_response_fix_body_len :: "nhr_response \<Rightarrow> nhr_response" where
  "nhr_response_fix_body_len r =
     (if rs_content_length r > 0 \<and> rs_body_len r > rs_content_length r
      then r\<lparr>rs_body_len := rs_content_length r\<rparr> else r)"

definition nhr_response_add_body_data ::
    "'z gz_mach \<Rightarrow> nhr_response \<Rightarrow> bytes \<Rightarrow> size_t \<Rightarrow> nhr_response res" where
  "nhr_response_add_body_data mc r data data_size =
     (let required = rs_body_len r + data_size in
      r_bind (if required > rs_body_size r
              then r_bind (nhr_realloc mc (rs_body r) (unat required))
                     (\<lambda>b. Inr (r\<lparr>rs_body := b, rs_body_size := required\<rparr>))
              else Inr r) (\<lambda>r.
      r_bind (mem_read data (unat data_size)) (\<lambda>d.
      r_bind (memcpy_to (rs_body r) (unat (rs_body_len r)) d) (\<lambda>b.
      Inr (nhr_response_fix_body_len
            (r\<lparr>rs_body := b, rs_body_len := rs_body_len r + data_size\<rparr>))))))"

function nhr_response_read_chunks ::
    "'z gz_mach \<Rightarrow> nhr_response \<Rightarrow> bytes \<Rightarrow> nhr_response res" where
  "nhr_response_read_chunks mc r str =
     r_bind (sscanf_X str) (\<lambda>n1.
     r_bind (if n1 = None then sscanf_X str else Inr n1) (\<lambda>n.
     case n of
       None \<Rightarrow> Inr r
     | Some chunk_len \<Rightarrow>
         r_bind (skip_while isxdigit str) (\<lambda>str1.
         if chunk_len = 0
         then r_bind (strncmp_eq str1 k_nhr_double_CRLF) (\<lambda>e.
              Inr (if e then r\<lparr>rs_is_all_chunks_processed := True\<rparr> else r))
         else r_bind (ptr_add k_nhr_CRLF_length str1) (\<lambda>str2.
              r_bind (nhr_response_add_body_data mc r str2 (ucast chunk_len)) (\<lambda>r1.
              r_bind (ptr_add (unat chunk_len) str2) (\<lambda>str3.
              r_bind (ptr_add k_nhr_CRLF_length str3) (\<lambda>str4.
              nhr_response_read_chunks mc r1 str4)))))))"
  by pat_completeness auto
termination
proof (relation "measure (\<lambda>(mc, r, str). length str)", goal_cases)
  case (2 mc r str n1 n chunk_len str1 str2 r1 str3 str4)
  then have "length str1 \<le> length str" "str2 = drop 2 str1" "2 \<le> length str1"
    by (auto simp: ptr_add_Inr_conv k_nhr_CRLF_length_def dest: skip_while_length)
  moreover from 2 have "length str4 \<le> length str2"
    by (auto simp: ptr_add_Inr_conv)
  ultimately show ?case by simp
qed simp

declare nhr_response_read_chunks.simps [simp del]

section \<open>The header fields\<close>

definition nhr_response_find_http_field_value :: "bytes \<Rightarrow> string \<Rightarrow> bytes option res" where
  "nhr_response_find_http_field_value received field =
     r_bind (strstr received field) (\<lambda>sub.
     case sub of
       None \<Rightarrow> Inr None
     | Some p \<Rightarrow>
         r_bind (ptr_add (length field) p) (\<lambda>p.
         r_bind (skip_while (\<lambda>c. \<not> isalnum c) p) (\<lambda>p. Inr (Some p))))"

definition nhr_response_parse_body ::
    "'z gz_mach \<Rightarrow> nhr_response \<Rightarrow> bytes \<Rightarrow> size_t \<Rightarrow> nhr_response res" where
  "nhr_response_parse_body mc r received received_len =
     r_bind (strstr received k_nhr_double_CRLF) (\<lambda>sub.
     case sub of
       None \<Rightarrow> Inr r
     | Some sub \<Rightarrow>
         let skiped = (of_nat (length received - length sub) :: size_t) in
         if skiped > of_nat k_nhr_double_CRLF_length
         then r_bind (ptr_add k_nhr_double_CRLF_length sub) (\<lambda>sub.
              let skiped = skiped + of_nat k_nhr_double_CRLF_length in
              r_bind (if is_chunked r then nhr_response_read_chunks mc r sub
                      else let body_len = received_len - skiped;
                               body_size = (if rs_content_length r > body_len
                                            then rs_content_length r + 32 else body_len) in
                           r_bind (nhr_malloc mc (unat body_size)) (\<lambda>b.
                           r_bind (mem_read sub (unat body_len)) (\<lambda>d.
                           r_bind (memcpy_to b 0 d) (\<lambda>b.
                           Inr (r\<lparr>rs_body := b, rs_body_len := body_len, rs_body_size := body_size\<rparr>)))))
                (\<lambda>r. Inr (nhr_response_fix_body_len r)))
         else Inr r)"

definition nhr_response_parse_status_code :: "nhr_response \<Rightarrow> bytes \<Rightarrow> nhr_response res" where
  "nhr_response_parse_status_code r received =
     r_bind (strstr received '' '') (\<lambda>v.
     case v of
       None \<Rightarrow> Inr r
     | Some v \<Rightarrow>
         r_bind (sscanf_i v) (\<lambda>code.
         case code of
           None \<Rightarrow> Inr r
         | Some code \<Rightarrow> Inr (if code > 0 then r\<lparr>rs_status_code := word_of_int code\<rparr> else r)))"

definition nhr_response_parse_content_length :: "nhr_response \<Rightarrow> bytes \<Rightarrow> nhr_response res" where
  "nhr_response_parse_content_length r received =
     r_bind (nhr_response_find_http_field_value received k_nhr_content_length) (\<lambda>v.
     case v of
       None \<Rightarrow> Inr r
     | Some v \<Rightarrow>
         r_bind (sscanf_lu v) (\<lambda>len.
         case len of
           None \<Rightarrow> Inr r
         | Some len \<Rightarrow> Inr (if len > 0 then r\<lparr>rs_content_length := len\<rparr> else r)))"

definition nhr_response_parse_transfer_encoding :: "nhr_response \<Rightarrow> bytes \<Rightarrow> nhr_response res" where
  "nhr_response_parse_transfer_encoding r received =
     r_bind (nhr_response_find_http_field_value received k_nhr_transfer_encoding) (\<lambda>v.
     case v of
       None \<Rightarrow> Inr r
     | Some v \<Rightarrow>
         r_bind (strstr v k_nhr_chunked) (\<lambda>c.
         Inr (if c \<noteq> None
              then r\<lparr>rs_transfer_encoding := rs_transfer_encoding r OR NHR_TRANSFER_ENCODING_CHUNKED\<rparr>
              else r)))"

definition nhr_response_parse_content_encoding :: "nhr_response \<Rightarrow> bytes \<Rightarrow> nhr_response res" where
  "nhr_response_parse_content_encoding r received =
     r_bind (nhr_response_find_http_field_value received k_nhr_content_encoding) (\<lambda>v.
     case v of
       None \<Rightarrow> Inr r
     | Some v \<Rightarrow>
         r_bind (strstr v k_nhr_gzip) (\<lambda>g.
         let r = (if g \<noteq> None
                  then r\<lparr>rs_content_encoding := rs_content_encoding r OR NHR_CONTENT_ENCODING_GZIP\<rparr>
                  else r) in
         r_bind (strstr v k_nhr_deflate) (\<lambda>d.
         Inr (if d \<noteq> None
              then r\<lparr>rs_content_encoding := rs_content_encoding r OR NHR_CONTENT_ENCODING_DEFLATE\<rparr>
              else r))))"

section \<open>Finishing, creating, appending\<close>

definition nhr_response_is_finished_receiving :: "nhr_response \<Rightarrow> bool" where
  "nhr_response_is_finished_receiving r =
     (if is_chunked r then rs_is_all_chunks_processed r
      else if rs_content_length r > 0 then rs_content_length r = rs_body_len r else False)"

definition nhr_response_check_is_finished :: "'z gz_mach \<Rightarrow> nhr_response \<Rightarrow> nhr_response res" where
  "nhr_response_check_is_finished mc r =
     (if \<not> nhr_response_is_finished_receiving r then Inr r
      else r_bind (if is_gzip r \<or> is_deflate r then nhr_response_ungzip mc r else Inr r)
             (\<lambda>r. Inr (r\<lparr>rs_is_finished := True\<rparr>)))"

definition nhr_response_create :: "'z gz_mach \<Rightarrow> bytes \<Rightarrow> size_t \<Rightarrow> nhr_response res" where
  "nhr_response_create mc received received_len =
     r_bind (nhr_malloc_zero mc sizeof_response) (\<lambda>_.
     r_bind (nhr_response_parse_status_code zero_response received) (\<lambda>r.
     r_bind (if rs_status_code r \<noteq> 0
             then r_bind (nhr_response_parse_content_length r received) (\<lambda>r.
                  r_bind (nhr_response_parse_transfer_encoding r received) (\<lambda>r.
                  r_bind (nhr_response_parse_content_encoding r received) (\<lambda>r.
                  nhr_response_parse_body mc r received received_len)))
             else Inr r) (\<lambda>r.
     nhr_response_check_is_finished mc r)))"

definition nhr_response_append ::
    "'z gz_mach \<Rightarrow> nhr_response \<Rightarrow> bytes \<Rightarrow> size_t \<Rightarrow> nhr_response res" where
  "nhr_response_append mc r received received_len =
     r_bind (if is_chunked r then nhr_response_read_chunks mc r received
             else nhr_response_add_body_data mc r received received_len)
       (nhr_response_check_is_finished mc)"

definition nhr_response_get_status_code :: "nhr_response option \<Rightarrow> 16 word" where
  "nhr_response_get_status_code response =
     (case response of None \<Rightarrow> 0 | Some r \<Rightarrow> rs_status_code r)"

definition nhr_response_get_body :: "nhr_response option \<Rightarrow> bytes option" where
  "nhr_response_get_body response = (case response of None \<Rightarrow> None | Some r \<Rightarrow> rs_body r)"

definition nhr_response_get_body_length :: "nhr_response option \<Rightarrow> 32 word" where
  "nhr_response_get_body_length response =
     (case response of None \<Rightarrow> 0 | Some r \<Rightarrow> ucast (rs_body_len r))"

end
