(* ===== verification/Nhr_Response_Body.thy ===== *)
theory Nhr_Response_Body
  imports Nhr_Response
begin

text \<open>
  The body of a response as a byte sink: the memory invariant of the body fields, what
  nhr_response_add_body_data appends, and the decoding of a chunked body. The sink is an
  interface (locale \<open>body_sink\<close>); the response interprets it.
\<close>

section \<open>A sink for the bytes of a body\<close>

text \<open>
  A sink appends data to its content and cuts the result to a fixed limit (if it has one). Its
  client, whoever cuts the data into pieces, ends up with the cut of the concatenation.
\<close>

locale body_sink =
  fixes add :: "'s \<Rightarrow> bytes \<Rightarrow> 's res"
    and content :: "'s \<Rightarrow> bytes"
    and cut :: "'s \<Rightarrow> bytes \<Rightarrow> bytes"
    and ok :: "'s \<Rightarrow> bool"
    and limit :: nat
  assumes add_ok: "ok s \<Longrightarrow> length (content s) + length d \<le> limit \<Longrightarrow>
      \<exists>s'. add s d = Inr s' \<and> ok s' \<and> content s' = cut s (content s @ d) \<and> cut s' = cut s"
    and cut_cut: "cut s (cut s xs @ ys) = cut s (xs @ ys)"
    and cut_length: "length (cut s xs) \<le> length xs"
    and cut_content: "ok s \<Longrightarrow> cut s (content s) = content s"
begin

fun add_all :: "'s \<Rightarrow> bytes list \<Rightarrow> 's res" where
  "add_all s [] = Inr s"
| "add_all s (d # ds) = r_bind (add s d) (\<lambda>s'. add_all s' ds)"

lemma add_all_ok:
  assumes "ok s" "length (content s) + length (concat ds) \<le> limit"
  shows "\<exists>s'. add_all s ds = Inr s' \<and> ok s' \<and> content s' = cut s (content s @ concat ds)
           \<and> cut s' = cut s"
  using assms
proof (induction ds arbitrary: s)
  case Nil
  then show ?case by (simp add: cut_content)
next
  case (Cons d ds)
  then obtain s1 where s1: "add s d = Inr s1" "ok s1" "content s1 = cut s (content s @ d)"
      "cut s1 = cut s"
    using add_ok [of s d] by auto
  have "length (content s1) \<le> length (content s @ d)" using s1(3) cut_length [of s "content s @ d"] by simp
  with Cons.prems(2) have "length (content s1) + length (concat ds) \<le> limit" by simp
  with Cons.IH [OF s1(2)] s1 cut_cut [of s "content s @ d" "concat ds"] show ?case by auto
qed

end

section \<open>The memory invariant of the body\<close>

definition resp_mem :: "nhr_response \<Rightarrow> bool" where
  "resp_mem r \<longleftrightarrow> unat (rs_body_size r) = length (blk_bytes (rs_body r))
                \<and> rs_body_len r \<le> rs_body_size r"

definition resp_content :: "nhr_response \<Rightarrow> bytes" where
  "resp_content r = take (unat (rs_body_len r)) (blk_bytes (rs_body r))"

definition resp_cut :: "nhr_response \<Rightarrow> bytes \<Rightarrow> bytes" where
  "resp_cut r xs = (if rs_content_length r = 0 then xs else take (unat (rs_content_length r)) xs)"

definition resp_ok :: "nhr_response \<Rightarrow> bool" where
  "resp_ok r \<longleftrightarrow> resp_mem r \<and> (rs_content_length r > 0 \<longrightarrow> rs_body_len r \<le> rs_content_length r)"

definition body_limit :: "'z gz_mach \<Rightarrow> nat" where
  "body_limit mc = min (mc_limit mc) (2 ^ 64 - 1)"

text \<open>The fields that storing data does not touch.\<close>

definition same_header :: "nhr_response \<Rightarrow> nhr_response \<Rightarrow> bool" where
  "same_header r r' \<longleftrightarrow>
     rs_content_length r' = rs_content_length r \<and> rs_status_code r' = rs_status_code r
     \<and> rs_transfer_encoding r' = rs_transfer_encoding r
     \<and> rs_content_encoding r' = rs_content_encoding r \<and> rs_is_finished r' = rs_is_finished r"

lemma same_header_refl [simp]: "same_header r r"
  by (simp add: same_header_def)

lemma same_header_trans: "same_header r s \<Longrightarrow> same_header s t \<Longrightarrow> same_header r t"
  by (simp add: same_header_def)

lemma same_header_cut: "same_header r r' \<Longrightarrow> resp_cut r' = resp_cut r"
  by (auto simp: same_header_def resp_cut_def fun_eq_iff)

lemma resp_mem_zero [simp]: "resp_mem zero_response" "resp_ok zero_response"
  by (simp_all add: resp_mem_def resp_ok_def zero_response_def)

lemma length_resp_content: "resp_mem r \<Longrightarrow> length (resp_content r) = unat (rs_body_len r)"
  by (auto simp: resp_content_def resp_mem_def word_le_nat_alt)

lemma fix_body_len_spec:
  assumes "resp_mem r"
  shows "resp_ok (nhr_response_fix_body_len r)"
    and "resp_content (nhr_response_fix_body_len r) = resp_cut r (resp_content r)"
    and "same_header r (nhr_response_fix_body_len r)"
    and "rs_is_all_chunks_processed (nhr_response_fix_body_len r) = rs_is_all_chunks_processed r"
  using assms length_resp_content [OF assms]
  by (auto simp: nhr_response_fix_body_len_def resp_ok_def resp_mem_def resp_content_def resp_cut_def
      same_header_def word_le_nat_alt word_less_nat_alt min_def unat_eq_0 intro!: take_all)

lemma add_body_data_spec:
  assumes "resp_mem r" "unat n \<le> length data" "unat (rs_body_len r) + unat n \<le> body_limit mc"
  shows "\<exists>r'. nhr_response_add_body_data mc r data n = Inr r' \<and> resp_ok r'
           \<and> resp_content r' = resp_cut r (resp_content r @ take (unat n) data)
           \<and> same_header r r' \<and> rs_is_all_chunks_processed r' = rs_is_all_chunks_processed r"
proof -
  let ?len = "unat (rs_body_len r)" and ?d = "take (unat n) data"
  let ?req = "rs_body_len r + n"
  have lim: "?len + unat n < 2 ^ LENGTH(64)" "?len + unat n \<le> mc_limit mc"
    using assms(3) by (auto simp: body_limit_def)
  then have req: "unat ?req = ?len + unat n" using unat_add_lem [of "rs_body_len r" n] by blast
  have ld: "length ?d = unat n" using assms(2) by simp
  define r1 where "r1 = (if ?req > rs_body_size r
     then r\<lparr>rs_body := Some (blk_bytes (rs_body r)
              @ replicate (unat ?req - length (blk_bytes (rs_body r))) (mc_fill mc)),
            rs_body_size := ?req\<rparr> else r)"
  have grow: "(if ?req > rs_body_size r
      then r_bind (nhr_realloc mc (rs_body r) (unat ?req))
             (\<lambda>b. Inr (r\<lparr>rs_body := b, rs_body_size := ?req\<rparr>)) else Inr r) = Inr r1"
    using assms(1) lim req
    by (auto simp: r1_def nhr_realloc_def Let_def resp_mem_def word_less_nat_alt)
  have r1: "unat (rs_body_size r1) = length (blk_bytes (rs_body r1))"
      "?len + unat n \<le> length (blk_bytes (rs_body r1))" "rs_body_len r1 = rs_body_len r"
      "same_header r r1" "rs_is_all_chunks_processed r1 = rs_is_all_chunks_processed r"
      "take ?len (blk_bytes (rs_body r1)) = resp_content r"
    using assms(1) req
    by (auto simp: r1_def resp_mem_def word_less_nat_alt word_le_nat_alt same_header_def resp_content_def)
  define b' where "b' = (if ?d = [] then rs_body r1
      else Some (take ?len (blk_bytes (rs_body r1)) @ ?d @ drop (?len + unat n) (blk_bytes (rs_body r1))))"
  have copy: "memcpy_to (rs_body r1) (unat (rs_body_len r1)) ?d = Inr b'"
  proof (cases "rs_body r1")
    case None
    with r1(2) ld have "?d = []" by simp
    with None show ?thesis by (simp add: b'_def memcpy_to_def)
  next
    case (Some b)
    with r1(2,3) ld show ?thesis by (auto simp: memcpy_to_Some b'_def)
  qed
  have lb: "length (blk_bytes b') = length (blk_bytes (rs_body r1))"
    using r1(2) ld by (auto simp: b'_def)
  have tb: "take (?len + unat n) (blk_bytes b') = resp_content r @ ?d"
  proof (cases "?d = []")
    case True
    with ld have "unat n = 0" by simp
    with True r1(6) show ?thesis by (simp add: b'_def)
  next
    case False
    have "length (resp_content r) = ?len" using assms(1) by (rule length_resp_content)
    with False r1(6) ld show ?thesis by (simp add: b'_def)
  qed
  define r2 where "r2 = r1\<lparr>rs_body := b', rs_body_len := rs_body_len r1 + n\<rparr>"
  have "resp_mem r2"
    using r1(1,2,3) lb req by (simp add: r2_def resp_mem_def word_le_nat_alt)
  moreover have "resp_content r2 = resp_content r @ ?d"
    using tb r1(3) req by (simp add: r2_def resp_content_def)
  moreover have "same_header r r2" "rs_is_all_chunks_processed r2 = rs_is_all_chunks_processed r"
    using r1(4,5) by (simp_all add: r2_def same_header_def)
  moreover have "nhr_response_add_body_data mc r data n = Inr (nhr_response_fix_body_len r2)"
    using grow copy assms(2) by (simp add: nhr_response_add_body_data_def mem_read_def r2_def)
  ultimately show ?thesis
    using fix_body_len_spec [of r2] same_header_cut [of r r2] same_header_trans [of r r2] by auto
qed

lemma add_body_data_prefix:
  assumes "unat n \<le> length d"
  shows "nhr_response_add_body_data mc r (d @ x) n = nhr_response_add_body_data mc r d n"
  using assms by (simp add: nhr_response_add_body_data_def mem_read_def)

interpretation resp_sink:
  body_sink "\<lambda>r d. nhr_response_add_body_data mc r d (of_nat (length d))"
    resp_content resp_cut resp_ok "body_limit mc" for mc :: "'z gz_mach"
proof (unfold_locales, goal_cases)
  case (1 r d)
  have "length d \<le> 2 ^ 64 - 1" using 1(2) by (simp add: body_limit_def)
  then have "unat (of_nat (length d) :: size_t) = length d"
    by (simp add: unat_of_nat_64 unat_of_nat_32)
  moreover have "resp_mem r" using 1(1) by (simp add: resp_ok_def)
  ultimately show ?case
    using add_body_data_spec [of r "of_nat (length d)" d mc] 1(2) length_resp_content [of r]
      same_header_cut by fastforce
next
  case (2 r xs ys)
  then show ?case by (auto simp: resp_cut_def min_def)
next
  case (3 r xs)
  then show ?case by (simp add: resp_cut_def)
next
  case (4 r)
  then show ?case
    by (auto simp: resp_cut_def resp_ok_def length_resp_content word_le_nat_alt unat_gt_0
        word_neq_0_conv intro!: take_all)
qed

abbreviation add_pieces :: "'z gz_mach \<Rightarrow> nhr_response \<Rightarrow> bytes list \<Rightarrow> nhr_response res" where
  "add_pieces mc \<equiv> body_sink.add_all (\<lambda>r d. nhr_response_add_body_data mc r d (of_nat (length d)))"

text \<open>The header fields survive any number of additions.\<close>

lemma add_all_same_header:
  assumes "add_pieces mc r ds = Inr r'" "resp_ok r"
    and "length (resp_content r) + length (concat ds) \<le> body_limit mc"
  shows "same_header r r' \<and> rs_is_all_chunks_processed r' = rs_is_all_chunks_processed r"
  using assms
proof (induction ds arbitrary: r)
  case Nil
  then show ?case by simp
next
  case (Cons d ds)
  have n: "unat (of_nat (length d) :: size_t) = length d"
    using Cons.prems(3) by (intro unat_of_nat_64) (simp add: body_limit_def)
  have mem: "resp_mem r" using Cons.prems(2) by (simp add: resp_ok_def)
  obtain r1 where r1: "nhr_response_add_body_data mc r d (of_nat (length d)) = Inr r1" "resp_ok r1"
      "resp_content r1 = resp_cut r (resp_content r @ d)" "same_header r r1"
      "rs_is_all_chunks_processed r1 = rs_is_all_chunks_processed r"
    using add_body_data_spec [of r "of_nat (length d)" d mc] n mem Cons.prems(3)
      length_resp_content [OF mem] by auto
  have "length (resp_content r1) \<le> length (resp_content r) + length d"
    using r1(3) resp_sink.cut_length [of r "resp_content r @ d"] by simp
  with Cons.prems r1 have "same_header r1 r' \<and> rs_is_all_chunks_processed r' = rs_is_all_chunks_processed r1"
    by (intro Cons.IH) auto
  with r1(4,5) show ?case using same_header_trans by auto
qed

section \<open>Chunks\<close>

text \<open>
  The reference form of a chunked body: each chunk is written as its length in hexadecimal
  digits of either case, a line end, the data and a line end; a chunk of length zero and an
  empty line close the body.
\<close>

type_synonym chunk = "string \<times> bytes"

definition chunk_ok :: "chunk \<Rightarrow> bool" where
  "chunk_ok c \<longleftrightarrow> fst c \<noteq> [] \<and> (\<forall>x \<in> set (fst c). isxdigit x) \<and> digits_value 16 (fst c) = length (snd c)
     \<and> snd c \<noteq> [] \<and> length (snd c) < 2 ^ 32"

fun encode_chunks :: "chunk list \<Rightarrow> bytes" where
  "encode_chunks [] = []"
| "encode_chunks ((hs, d) # cs) = hs @ k_nhr_CRLF @ d @ k_nhr_CRLF @ encode_chunks cs"

definition last_chunk_ok :: "string \<Rightarrow> bool" where
  "last_chunk_ok zs \<longleftrightarrow> zs \<noteq> [] \<and> (\<forall>x \<in> set zs. isxdigit x) \<and> digits_value 16 zs = 0"

lemma ucast_of_nat_32_64: "n < 2 ^ 32 \<Longrightarrow> (ucast (of_nat n :: 32 word) :: 64 word) = of_nat n"
  by (simp add: unsigned_of_nat take_bit_nat_eq_self)

lemma sscanf_X_CRLF:
  assumes "\<forall>c \<in> set ds. isxdigit c" "ds \<noteq> []" "digits_value 16 ds < 2 ^ 32" "NUL \<in> set rest"
  shows "sscanf_X (ds @ CR # rest) = Inr (Some (of_nat (digits_value 16 ds)))"
  using assms by (intro sscanf_X_number) auto

lemma skip_digits_CRLF:
  "\<forall>c \<in> set ds. isxdigit c \<Longrightarrow> skip_while isxdigit (ds @ CR # rest) = Inr (CR # rest)"
  by (subst skip_while_append) auto

lemma read_chunks_one:
  assumes "chunk_ok (hs, d)" "NUL \<in> set rest"
  shows "nhr_response_read_chunks mc r (hs @ k_nhr_CRLF @ d @ k_nhr_CRLF @ rest) =
     r_bind (nhr_response_add_body_data mc r d (of_nat (length d)))
       (\<lambda>r'. nhr_response_read_chunks mc r' rest)"
proof -
  have hs: "\<forall>c \<in> set hs. isxdigit c" "hs \<noteq> []" and v: "digits_value 16 hs = length d"
      and d: "d \<noteq> []" "length d < 2 ^ 32"
    using assms(1) by (auto simp: chunk_ok_def)
  let ?s = "hs @ CR # (LF # d @ CR # LF # rest)"
  have scan: "sscanf_X ?s = Inr (Some (of_nat (length d)))"
    using sscanf_X_CRLF [of hs "LF # d @ CR # LF # rest"] hs v d(2) assms(2) by simp
  have skip: "skip_while isxdigit ?s = Inr (CR # LF # d @ CR # LF # rest)"
    using skip_digits_CRLF hs(1) by blast
  have u: "unat (of_nat (length d) :: 32 word) = length d" using d(2) by (simp add: unat_of_nat_64 unat_of_nat_32)
  then have nz: "(of_nat (length d) :: 32 word) \<noteq> 0"
    using d(1) by (metis length_0_conv unat_0)
  have u64: "unat (of_nat (length d) :: 64 word) = length d" using d(2) by (simp add: unat_of_nat_64 unat_of_nat_32)
  have s: "hs @ k_nhr_CRLF @ d @ k_nhr_CRLF @ rest = ?s" by (simp add: k_nhr_CRLF_def)
  show ?thesis
    unfolding s
    by (subst nhr_response_read_chunks.simps)
      (simp add: scan skip nz u ucast_of_nat_32_64 [OF d(2)] k_nhr_CRLF_length_def ptr_add_def
        add_body_data_prefix u64 r_bind_assoc)
qed

lemma read_chunks_last:
  assumes "last_chunk_ok zs" "NUL \<in> set rest"
  shows "nhr_response_read_chunks mc r (zs @ k_nhr_double_CRLF @ rest)
           = Inr (r\<lparr>rs_is_all_chunks_processed := True\<rparr>)"
proof -
  have zs: "\<forall>c \<in> set zs. isxdigit c" "zs \<noteq> []" "digits_value 16 zs = 0"
    using assms(1) by (auto simp: last_chunk_ok_def)
  have s: "zs @ k_nhr_double_CRLF @ rest = zs @ CR # LF # CR # LF # rest"
    by (simp add: k_nhr_double_CRLF_def)
  have scan: "sscanf_X (zs @ CR # LF # CR # LF # rest) = Inr (Some 0)"
    using sscanf_X_CRLF [of zs "LF # CR # LF # rest"] zs assms(2) by simp
  show ?thesis
    unfolding s
    by (subst nhr_response_read_chunks.simps)
      (simp add: scan skip_digits_CRLF zs(1) k_nhr_double_CRLF_def)
qed

definition no_chunk :: "bytes \<Rightarrow> bool" where
  \<comment> \<open>what the buffer holds behind a packet does not read as the length of a chunk\<close>
  "no_chunk t \<longleftrightarrow> sscanf_X t = Inr None"

lemma no_chunk_NUL [simp]: "no_chunk (NUL # t)"
  by (simp add: no_chunk_def sscanf_X_NUL)

lemma no_chunk_string: "no_chunk t \<Longrightarrow> NUL \<in> set t"
  by (auto simp: no_chunk_def sscanf_X_def c_string_def split: if_splits)

lemma read_chunks_end: "no_chunk t \<Longrightarrow> nhr_response_read_chunks mc r t = Inr r"
  by (subst nhr_response_read_chunks.simps) (simp add: no_chunk_def)

lemma read_chunks_encoded:
  assumes "\<forall>c \<in> set cs. chunk_ok c" "NUL \<in> set rest"
  shows "nhr_response_read_chunks mc r (encode_chunks cs @ rest) =
     r_bind (add_pieces mc r (map snd cs)) (\<lambda>r'. nhr_response_read_chunks mc r' rest)"
  using assms(1)
proof (induction cs arbitrary: r)
  case Nil
  then show ?case by simp
next
  case (Cons c cs)
  obtain hs d where c: "c = (hs, d)" by (cases c)
  have "NUL \<in> set (encode_chunks cs @ rest)" using assms(2) by simp
  with Cons c show ?case
    using read_chunks_one [of hs d "encode_chunks cs @ rest" mc r] by (simp add: r_bind_assoc)
qed

lemma read_chunks_packet:
  assumes "\<forall>c \<in> set cs. chunk_ok c" "no_chunk t"
  shows "nhr_response_read_chunks mc r (encode_chunks cs @ t) = add_pieces mc r (map snd cs)"
  using read_chunks_encoded [OF assms(1) no_chunk_string [OF assms(2)]]
  by (simp add: read_chunks_end [OF assms(2)])

lemma encode_chunks_append: "encode_chunks (cs @ ds) = encode_chunks cs @ encode_chunks ds"
  by (induction cs rule: encode_chunks.induct) auto

end
