(* ===== verification/Nhr_Response_Correct.thy ===== *)
theory Nhr_Response_Correct
  imports Nhr_Response_Body
begin

text \<open>
  What the response parser computes: the decoding of chunked bodies, the reading of the status
  code and of the content length, the reassembly of a body of known length from the packets it
  arrives in, and the inputs on which the code leaves its buffers.
\<close>

section \<open>Chunked bodies\<close>

lemma read_chunks_whole:
  assumes "resp_ok r" "\<forall>c \<in> set cs. chunk_ok c" "last_chunk_ok zs" "NUL \<in> set rest"
    and "length (resp_content r) + length (concat (map snd cs)) \<le> body_limit mc"
  shows "\<exists>r'. nhr_response_read_chunks mc r (encode_chunks cs @ zs @ k_nhr_double_CRLF @ rest) = Inr r'
           \<and> resp_ok r' \<and> resp_content r' = resp_cut r (resp_content r @ concat (map snd cs))
           \<and> same_header r r' \<and> rs_is_all_chunks_processed r'"
proof -
  obtain r1 where r1: "add_pieces mc r (map snd cs) = Inr r1" "resp_ok r1"
      "resp_content r1 = resp_cut r (resp_content r @ concat (map snd cs))"
    using resp_sink.add_all_ok [OF assms(1,5)] by blast
  then have h: "same_header r r1" using add_all_same_header assms(1,5) by blast
  have "NUL \<in> set (zs @ k_nhr_double_CRLF @ rest)" using assms(4) by simp
  from read_chunks_encoded [OF assms(2) this, of mc r] r1(1)
  have "nhr_response_read_chunks mc r (encode_chunks cs @ zs @ k_nhr_double_CRLF @ rest)
      = Inr (r1\<lparr>rs_is_all_chunks_processed := True\<rparr>)"
    by (simp add: read_chunks_last [OF assms(3,4)])
  with r1 h show ?thesis
    by (auto simp: resp_ok_def resp_mem_def resp_content_def same_header_def)
qed

text \<open>
  C9: nhr_response_read_chunks decodes a chunked body: on the reference encoding of any list of
  chunks it stores exactly the concatenation of the chunks' data behind what is stored (cut to
  the content length, if one was announced), sets \<open>is_all_chunks_processed\<close>, and keeps the body
  fields within the allocated block, whatever follows the body in the buffer.
\<close>

theorem chunked_body_decoded:
  assumes "resp_ok r" "\<forall>c \<in> set cs. chunk_ok c" "last_chunk_ok zs" "NUL \<in> set rest"
    and "length (resp_content r) + length (concat (map snd cs)) \<le> body_limit mc"
  shows "\<exists>r'. nhr_response_read_chunks mc r (encode_chunks cs @ zs @ k_nhr_double_CRLF @ rest) = Inr r'
           \<and> resp_ok r' \<and> resp_content r' = resp_cut r (resp_content r @ concat (map snd cs))
           \<and> same_header r r' \<and> rs_is_all_chunks_processed r'"
  using read_chunks_whole [OF assms] .

definition dummy_zlib :: "bytes zlib" where
  "dummy_zlib = \<lparr>z_deflateInit = (\<lambda>_. None), z_deflate = (\<lambda>z _ _ _. (Z_STREAM_ERROR, 0, [], z)),
     z_inflateInit = (\<lambda>_. None), z_inflate = (\<lambda>z _ _. (Z_DATA_ERROR, 0, [], z)), z_crc32 = (\<lambda>_. 0)\<rparr>"

definition example_gz_mach :: "bytes gz_mach" where
  "example_gz_mach = \<lparr>mc_fill = CHR ''?'', mc_limit = 4096, gz_zlib = dummy_zlib, gz_time = 0, gz_rand = (\<lambda>seed i. seed + 7 * i),
     gz_sizeof_ulong = 8, gz_fuel = 0\<rparr>"

lemma example_gz_mach_sel [simp]:
  "mc_limit example_gz_mach = 4096" "body_limit example_gz_mach = 4096"
  by (simp_all add: example_gz_mach_def body_limit_def)

theorem chunked_body_decoded_witness:
  "\<exists>r'. nhr_response_read_chunks example_gz_mach zero_response
          (encode_chunks [(''5'', ''hello''), (''00a'', '', chunked!'')] @ ''0'' @ k_nhr_double_CRLF @ [NUL])
        = Inr r' \<and> resp_content r' = ''hello, chunked!''"
proof -
  have a: "\<forall>c \<in> set [(''5'', ''hello''), (''00a'', '', chunked!'')]. chunk_ok c"
    by (auto simp: chunk_ok_def ctype_defs digits_value_def xdigit_val_def)
  have b: "last_chunk_ok ''0''"
    by (auto simp: last_chunk_ok_def ctype_defs digits_value_def xdigit_val_def)
  show ?thesis
    using chunked_body_decoded [OF resp_mem_zero(2) a b, of "[NUL]" example_gz_mach]
    by (auto simp: resp_content_def resp_cut_def zero_response_def)
qed

fun read_buffers :: "'z gz_mach \<Rightarrow> nhr_response \<Rightarrow> bytes list \<Rightarrow> nhr_response res" where
  \<comment> \<open>nhr_response_read_chunks on what the receive buffer holds after one packet and the next\<close>
  "read_buffers mc r [] = Inr r"
| "read_buffers mc r (b # bs) = r_bind (nhr_response_read_chunks mc r b) (\<lambda>r. read_buffers mc r bs)"

text \<open>
  C32: a chunked body that arrives in any number of packets cut between two chunks is decoded as if
  it had arrived in one, provided that what the receive buffer holds behind each packet but the last does
  not read as the length of a chunk.
\<close>

theorem chunks_in_packets:
  assumes "\<forall>p \<in> set ps. (\<forall>c \<in> set (fst p). chunk_ok c) \<and> no_chunk (snd p)"
    and "\<forall>c \<in> set ds. chunk_ok c" "NUL \<in> set rest"
  shows "r_bind (read_buffers mc r (map (\<lambda>p. encode_chunks (fst p) @ snd p) ps))
           (\<lambda>r. nhr_response_read_chunks mc r (encode_chunks ds @ rest))
       = nhr_response_read_chunks mc r (encode_chunks (concat (map fst ps) @ ds) @ rest)"
  using assms(1)
proof (induction ps arbitrary: r)
  case Nil
  then show ?case by simp
next
  case (Cons p ps)
  let ?more = "encode_chunks (concat (map fst ps) @ ds) @ rest"
  have "nhr_response_read_chunks mc r (encode_chunks (fst p) @ snd p) = add_pieces mc r (map snd (fst p))"
    using Cons.prems by (intro read_chunks_packet) auto
  moreover have "nhr_response_read_chunks mc r (encode_chunks (fst p) @ ?more)
      = r_bind (add_pieces mc r (map snd (fst p))) (\<lambda>r. nhr_response_read_chunks mc r ?more)"
    using Cons.prems assms(3) by (intro read_chunks_encoded) auto
  ultimately show ?case using Cons.IH Cons.prems by (simp add: r_bind_assoc encode_chunks_append)
qed

lemma example_tails: "no_chunk (''xy'' @ [NUL])" "no_chunk (CR # LF # ''z1'' @ [NUL])"
  by (simp_all add: no_chunk_def sscanf_X_def c_string_def scan_sign_def scan_digits_def has_0x_def ctype_defs)

theorem chunks_in_packets_witness:
  "r_bind (read_buffers example_gz_mach zero_response
       [encode_chunks [(''2'', ''ab'')] @ ''xy'' @ [NUL], encode_chunks [(''1'', ''c'')] @ CR # LF # ''z1'' @ [NUL]])
     (\<lambda>r. nhr_response_read_chunks example_gz_mach r (encode_chunks [(''3'', ''def'')] @ [NUL]))
   = nhr_response_read_chunks example_gz_mach zero_response
       (encode_chunks [(''2'', ''ab''), (''1'', ''c''), (''3'', ''def'')] @ [NUL])"
proof -
  have a: "\<forall>p \<in> set [([(''2'', ''ab'')], ''xy'' @ [NUL]), ([(''1'', ''c'')], CR # LF # ''z1'' @ [NUL])].
      (\<forall>c \<in> set (fst p). chunk_ok c) \<and> no_chunk (snd p)" and b: "\<forall>c \<in> set [(''3'', ''def'')]. chunk_ok c"
    using example_tails by (auto simp: chunk_ok_def ctype_defs digits_value_def xdigit_val_def)
  show ?thesis
    using chunks_in_packets [OF a b, of "[NUL]" example_gz_mach zero_response] by (simp del: encode_chunks.simps)
qed

text \<open>
  C38: a chunk whose data is not all in the buffer is read past the end of the buffer: the code
  does not compare the length the peer announced with what it received.
\<close>

theorem chunk_longer_than_buffer:
  assumes "\<forall>c \<in> set hs. isxdigit c" "hs \<noteq> []" "digits_value 16 hs = n" "n < 2 ^ 32"
    and "length part < n" "resp_mem r" "unat (rs_body_len r) + n \<le> body_limit mc"
  shows "nhr_response_read_chunks mc r (hs @ k_nhr_CRLF @ part) = Inl OutOfBounds"
proof (cases "NUL \<in> set part")
  case False
  then have "NUL \<notin> set (hs @ k_nhr_CRLF @ part)"
    using assms(1) by (auto simp: k_nhr_CRLF_def dest: isxdigit_not_NUL)
  then have "sscanf_X (hs @ k_nhr_CRLF @ part) = Inl OutOfBounds"
    by (simp add: sscanf_X_def c_string_def)
  then show ?thesis by (subst nhr_response_read_chunks.simps) simp
next
  case True
  let ?w = "of_nat n :: 32 word"
  have u: "unat ?w = n" "unat (of_nat n :: size_t) = n"
    using assms(4) by (simp_all add: unat_of_nat_32 unat_of_nat_64)
  have nz: "?w \<noteq> 0" using u(1) assms(5) by auto
  have scan: "sscanf_X (hs @ CR # LF # part) = Inr (Some ?w)"
    using sscanf_X_CRLF [of hs "LF # part"] assms(1-4) True by simp
  have lim: "unat (rs_body_len r) + n < 2 ^ LENGTH(64)" "unat (rs_body_len r) + n \<le> mc_limit mc"
    using assms(7) by (auto simp: body_limit_def)
  have "unat (rs_body_len r + of_nat n) = unat (rs_body_len r) + n"
    using unat_add_lem [of "rs_body_len r" "of_nat n"] lim(1) u(2) by auto
  then have "nhr_response_add_body_data mc r part (of_nat n) = Inl OutOfBounds"
    using lim(2) assms(5) u(2)
    by (auto simp: nhr_response_add_body_data_def mem_read_def nhr_realloc_def Let_def)
  then show ?thesis
    by (subst nhr_response_read_chunks.simps)
      (simp add: k_nhr_CRLF_def scan skip_digits_CRLF [OF assms(1)] nz k_nhr_CRLF_length_def ptr_add_def
        ucast_of_nat_32_64 [OF assms(4)])
qed

theorem chunk_longer_than_buffer_witness:
  "nhr_response_read_chunks example_gz_mach zero_response (''ff'' @ k_nhr_CRLF @ ''only this'')
     = Inl OutOfBounds"
  by (rule chunk_longer_than_buffer [of _ 255])
    (auto simp: ctype_defs digits_value_def xdigit_val_def zero_response_def resp_mem_def)

section \<open>The status line and the content length\<close>

lemma strstr_at:
  assumes "c_string p = Inr s" "find_sub needle s = Some (length a)" "p = a @ q"
  shows "strstr p needle = Inr (Some q)"
  using assms by (simp add: strstr_def)

lemma status_code_read:
  assumes "received = ver @ CHR '' '' # ds @ x # rest"
    and "CHR '' '' \<notin> set ver" "NUL \<notin> set ver" "NUL \<in> set (x # rest)"
    and "\<forall>c \<in> set ds. isdigit c" "ds \<noteq> []" "hd ds \<noteq> CHR ''0''" "\<not> isdigit x"
    and "0 < digits_value 10 ds" "digits_value 10 ds < 2 ^ 31"
  shows "nhr_response_parse_status_code r received
           = Inr (r\<lparr>rs_status_code := of_nat (digits_value 10 ds)\<rparr>)"
proof -
  have "NUL \<notin> set ds" using assms(5) by (auto simp: isdigit_def)
  then have "c_string received = Inr (ver @ CHR '' '' # ds @ takeWhile (\<lambda>c. c \<noteq> NUL) (x # rest))"
    using assms(1,3,4) by (simp add: c_string_def takeWhile_not_in del: takeWhile.simps(2))
      (simp add: takeWhile_not_in)
  moreover have "find_sub '' '' (ver @ CHR '' '' # t) = Some (length ver)" for t
    using assms(2) find_sub_here [of "'' ''" t] by (subst find_sub_skip) auto
  ultimately have "strstr received '' '' = Inr (Some (CHR '' '' # ds @ x # rest))"
    using assms(1) by (intro strstr_at) auto
  moreover have "sscanf_i (CHR '' '' # ds @ x # rest) = Inr (Some (int (digits_value 10 ds)))"
    using assms by (intro sscanf_i_number) auto
  ultimately show ?thesis
    using assms(9) by (simp add: nhr_response_parse_status_code_def)
qed

lemma field_value_at:
  assumes "c_string received = Inr s" "find_sub field s = Some (length a)"
    and "received = a @ field @ b @ v # rest" "\<forall>c \<in> set b. \<not> isalnum c" "isalnum v"
  shows "nhr_response_find_http_field_value received field = Inr (Some (v # rest))"
proof -
  have "strstr received field = Inr (Some (field @ b @ v # rest))"
    using assms(1-3) by (rule strstr_at)
  moreover have "skip_while (\<lambda>c. \<not> isalnum c) (b @ v # rest) = Inr (v # rest)"
    using assms(4,5) by (subst skip_while_append) auto
  ultimately show ?thesis by (simp add: nhr_response_find_http_field_value_def)
qed

lemma field_absent:
  assumes "c_string received = Inr s" "find_sub field s = None"
  shows "nhr_response_find_http_field_value received field = Inr None"
  using assms by (simp add: nhr_response_find_http_field_value_def strstr_def)

lemma content_length_read:
  assumes "c_string received = Inr s" "find_sub k_nhr_content_length s = Some (length a)"
    and "received = a @ k_nhr_content_length @ '': '' @ dec_digits n @ x # rest"
    and "0 < n" "n < 2 ^ 64" "\<not> isdigit x" "NUL \<in> set (x # rest)"
  shows "nhr_response_parse_content_length r received = Inr (r\<lparr>rs_content_length := of_nat n\<rparr>)"
proof -
  obtain v vs where v: "dec_digits n = v # vs" using dec_digits_not_Nil by (cases "dec_digits n") auto
  then have "isalnum v" using dec_digits_isdigit [of v n] by simp
  then have "nhr_response_find_http_field_value received k_nhr_content_length
      = Inr (Some (dec_digits n @ x # rest))"
    using field_value_at [OF assms(1,2), of "'': ''" v "vs @ x # rest"] assms(3) v
    by (auto simp: ctype_defs)
  moreover have "sscanf_lu (dec_digits n @ x # rest) = Inr (Some (of_nat n))"
    using assms(5-7) by (intro sscanf_lu_dec_digits) auto
  moreover have "(of_nat n :: 64 word) \<noteq> 0"
    using assms(4,5) unat_of_nat_64 [of n] by auto
  ultimately show ?thesis
    by (simp add: nhr_response_parse_content_length_def word_neq_0_conv)
qed

section \<open>Bodies of a known length\<close>

lemma parse_body_identity:
  assumes "strstr received k_nhr_double_CRLF = Inr (Some (drop (length head) received))"
    and "received = head @ k_nhr_double_CRLF @ body @ stale" "length head > 4"
    and "received_len = of_nat (length head + 4 + length body)" "length received < 2 ^ 64"
    and "\<not> is_chunked r"
    and "unat (rs_content_length r) + 32 \<le> body_limit mc" "length body \<le> body_limit mc"
  shows "\<exists>r'. nhr_response_parse_body mc r received received_len = Inr r' \<and> resp_ok r'
           \<and> resp_content r' = resp_cut r body \<and> same_header r r'"
proof -
  let ?cl = "rs_content_length r" and ?bl = "of_nat (length body) :: size_t"
  let ?bs = "if ?cl > ?bl then ?cl + 32 else ?bl"
  have find: "strstr received k_nhr_double_CRLF = Inr (Some (k_nhr_double_CRLF @ body @ stale))"
    using assms(1,2) by simp
  have ubl: "unat ?bl = length body"
    using assms(8) by (intro unat_of_nat_64) (simp add: body_limit_def)
  have "unat ?cl + unat (32 :: size_t) < 2 ^ LENGTH(64)" using assms(7) by (simp add: body_limit_def)
  then have ucl: "unat (?cl + 32) = unat ?cl + 32" using unat_add_lem [of ?cl 32] by simp
  have skip: "(of_nat (length received - length (k_nhr_double_CRLF @ body @ stale)) :: size_t)
      = of_nat (length head)" using assms(2) by simp
  have big: "(of_nat (length head) :: size_t) > of_nat k_nhr_double_CRLF_length"
    using assms(2,3,5) by (simp add: word_less_nat_alt unat_of_nat_64 k_nhr_double_CRLF_length_def)
  have len: "received_len - (of_nat (length head) + of_nat k_nhr_double_CRLF_length) = ?bl"
    using assms(4) by (simp add: k_nhr_double_CRLF_length_def)
  have bs: "length body \<le> unat ?bs" "unat ?bs \<le> mc_limit mc"
    using assms(7,8) ubl ucl by (auto simp: word_less_nat_alt body_limit_def)
  define b where "b = (if unat ?bs = 0 then None else Some (body @ replicate (unat ?bs - length body) (mc_fill mc)))"
  have store: "r_bind (nhr_malloc mc (unat ?bs)) (\<lambda>b. memcpy_to b 0 body) = Inr b"
  proof (cases "unat ?bs = 0")
    case True
    with bs(1) show ?thesis by (simp add: b_def)
  next
    case False
    with bs show ?thesis by (simp add: b_def nhr_malloc_ok memcpy_to_Some del: if_split)
  qed
  define r1 where "r1 = r\<lparr>rs_body := b, rs_body_len := ?bl, rs_body_size := ?bs\<rparr>"
  have "length (blk_bytes b) = unat ?bs" "take (length body) (blk_bytes b) = body"
    using bs(1) by (auto simp: b_def)
  then have r1: "resp_mem r1" "resp_content r1 = body" "same_header r r1"
    using bs(1) ubl by (simp_all add: r1_def resp_mem_def resp_content_def same_header_def word_le_nat_alt)
  obtain b0 where b0: "nhr_malloc mc (unat ?bs) = Inr b0" "memcpy_to b0 0 body = Inr b"
    using store by (auto simp: r_bind_Inr_conv)
  have "nhr_response_parse_body mc r received received_len = Inr (nhr_response_fix_body_len r1)"
    using assms(6) len skip big b0
    by (cases "?bl < ?cl")
      (simp_all add: nhr_response_parse_body_def find Let_def k_nhr_double_CRLF_length_def ubl r1_def
        mem_read_def)
  then show ?thesis
    using fix_body_len_spec [OF r1(1)] r1(2,3) same_header_cut [OF r1(3)]
      same_header_trans [OF r1(3)] by auto
qed

text \<open>
  A response head as the peer writes it, with its \<open>Content-Length\<close> field, and what makes it the
  head that the string searches of the parser see: the first blank is the one before the status
  code, the first \<open>Content-Length\<close> is the field, and neither \<open>Transfer-Encoding\<close> nor
  \<open>Content-Encoding\<close> occurs in the whole buffer up to its first NUL. In a \<open>plain_response\<close> the
  first empty line is the end of the head.
\<close>

definition plain_line :: "string \<Rightarrow> nat \<Rightarrow> string \<Rightarrow> nat \<Rightarrow> string" where
  \<comment> \<open>the head up to the number of bytes\<close>
  "plain_line ver code h1 n =
     ver @ '' '' @ dec_digits code @ '' '' @ h1 @ k_nhr_content_length @ '': '' @ dec_digits n"

definition plain_head :: "string \<Rightarrow> nat \<Rightarrow> string \<Rightarrow> nat \<Rightarrow> string \<Rightarrow> string" where
  "plain_head ver code h1 n h2 = plain_line ver code h1 n @ h2"

definition plain_fields :: "string \<Rightarrow> nat \<Rightarrow> string \<Rightarrow> nat \<Rightarrow> string \<Rightarrow> bytes \<Rightarrow> bool" where
  "plain_fields ver code h1 n h2 received \<longleftrightarrow>
     (case c_string received of
        Inl _ \<Rightarrow> False
      | Inr s \<Rightarrow>
          find_sub k_nhr_content_length s = Some (length (ver @ '' '' @ dec_digits code @ '' '' @ h1))
          \<and> find_sub k_nhr_transfer_encoding s = None \<and> find_sub k_nhr_content_encoding s = None)
     \<and> CHR '' '' \<notin> set ver \<and> NUL \<notin> set (plain_head ver code h1 n h2)
     \<and> \<not> isdigit (hd (drop (length (plain_line ver code h1 n)) received))
     \<and> 0 < code \<and> code < 2 ^ 16 \<and> 0 < n \<and> n < 2 ^ 64"

definition plain_response :: "string \<Rightarrow> nat \<Rightarrow> string \<Rightarrow> nat \<Rightarrow> string \<Rightarrow> bytes \<Rightarrow> bool" where
  "plain_response ver code h1 n h2 received \<longleftrightarrow>
     plain_fields ver code h1 n h2 received
     \<and> strstr received k_nhr_double_CRLF = Inr (Some (drop (length (plain_head ver code h1 n h2)) received))"

definition parsed_head :: "nat \<Rightarrow> nat \<Rightarrow> nhr_response" where
  "parsed_head code n = zero_response\<lparr>rs_status_code := of_nat code, rs_content_length := of_nat n\<rparr>"

lemma parsed_head_sel [simp]:
  "rs_status_code (parsed_head code n) = of_nat code" "rs_content_length (parsed_head code n) = of_nat n"
  "rs_transfer_encoding (parsed_head code n) = 0" "rs_content_encoding (parsed_head code n) = 0"
  "rs_is_finished (parsed_head code n) = False" "resp_ok (parsed_head code n)"
  "resp_content (parsed_head code n) = []"
  by (simp_all add: parsed_head_def zero_response_def resp_ok_def resp_mem_def resp_content_def)

lemma create_plain_fields:
  assumes pf: "plain_fields ver code h1 n h2 received"
    and rc: "received = plain_head ver code h1 n h2 @ t" and sz: "sizeof_response \<le> mc_limit mc"
  shows "nhr_response_create mc received received_len =
     r_bind (nhr_response_parse_body mc (parsed_head code n) received received_len)
       (nhr_response_check_is_finished mc)"
proof -
  let ?pre = "ver @ '' '' @ dec_digits code @ '' '' @ h1"
  obtain s where s: "c_string received = Inr s" "find_sub k_nhr_content_length s = Some (length ?pre)"
      "find_sub k_nhr_transfer_encoding s = None" "find_sub k_nhr_content_encoding s = None"
      and hd: "CHR '' '' \<notin> set ver" "NUL \<notin> set (plain_head ver code h1 n h2)" "0 < code"
        "code < 2 ^ 16" "0 < n" "n < 2 ^ 64"
    using pf by (auto simp: plain_fields_def split: sum.splits)
  have "NUL \<in> set received" using s(1) by (simp add: c_string_Inr_conv)
  then have "NUL \<in> set (h2 @ t)" using hd(2) rc by (auto simp: plain_head_def)
  then obtain x u where xu: "h2 @ t = x # u" by (cases "h2 @ t") auto
  then have rc1: "received = plain_line ver code h1 n @ x # u" using rc by (simp add: plain_head_def)
  have nd: "\<not> isdigit x" using pf rc1 by (simp add: plain_fields_def)
  have nt: "NUL \<in> set (x # u)" using \<open>NUL \<in> set (h2 @ t)\<close> xu by simp
  have rc2: "received = ?pre @ k_nhr_content_length @ '': '' @ dec_digits n @ x # u"
    using rc1 by (simp add: plain_line_def)
  let ?r1 = "zero_response\<lparr>rs_status_code := of_nat code\<rparr>"
  have lz: "hd (dec_digits code) \<noteq> CHR ''0''" using hd(3) by (rule dec_digits_hd)
  have st: "nhr_response_parse_status_code zero_response received = Inr ?r1"
    using status_code_read [of received ver "dec_digits code" "CHR '' ''"
        "h1 @ k_nhr_content_length @ '': '' @ dec_digits n @ x # u" zero_response] rc2 hd nt lz
    by (auto simp: dec_digits_isdigit plain_head_def plain_line_def)
  have cl: "nhr_response_parse_content_length ?r1 received = Inr (parsed_head code n)"
    using content_length_read [OF s(1,2) rc2 hd(5,6) nd nt] by (simp add: parsed_head_def)
  have te: "nhr_response_parse_transfer_encoding (parsed_head code n) received = Inr (parsed_head code n)"
    using field_absent [OF s(1,3)] by (simp add: nhr_response_parse_transfer_encoding_def)
  have ce: "nhr_response_parse_content_encoding (parsed_head code n) received = Inr (parsed_head code n)"
    using field_absent [OF s(1,4)] by (simp add: nhr_response_parse_content_encoding_def)
  have "unat (of_nat code :: 16 word) = code" using hd(4) by (intro unat_of_nat_len) simp
  with hd(3) have "(of_nat code :: 16 word) \<noteq> 0" by auto
  then show ?thesis
    using st cl te ce sz
    by (simp add: nhr_response_create_def nhr_malloc_zero_def nhr_malloc_ok sizeof_response_def)
qed

lemma check_is_finished_plain:
  assumes "resp_mem r" "rs_transfer_encoding r = 0" "rs_content_encoding r = 0"
    and "rs_content_length r = of_nat n" "0 < n" "n < 2 ^ 64"
  shows "nhr_response_check_is_finished mc r =
     Inr (if length (resp_content r) = n then r\<lparr>rs_is_finished := True\<rparr> else r)"
proof -
  have un: "unat (of_nat n :: size_t) = n" using assms(6) by (rule unat_of_nat_64)
  then have nz: "(of_nat n :: size_t) \<noteq> 0" using assms(5) by auto
  have "rs_content_length r = rs_body_len r \<longleftrightarrow> length (resp_content r) = n"
    using assms(1,4) un by (auto simp: word_unat_eq_iff length_resp_content)
  then show ?thesis
    using assms(2-4) nz
    by (simp add: nhr_response_check_is_finished_def nhr_response_is_finished_receiving_def
        is_chunked_def is_gzip_def is_deflate_def word_neq_0_conv)
qed

lemma create_plain:
  assumes pr: "plain_response ver code h1 n h2 received"
    and rc: "received = plain_head ver code h1 n h2 @ k_nhr_double_CRLF @ body @ stale"
    and rl: "received_len = of_nat (length (plain_head ver code h1 n h2) + 4 + length body)"
    and sz: "length received < 2 ^ 64" "n + 32 \<le> body_limit mc" "length body \<le> body_limit mc"
      "sizeof_response \<le> mc_limit mc"
  shows "\<exists>r. nhr_response_create mc received received_len = Inr r
           \<and> rs_status_code r = of_nat code \<and> rs_content_length r = of_nat n
           \<and> rs_transfer_encoding r = 0 \<and> rs_content_encoding r = 0
           \<and> resp_ok r \<and> resp_content r = take n body \<and> (rs_is_finished r \<longleftrightarrow> n \<le> length body)"
proof -
  let ?hd = "plain_head ver code h1 n h2" and ?r0 = "parsed_head code n"
  have pf: "plain_fields ver code h1 n h2 received" and n: "0 < n" "n < 2 ^ 64"
      and sub: "strstr received k_nhr_double_CRLF = Inr (Some (drop (length ?hd) received))"
    using pr by (auto simp: plain_response_def plain_fields_def)
  have un: "unat (of_nat n :: size_t) = n" using n(2) by (rule unat_of_nat_64)
  then have nz: "(of_nat n :: size_t) \<noteq> 0" using n(1) by auto
  have "length ?hd > 4" "\<not> is_chunked ?r0"
    by (simp_all add: plain_head_def plain_line_def k_nhr_content_length_def is_chunked_def)
  from parse_body_identity [OF sub rc this(1) rl sz(1) this(2) _ sz(3)] sz(2) un
  obtain r where r: "nhr_response_parse_body mc ?r0 received received_len = Inr r" "resp_ok r"
      "resp_content r = resp_cut ?r0 body" "same_header ?r0 r" by auto
  have c: "resp_content r = take n body" using r(3) un nz by (simp add: resp_cut_def)
  have h: "rs_content_length r = of_nat n" "rs_status_code r = of_nat code"
      "rs_transfer_encoding r = 0" "rs_content_encoding r = 0" "\<not> rs_is_finished r"
    using r(4) by (simp_all add: same_header_def)
  have "nhr_response_create mc received received_len
      = Inr (if length (resp_content r) = n then r\<lparr>rs_is_finished := True\<rparr> else r)"
    using create_plain_fields [OF pf rc sz(4)] check_is_finished_plain [of r n mc] r h n
    by (simp add: resp_ok_def)
  with r(2) c h show ?thesis
    by (auto simp: resp_ok_def resp_mem_def resp_content_def)
qed

section \<open>Reassembly from packets\<close>

definition plain_inv :: "nat \<Rightarrow> nhr_response \<Rightarrow> bool" where
  "plain_inv n r \<longleftrightarrow> resp_ok r \<and> rs_transfer_encoding r = 0 \<and> rs_content_encoding r = 0
     \<and> rs_content_length r = of_nat n \<and> 0 < n \<and> n < 2 ^ 64
     \<and> (rs_is_finished r \<longleftrightarrow> length (resp_content r) = n)"

lemma plain_inv_length:
  assumes "plain_inv n r"
  shows "length (resp_content r) \<le> n"
proof -
  have "unat (of_nat n :: size_t) = n" using assms by (intro unat_of_nat_64) (simp add: plain_inv_def)
  moreover from this have "(of_nat n :: size_t) \<noteq> 0" using assms by (auto simp: plain_inv_def)
  ultimately show ?thesis
    using assms by (auto simp: plain_inv_def resp_ok_def length_resp_content word_le_nat_alt word_neq_0_conv)
qed

lemma append_plain:
  assumes "plain_inv n r" "n + length data \<le> body_limit mc"
  shows "\<exists>r'. nhr_response_append mc r (data @ stale) (of_nat (length data)) = Inr r'
           \<and> plain_inv n r' \<and> resp_content r' = take n (resp_content r @ data)
           \<and> rs_status_code r' = rs_status_code r"
proof -
  have ok: "resp_ok r" "resp_mem r" "rs_transfer_encoding r = 0" "rs_content_encoding r = 0"
      "rs_content_length r = of_nat n" "0 < n" "n < 2 ^ 64"
      "rs_is_finished r \<longleftrightarrow> length (resp_content r) = n"
    using assms(1) by (auto simp: plain_inv_def resp_ok_def)
  have un: "unat (of_nat n :: size_t) = n" using ok(7) by (rule unat_of_nat_64)
  then have nz: "(of_nat n :: size_t) \<noteq> 0" using ok(6) by auto
  have ld: "unat (of_nat (length data) :: size_t) = length data"
    using assms(2) by (intro unat_of_nat_64) (simp add: body_limit_def)
  have "unat (rs_body_len r) \<le> n"
    using plain_inv_length [OF assms(1)] ok(2) by (simp add: length_resp_content)
  then obtain r1 where r1: "nhr_response_add_body_data mc r (data @ stale) (of_nat (length data)) = Inr r1"
      "resp_ok r1" "resp_content r1 = take n (resp_content r @ data)" "same_header r r1"
    using add_body_data_spec [of r "of_nat (length data)" data mc] ok(2,5) ld assms(2) nz un
    by (auto simp: add_body_data_prefix resp_cut_def)
  have h: "rs_content_length r1 = of_nat n" "rs_transfer_encoding r1 = 0" "rs_content_encoding r1 = 0"
      "rs_status_code r1 = rs_status_code r" "rs_is_finished r1 = rs_is_finished r"
    using r1(4) ok by (simp_all add: same_header_def)
  let ?r2 = "if length (resp_content r1) = n then r1\<lparr>rs_is_finished := True\<rparr> else r1"
  have "nhr_response_append mc r (data @ stale) (of_nat (length data)) = Inr ?r2"
    using r1(1,2) check_is_finished_plain [of r1 n mc] h ok(3,6,7)
    by (simp add: nhr_response_append_def is_chunked_def resp_ok_def)
  moreover have "rs_is_finished r \<Longrightarrow> length (resp_content r1) = n"
    using ok(8) r1(3) by simp
  then have "plain_inv n ?r2" "resp_content ?r2 = resp_content r1"
    using r1(2) h ok(6,7)
    by (auto simp: plain_inv_def resp_ok_def resp_mem_def resp_content_def)
  ultimately show ?thesis using r1(3) h(4) by auto
qed

fun append_packets :: "'z gz_mach \<Rightarrow> nhr_response \<Rightarrow> (bytes \<times> bytes) list \<Rightarrow> nhr_response res" where
  \<comment> \<open>each packet with the bytes that lie behind it in the receive buffer\<close>
  "append_packets mc r [] = Inr r"
| "append_packets mc r ((data, stale) # ps) =
     r_bind (nhr_response_append mc r (data @ stale) (of_nat (length data))) (\<lambda>r. append_packets mc r ps)"

lemma append_packets_plain:
  assumes "plain_inv n r" "\<forall>p \<in> set ps. n + length (fst p) \<le> body_limit mc"
  shows "\<exists>r'. append_packets mc r ps = Inr r' \<and> plain_inv n r'
           \<and> resp_content r' = take n (resp_content r @ concat (map fst ps))
           \<and> rs_status_code r' = rs_status_code r"
  using assms
proof (induction ps arbitrary: r)
  case Nil
  with plain_inv_length [OF this(1)] Nil show ?case by simp
next
  case (Cons p ps)
  obtain data stale where p: "p = (data, stale)" by (cases p)
  then obtain r1 where r1: "nhr_response_append mc r (data @ stale) (of_nat (length data)) = Inr r1"
      "plain_inv n r1" "resp_content r1 = take n (resp_content r @ data)"
      "rs_status_code r1 = rs_status_code r"
    using append_plain [OF Cons.prems(1), of data mc stale] Cons.prems(2) by auto
  obtain r' where r': "append_packets mc r1 ps = Inr r'" "plain_inv n r'"
      "resp_content r' = take n (resp_content r1 @ concat (map fst ps))"
      "rs_status_code r' = rs_status_code r1"
    using Cons.IH [OF r1(2)] Cons.prems(2) by auto
  have "resp_content r' = take n ((resp_content r @ data) @ concat (map fst ps))"
    using r'(3) r1(3) take_take_append [of n "resp_content r @ data"] by simp
  with r1 r' p show ?case by simp
qed

lemma packets_reassembled:
  assumes "plain_response ver code h1 n h2 received"
    and "received = plain_head ver code h1 n h2 @ k_nhr_double_CRLF @ body @ stale"
    and "received_len = of_nat (length (plain_head ver code h1 n h2) + 4 + length body)"
    and "length received < 2 ^ 64" "n + 32 \<le> body_limit mc" "length body \<le> body_limit mc"
      "sizeof_response \<le> mc_limit mc" "\<forall>p \<in> set ps. n + length (fst p) \<le> body_limit mc"
  shows "\<exists>r. r_bind (nhr_response_create mc received received_len) (\<lambda>r. append_packets mc r ps) = Inr r
           \<and> rs_status_code r = of_nat code
           \<and> resp_content r = take n (body @ concat (map fst ps))
           \<and> (rs_is_finished r \<longleftrightarrow> n \<le> length (body @ concat (map fst ps)))"
proof -
  obtain r0 where r0: "nhr_response_create mc received received_len = Inr r0"
      "rs_status_code r0 = of_nat code" "rs_content_length r0 = of_nat n"
      "rs_transfer_encoding r0 = 0" "rs_content_encoding r0 = 0" "resp_ok r0"
      "resp_content r0 = take n body" "rs_is_finished r0 \<longleftrightarrow> n \<le> length body"
    using create_plain [OF assms(1-7)] by blast
  have "0 < n" "n < 2 ^ 64"
    using assms(1) by (simp_all add: plain_response_def plain_fields_def)
  with r0 have "plain_inv n r0" by (auto simp: plain_inv_def)
  from append_packets_plain [OF this assms(8)] r0
  obtain r where r: "append_packets mc r0 ps = Inr r" "plain_inv n r"
      "resp_content r = take n (take n body @ concat (map fst ps))" "rs_status_code r = of_nat code"
    by auto
  have "take n (take n body @ concat (map fst ps)) = take n (body @ concat (map fst ps))"
    by (rule take_take_append)
  with r r0(1) show ?thesis by (auto simp: plain_inv_def)
qed

text \<open>
  C11: a response with a \<open>Content-Length\<close> of n: however its body is split over the packet with the
  head and any number of later ones, and whatever stale bytes lie behind each packet in the
  buffer, the response ends up with the peer's status code and with the first n bytes of the
  body, and it is finished exactly when n bytes have arrived.
\<close>

theorem body_reassembled:
  assumes "plain_response ver code h1 n h2 received"
    and "received = plain_head ver code h1 n h2 @ k_nhr_double_CRLF @ body @ stale"
    and "received_len = of_nat (length (plain_head ver code h1 n h2) + 4 + length body)"
    and "length received < 2 ^ 64" "n + 32 \<le> body_limit mc" "length body \<le> body_limit mc"
      "sizeof_response \<le> mc_limit mc" "\<forall>p \<in> set ps. n + length (fst p) \<le> body_limit mc"
  shows "\<exists>r. r_bind (nhr_response_create mc received received_len) (\<lambda>r. append_packets mc r ps) = Inr r
           \<and> rs_status_code r = of_nat code
           \<and> resp_content r = take n (body @ concat (map fst ps))
           \<and> (rs_is_finished r \<longleftrightarrow> n \<le> length (body @ concat (map fst ps)))"
  by (rule packets_reassembled [OF assms])

definition example_packet :: bytes where
  "example_packet = plain_head ''HTTP/1.1'' 200 (''OK'' @ k_nhr_CRLF) 5 ''''
     @ k_nhr_double_CRLF @ ''hel'' @ [NUL]"

lemma example_head:
  "plain_head ''HTTP/1.1'' 200 (''OK'' @ k_nhr_CRLF) 5 ''''
     = ''HTTP/1.1 200 OK'' @ [CR, LF] @ ''Content-Length: 5''"
  by (simp add: plain_head_def plain_line_def k_nhr_defs dec_digits.simps digit_char_def char_of_def bit_0)

lemma example_line:
  "plain_line ''HTTP/1.1'' 200 (''OK'' @ k_nhr_CRLF) 5 = ''HTTP/1.1 200 OK'' @ [CR, LF] @ ''Content-Length: 5''"
  using example_head by (simp add: plain_head_def)

lemma example_packet_plain: "plain_response ''HTTP/1.1'' 200 (''OK'' @ k_nhr_CRLF) 5 '''' example_packet"
  unfolding plain_response_def plain_fields_def example_packet_def example_head example_line
  by (simp add: isdigit_def strstr_def c_string_def k_nhr_defs dec_digits.simps)

theorem body_reassembled_witness:
  "\<exists>r. r_bind (nhr_response_create example_gz_mach example_packet 41)
          (\<lambda>r. append_packets example_gz_mach r [(''lo'', ''stale''), (''more'', '''')]) = Inr r
     \<and> resp_content r = ''hello'' \<and> rs_is_finished r"
proof -
  have l: "length (plain_head ''HTTP/1.1'' 200 (''OK'' @ k_nhr_CRLF) 5 '''') = 34"
    unfolding example_head by simp
  show ?thesis
    using body_reassembled [OF example_packet_plain example_packet_def, of 41 example_gz_mach
        "[(''lo'', ''stale''), (''more'', '''')]"] l
    by (auto simp: example_packet_def sizeof_response_def)
qed

section \<open>Inputs on which the parser goes wrong\<close>

text \<open>
  When the first packet ends before the empty line of the head, the parser never looks for
  it again: everything that arrives later, the rest of the head included, is stored as body.
\<close>

theorem split_head_becomes_body:
  assumes "plain_fields ver code h1 n h2 received" "received = plain_head ver code h1 n h2 @ stale"
    and "strstr received k_nhr_double_CRLF = Inr None" "sizeof_response \<le> mc_limit mc"
    and "\<forall>p \<in> set ps. n + length (fst p) \<le> body_limit mc"
  shows "\<exists>r. r_bind (nhr_response_create mc received received_len) (\<lambda>r. append_packets mc r ps) = Inr r
           \<and> rs_status_code r = of_nat code \<and> resp_content r = take n (concat (map fst ps))"
proof -
  have n: "0 < n" "n < 2 ^ 64" using assms(1) by (simp_all add: plain_fields_def)
  have "nhr_response_parse_body mc (parsed_head code n) received received_len = Inr (parsed_head code n)"
    using assms(3) by (simp add: nhr_response_parse_body_def)
  then have create: "nhr_response_create mc received received_len = Inr (parsed_head code n)"
    using create_plain_fields [OF assms(1,2,4)] check_is_finished_plain [of "parsed_head code n" n mc] n
    by (simp add: resp_mem_def parsed_head_def zero_response_def resp_content_def)
  have "plain_inv n (parsed_head code n)" using n by (simp add: plain_inv_def)
  from append_packets_plain [OF this assms(5)] create show ?thesis by auto
qed

theorem split_head_becomes_body_witness:
  "\<exists>r. r_bind (nhr_response_create example_gz_mach
            (plain_head ''HTTP/1.1'' 200 (''OK'' @ k_nhr_CRLF) 5 [CR, LF] @ [NUL]) 36)
          (\<lambda>r. append_packets example_gz_mach r [([CR, LF] @ ''hello'', [])]) = Inr r
     \<and> resp_content r = [CR, LF] @ ''hel''"
proof -
  have hd: "plain_head ''HTTP/1.1'' 200 (''OK'' @ k_nhr_CRLF) 5 [CR, LF]
      = ''HTTP/1.1 200 OK'' @ [CR, LF] @ ''Content-Length: 5'' @ [CR, LF]"
    by (simp add: plain_head_def plain_line_def k_nhr_defs dec_digits.simps digit_char_def char_of_def bit_0)
  let ?rc = "plain_head ''HTTP/1.1'' 200 (''OK'' @ k_nhr_CRLF) 5 [CR, LF] @ [NUL]"
  have a: "plain_fields ''HTTP/1.1'' 200 (''OK'' @ k_nhr_CRLF) 5 [CR, LF] ?rc"
    unfolding plain_fields_def hd example_line by (simp add: isdigit_def c_string_def k_nhr_defs dec_digits.simps)
  have b: "strstr ?rc k_nhr_double_CRLF = Inr None"
    unfolding hd by (simp add: strstr_def c_string_def k_nhr_defs)
  show ?thesis
    using split_head_becomes_body [OF a refl b, of example_gz_mach "[([CR, LF] @ ''hello'', [])]" 36]
    by (auto simp: sizeof_response_def)
qed

text \<open>
  When the string search finds the empty line only in the stale bytes behind the received
  ones, the body length wraps around, and the allocation of that many bytes fails.
\<close>

theorem stale_blank_line_wraps:
  assumes "strstr received k_nhr_double_CRLF = Inr (Some (drop i received))" "i \<le> length received"
    and "4 < i" "unat received_len < i + 4" "i + 4 \<le> length received" "length received < 2 ^ 32"
    and "\<not> is_chunked r" "rs_content_length r < 2 ^ 63" "mc_limit mc < 2 ^ 63"
  shows "nhr_response_parse_body mc r received received_len = Inl AssertFailed"
proof -
  let ?i = "of_nat i :: size_t" and ?bl = "received_len - (of_nat i + 4)"
  have i: "unat ?i = i" "unat (?i + 4) = i + 4"
  proof -
    show "unat ?i = i" using assms(2,6) by (intro unat_of_nat_64) simp
    have "?i + 4 = of_nat (i + 4)" by simp
    also have "unat \<dots> = i + 4" using assms(5,6) by (intro unat_of_nat_64) simp
    finally show "unat (?i + 4) = i + 4" .
  qed
  have lt: "received_len < ?i + 4" using assms(4) i(2) by (simp add: word_less_nat_alt)
  have "unat ?bl = 2 ^ 64 + unat received_len - (i + 4)"
    using lt i(2) by (simp add: unat_sub_if' word_less_nat_alt)
  then have big: "2 ^ 63 \<le> unat ?bl" using assms(5,6) by simp
  have "unat (rs_content_length r) < 2 ^ 63"
    using assms(8) by (simp add: word_less_nat_alt)
  with big have "\<not> rs_content_length r > ?bl" by (simp add: word_less_nat_alt)
  moreover have "nhr_malloc mc (unat ?bl) = Inl AssertFailed"
    using big assms(9) by (auto simp: nhr_malloc_def)
  moreover have "?i > of_nat k_nhr_double_CRLF_length"
    using i(1) assms(3) by (simp add: word_less_nat_alt k_nhr_double_CRLF_length_def)
  ultimately show ?thesis
    using assms(1,2,5,7)
    by (simp add: nhr_response_parse_body_def Let_def k_nhr_double_CRLF_length_def ptr_add_def)
qed

theorem stale_blank_line_wraps_witness:
  "nhr_response_parse_body example_gz_mach (parsed_head 200 5)
     (''HTTP/1.1 200 OK'' @ k_nhr_double_CRLF @ [NUL]) 15 = Inl AssertFailed"
proof -
  have a: "strstr (''HTTP/1.1 200 OK'' @ k_nhr_double_CRLF @ [NUL]) k_nhr_double_CRLF
      = Inr (Some (drop 15 (''HTTP/1.1 200 OK'' @ k_nhr_double_CRLF @ [NUL])))"
    by (simp add: strstr_def c_string_def k_nhr_double_CRLF_def)
  show ?thesis
    by (rule stale_blank_line_wraps [OF a]) (simp_all add: is_chunked_def)
qed

end
