(* ===== verification/Nhr_Response_Gzip.thy ===== *)
theory Nhr_Response_Gzip
  imports Nhr_Response_Correct Nhr_Gz_Correct
begin

text \<open>
  Compressed responses (nhr_response_ungzip with nhr_gz_decompress): a body with
  \<open>Content-Encoding: gzip\<close> and a \<open>Content-Length\<close> is collected over the packets and decoded
  when its last byte has arrived.
\<close>

section \<open>Decoding a complete body\<close>

definition gzip_file :: "bytes \<Rightarrow> bytes \<Rightarrow> bytes \<Rightarrow> bytes \<Rightarrow> bool" where
  \<comment> \<open>a header without optional fields, the deflate data and a footer\<close>
  "gzip_file z h raw foot \<longleftrightarrow> z = h @ raw @ foot \<and> length h = 10 \<and> take 2 h = [CHR 0x1F, CHR 0x8B]
     \<and> raw \<noteq> [] \<and> length foot = 8 \<and> length z < 2 ^ 32"

definition decodes :: "'z gz_mach \<Rightarrow> ('z \<Rightarrow> bytes \<Rightarrow> bytes \<Rightarrow> bool) \<Rightarrow> bytes \<Rightarrow> bytes \<Rightarrow> bool" where
  \<comment> \<open>zlib decodes the raw deflate data to the text, and there is room and fuel for it\<close>
  "decodes mc Q raw pl \<longleftrightarrow> inflate_contract (gz_zlib mc) Q
     \<and> (\<exists>z. z_inflateInit (gz_zlib mc) Raw_format = Some z \<and> Q z raw pl)
     \<and> pl \<noteq> [] \<and> length pl \<le> 512 * gz_fuel mc \<and> length pl + 512 \<le> mc_limit mc \<and> length pl < 2 ^ 64"

lemma gzip_file_input:
  assumes "gzip_file z h raw foot"
  shows "gz_decompress_input (z @ rest) (length z) NHR_GZ_METHOD_GZIP = Inr (Some (Raw_format, raw))"
proof -
  have z: "z = h @ raw @ foot" "length h = 10" "take 2 h = [CHR 0x1F, CHR 0x8B]" "raw \<noteq> []" "length foot = 8"
      "length z < 2 ^ 32" using assms by (auto simp: gzip_file_def)
  have len: "length z = 18 + length raw" using z by simp
  have r: "as_uInt (length raw) = length raw" "0 < length raw"
    using z len by (simp_all add: as_uInt_def)
  have h2: "take 2 (h @ t) = [CHR 0x1F, CHR 0x8B]" for t using z(2,3) by simp
  have g: "nhr_gz_is_gzip_file (z @ rest) (18 + length raw) = Inr True"
    using r(2) z(2) h2 by (simp add: z(1) nhr_gz_is_gzip_file_def NHR_GZ_HEADER_FOOTER_SIZE_def mem_read_def)
  show ?thesis
    unfolding len gz_decompress_input_def g NHR_GZ_HEADER_SIZE_def NHR_GZ_HEADER_FOOTER_SIZE_def
    using r z(2) by (simp add: z(1) mem_read_def ptr_add_def NHR_GZ_METHOD_GZIP_def NHR_GZ_METHOD_DEFLATE_def)
qed

lemma decompress_gzip_file:
  assumes "gzip_file z h raw foot" "decodes mc Q raw pl"
  shows "\<exists>b. nhr_gz_decompress mc (Some (z @ rest)) (length z) NHR_GZ_METHOD_GZIP = Inr (Some (Some b, length pl))
           \<and> take (length pl) b = pl \<and> length pl \<le> length b"
proof -
  obtain s where s: "inflate_contract (gz_zlib mc) Q" "z_inflateInit (gz_zlib mc) Raw_format = Some s" "Q s raw pl"
      "pl \<noteq> []" "length pl \<le> 512 * gz_fuel mc" "length pl + 512 \<le> mc_limit mc"
    using assms(2) by (auto simp: decodes_def)
  have "0 < length z" using assms(1) by (simp add: gzip_file_def)
  from decompress_from [OF s(1,2) gzip_file_input [OF assms(1)] this s(3-6)] show ?thesis .
qed

definition decoded :: "nat \<Rightarrow> bytes \<Rightarrow> nhr_response \<Rightarrow> bool" where
  \<comment> \<open>the response is finished and holds the text\<close>
  "decoded n pl r \<longleftrightarrow> rs_is_finished r \<and> rs_body_len r = of_nat (length pl) \<and> length pl < 2 ^ 64
     \<and> (\<exists>b. rs_body r = Some b \<and> take (length pl) b = pl \<and> length pl \<le> length b)
     \<and> rs_content_length r = of_nat n \<and> rs_transfer_encoding r = 0 \<and> is_gzip r"

lemma decoded_content: "decoded n pl r \<Longrightarrow> resp_content r = pl"
  by (auto simp: decoded_def resp_content_def unat_of_nat_64)

lemma check_is_finished_gzip:
  assumes r: "resp_ok r" "resp_content r = z" "rs_transfer_encoding r = 0" "is_gzip r"
    and n: "rs_content_length r = of_nat (length z)" and g: "gzip_file z h raw foot" "decodes mc Q raw pl"
  shows "\<exists>r'. nhr_response_check_is_finished mc r = Inr r' \<and> decoded (length z) pl r'
    \<and> rs_status_code r' = rs_status_code r \<and> rs_body_size r' = rs_body_size r
    \<and> length (blk_bytes (rs_body r')) = 512 * (length pl div 512 + 1)"
proof -
  have lz: "0 < length z" "length z < 2 ^ 64" using g(1) by (auto simp: gzip_file_def)
  have mem: "resp_mem r" using r(1) by (simp add: resp_ok_def)
  have bl: "unat (rs_body_len r) = length z" using length_resp_content [OF mem] r(2) by simp
  then have nz: "rs_body_len r \<noteq> 0" using lz(1) by auto
  have cl: "rs_content_length r = rs_body_len r"
    using bl n lz(2) by (simp add: word_unat_eq_iff unat_of_nat_64)
  obtain b where b: "rs_body r = Some b"
    using r(2) lz(1) by (cases "rs_body r") (auto simp: resp_content_def)
  have "take (length z) b = z" using r(2) bl b by (simp add: resp_content_def)
  then have bz: "b = z @ drop (length z) b" by (metis append_take_drop_id)
  obtain t where t: "nhr_gz_decompress mc (Some b) (length z) NHR_GZ_METHOD_GZIP = Inr (Some (Some t, length pl))"
      "take (length pl) t = pl" "length pl \<le> length t"
    using decompress_gzip_file [OF g, of "drop (length z) b"] bz by metis
  have pl: "0 < length pl" "length pl < 2 ^ 64" using g(2) by (auto simp: decodes_def)
  have fin: "nhr_response_is_finished_receiving r"
    using r(3) cl nz by (simp add: nhr_response_is_finished_receiving_def is_chunked_def word_neq_0_conv)
  have "nhr_response_check_is_finished mc r
      = Inr (r\<lparr>rs_body := Some t, rs_body_len := of_nat (length pl), rs_is_finished := True\<rparr>)"
    using fin r(4) t(1) b bl nz pl(1)
    by (simp add: nhr_response_check_is_finished_def nhr_response_ungzip_def)
  moreover have "decoded (length z) pl (r\<lparr>rs_body := Some t, rs_body_len := of_nat (length pl), rs_is_finished := True\<rparr>)"
    using t(2,3) pl(2) n r(3,4) by (simp add: decoded_def is_gzip_def)
  moreover have "length t = 512 * (length pl div 512 + 1)" using decompress_block [OF t(1)] by simp
  ultimately show ?thesis by (auto simp del: mult_Suc_right)
qed

section \<open>Packets\<close>

definition collecting :: "bytes \<Rightarrow> nhr_response \<Rightarrow> bool" where
  \<comment> \<open>a gzip response that has received a part of the body \<open>z\<close>\<close>
  "collecting z r \<longleftrightarrow> resp_ok r \<and> \<not> rs_is_finished r \<and> rs_transfer_encoding r = 0 \<and> is_gzip r
     \<and> rs_content_length r = of_nat (length z) \<and> (\<exists>t. z = resp_content r @ t \<and> t \<noteq> [])"

lemma collect_add:
  assumes c: "collecting z r" and z: "length z < 2 ^ 64" "length z \<le> body_limit mc"
    and d: "resp_content r @ data @ t = z"
  shows "\<exists>r1. nhr_response_add_body_data mc r (data @ stale) (of_nat (length data)) = Inr r1 \<and> resp_ok r1
    \<and> resp_content r1 = resp_content r @ data \<and> same_header r r1"
proof -
  have mem: "resp_mem r" using c by (simp add: collecting_def resp_ok_def)
  have len: "length (resp_content r) + length data \<le> length z" using d by (metis le_add1 length_append add.assoc)
  have ld: "unat (of_nat (length data) :: size_t) = length data" using len z(1) by (intro unat_of_nat_64) simp
  obtain r1 where r1: "nhr_response_add_body_data mc r (data @ stale) (of_nat (length data)) = Inr r1" "resp_ok r1"
      "resp_content r1 = resp_cut r (resp_content r @ take (length data) (data @ stale))" "same_header r r1"
    using add_body_data_spec [of r "of_nat (length data)" "data @ stale" mc] mem ld len z(2)
      length_resp_content [OF mem] by auto
  have "rs_content_length r = of_nat (length z)" using c by (simp add: collecting_def)
  then have "resp_cut r (resp_content r @ data) = resp_content r @ data"
    using len z(1) by (simp add: resp_cut_def unat_of_nat_64)
  with r1 show ?thesis by auto
qed

lemma same_header_gzip: "same_header r r' \<Longrightarrow> is_gzip r' = is_gzip r"
  by (simp add: same_header_def is_gzip_def)

text \<open>
  C25: a gzip response is collected over any number of packets and decoded with the last one:
  the response then holds exactly the text that was compressed, and is finished.
\<close>

theorem gzip_response_decoded:
  assumes "collecting z r" "gzip_file z h raw foot" "decodes mc Q raw pl" "length z \<le> body_limit mc"
    and "resp_content r @ concat (map fst ps) = z" "\<forall>p \<in> set ps. fst p \<noteq> []"
  shows "\<exists>r'. append_packets mc r ps = Inr r' \<and> resp_content r' = pl \<and> rs_is_finished r'
    \<and> rs_status_code r' = rs_status_code r"
  using assms
proof (induction ps arbitrary: r)
  case Nil
  then show ?case by (simp add: collecting_def)
next
  case (Cons p ps)
  obtain data stale where p: "p = (data, stale)" by (cases p)
  have "length z < 2 ^ 32" using Cons.prems(2) unfolding gzip_file_def by (elim conjE)
  then have lz: "length z < 2 ^ 64" by simp
  have d: "resp_content r @ data @ concat (map fst ps) = z" using Cons.prems(5) p by simp
  obtain r1 where r1: "nhr_response_add_body_data mc r (data @ stale) (of_nat (length data)) = Inr r1" "resp_ok r1"
      "resp_content r1 = resp_content r @ data" "same_header r r1"
    using collect_add [OF Cons.prems(1) lz Cons.prems(4) d] by blast
  have h1: "rs_transfer_encoding r1 = 0" "rs_content_length r1 = of_nat (length z)" "is_gzip r1" "\<not> rs_is_finished r1"
      "rs_status_code r1 = rs_status_code r"
    using Cons.prems(1) r1(4) same_header_gzip [OF r1(4)] by (auto simp: collecting_def same_header_def)
  have app: "nhr_response_append mc r (data @ stale) (of_nat (length data)) = nhr_response_check_is_finished mc r1"
    using r1(1) Cons.prems(1) by (simp add: nhr_response_append_def is_chunked_def collecting_def)
  show ?case
  proof (cases "ps = []")
    case True
    with d r1(3) have "resp_content r1 = z" by simp
    from check_is_finished_gzip [OF r1(2) this h1(1,3,2) Cons.prems(2,3)]
    obtain r' where "nhr_response_check_is_finished mc r1 = Inr r'" "decoded (length z) pl r'"
        "rs_status_code r' = rs_status_code r1" by blast
    with app p True h1(5) show ?thesis using decoded_content [of "length z" pl r'] by (auto simp: decoded_def)
  next
    case False
    then have ne: "concat (map fst ps) \<noteq> []" using Cons.prems(6) by (cases ps) auto
    have m1: "resp_mem r1" using r1(2) by (simp add: resp_ok_def)
    have "length (resp_content r1) < length z" using d r1(3) ne by (metis append_assoc length_append length_greater_0_conv less_add_same_cancel1)
    then have "unat (rs_body_len r1) \<noteq> length z" using length_resp_content [OF m1] by simp
    then have "rs_content_length r1 \<noteq> rs_body_len r1"
      unfolding h1(2) by (metis unat_of_nat_64 [OF lz])
    then have "\<not> nhr_response_is_finished_receiving r1"
      using h1(1) by (simp add: nhr_response_is_finished_receiving_def is_chunked_def)
    with app have "nhr_response_append mc r (data @ stale) (of_nat (length data)) = Inr r1"
      by (simp add: nhr_response_check_is_finished_def)
    moreover have "\<exists>t. z = resp_content r1 @ t \<and> t \<noteq> []"
      using d r1(3) ne by (intro exI [of _ "concat (map fst ps)"]) (simp del: concat_eq_Nil_conv)
    then have "collecting z r1" using r1(2) h1 unfolding collecting_def by blast
    from Cons.IH [OF this Cons.prems(2-4)] have "\<exists>r'. append_packets mc r1 ps = Inr r' \<and> resp_content r' = pl
        \<and> rs_is_finished r' \<and> rs_status_code r' = rs_status_code r1"
      using d r1(3) Cons.prems(6) by simp
    ultimately show ?thesis using p h1(5) by simp
  qed
qed

definition gzip_example :: bytes where
  "gzip_example = gz_header 0 @ ''hello'' @ replicate 8 NUL"

definition gzip_started :: nhr_response where
  "gzip_started = zero_response\<lparr>rs_status_code := 200, rs_content_length := 23,
     rs_content_encoding := NHR_CONTENT_ENCODING_GZIP\<rparr>"

lemma gzip_example_ok:
  "gzip_file gzip_example (gz_header 0) ''hello'' (replicate 8 NUL)" "length gzip_example = 23"
  "decodes (stored_mach 8) (\<lambda>z inp pl. inp = pl) ''hello'' ''hello''"
  "collecting gzip_example gzip_started" "resp_content gzip_started = []"
proof -
  show l: "length gzip_example = 23" by (simp add: gzip_example_def)
  show "gzip_file gzip_example (gz_header 0) ''hello'' (replicate 8 NUL)"
    by (simp add: gzip_file_def gzip_example_def gz_header_def)
  show "decodes (stored_mach 8) (\<lambda>z inp pl. inp = pl) ''hello'' ''hello''"
    using stored_inflate by (simp add: decodes_def)
  show c: "resp_content gzip_started = []" by (simp add: gzip_started_def resp_content_def zero_response_def)
  have "gzip_example \<noteq> []" using l by auto
  then show "collecting gzip_example gzip_started"
    using c l by (simp add: collecting_def) (simp add: gzip_started_def zero_response_def resp_ok_def resp_mem_def
        is_gzip_def NHR_CONTENT_ENCODING_GZIP_def)
qed

theorem gzip_response_decoded_witness:
  "\<exists>r'. append_packets (stored_mach 8) gzip_started [(take 7 gzip_example, ''x''), (drop 7 gzip_example, [])] = Inr r'
    \<and> resp_content r' = ''hello'' \<and> rs_is_finished r'"
proof -
  have n: "\<forall>p \<in> set [(take 7 gzip_example, ''x''), (drop 7 gzip_example, [])]. fst p \<noteq> []"
    using gzip_example_ok(2) by auto
  have "resp_content gzip_started @ concat (map fst [(take 7 gzip_example, ''x''), (drop 7 gzip_example, [])]) = gzip_example"
    by (simp add: gzip_example_ok(5))
  from gzip_response_decoded [OF gzip_example_ok(4,1,3) _ this n] gzip_example_ok(2)
  show ?thesis by (auto simp: body_limit_def)
qed

end
