(* ===== verification/Nhr_String.thy ===== *)
theory Nhr_String
  imports Nhr_Memory
begin

text \<open>
  nhr_string.c. A string the library owns is a block with its terminating NUL; a
  \<open>char *\<close> argument is \<open>None\<close> for NULL or the bytes from the pointer on.
\<close>

definition nhr_string_copy_len :: "'m mach_scheme \<Rightarrow> bytes option \<Rightarrow> nat \<Rightarrow> bytes option res" where
  "nhr_string_copy_len mc str len =
     (case str of
        None \<Rightarrow> Inr None
      | Some p \<Rightarrow>
          if len > 0
          then r_bind (nhr_malloc mc (len + 1)) (\<lambda>s.
               r_bind (mem_read p len) (\<lambda>data.
               r_bind (memcpy_to s 0 data) (\<lambda>s.
               memcpy_to s len [NUL])))
          else Inr None)"

definition nhr_string_copy :: "'m mach_scheme \<Rightarrow> bytes option \<Rightarrow> bytes option res" where
  "nhr_string_copy mc str =
     (case str of
        None \<Rightarrow> Inr None
      | Some p \<Rightarrow> r_bind (strlen p) (\<lambda>len. nhr_string_copy_len mc str len))"

definition nhr_string_last_char :: "bytes option \<Rightarrow> char res" where
  "nhr_string_last_char str =
     (case str of
        None \<Rightarrow> Inr NUL
      | Some p \<Rightarrow> r_bind (strlen p) (\<lambda>len. Inr (if len > 0 then p ! (len - 1) else NUL)))"

definition nhr_string_delete :: "'b heap \<Rightarrow> ptr \<Rightarrow> 'b heap res" where
  "nhr_string_delete h str = nhr_free h str"

definition nhr_string_delete_clean :: "'b heap \<Rightarrow> ptr option \<Rightarrow> (ptr option \<times> 'b heap) res" where
  "nhr_string_delete_clean h str =
     (case str of
        None \<Rightarrow> Inr (None, h)
      | Some p \<Rightarrow> r_bind (nhr_free h p) (\<lambda>h'. Inr (Some None, h')))"

section \<open>What a copy holds\<close>

lemma nhr_string_copy_len_eq:
  assumes "0 < len" "len \<le> length p" "len + 1 \<le> mc_limit mc"
  shows "nhr_string_copy_len mc (Some p) len = Inr (Some (take len p @ [NUL]))"
proof -
  have "memcpy_to (Some (replicate (len + 1) (mc_fill mc))) 0 (take len p)
          = Inr (Some (take len p @ [mc_fill mc]))"
    using assms by (simp add: memcpy_to_Some replicate_append_same [symmetric])
  moreover have "memcpy_to (Some (take len p @ [mc_fill mc])) len [NUL]
          = Inr (Some (take len p @ [NUL]))"
    using assms(2) by (simp add: memcpy_to_Some)
  ultimately show ?thesis
    using assms by (simp add: nhr_string_copy_len_def nhr_malloc_ok mem_read_def)
qed

lemma nhr_string_copy_len_0 [simp]: "nhr_string_copy_len mc p 0 = Inr None"
  by (simp add: nhr_string_copy_len_def split: option.split)

lemma nhr_string_copy_len_NULL [simp]: "nhr_string_copy_len mc None n = Inr None"
  by (simp add: nhr_string_copy_len_def)

lemma nhr_string_copy_len_string:
  assumes "c_string p = Inr s" "s \<noteq> []" "length s < mc_limit mc"
  shows "nhr_string_copy_len mc (Some p) (length s) = Inr (Some (cstr s))"
proof -
  have "s = takeWhile (\<lambda>c. c \<noteq> NUL) p" using assms(1) by (simp add: c_string_Inr_conv)
  then have "take (length s) p = s" "length s \<le> length p"
    by (auto simp: takeWhile_eq_take [symmetric] length_takeWhile_le)
  then show ?thesis
    using assms(2,3) by (simp add: nhr_string_copy_len_eq cstr_def)
qed

lemma nhr_string_copy_string:
  assumes "c_string p = Inr s" "length s < mc_limit mc"
  shows "nhr_string_copy mc (Some p) = Inr (if s = [] then None else Some (cstr s))"
  using assms by (auto simp: nhr_string_copy_def strlen_def nhr_string_copy_len_string)

text \<open>
  A copy made by nhr_string_copy is a string with the same content, for every
  non-empty C string that fits in memory; NULL and the empty string are copied to NULL.
\<close>

theorem string_copy_roundtrip:
  assumes "NUL \<in> set p" "length (takeWhile (\<lambda>c. c \<noteq> NUL) p) < mc_limit mc"
  shows "\<exists>q. nhr_string_copy mc (Some p) = Inr q
           \<and> (q = None \<longleftrightarrow> hd p = NUL)
           \<and> (\<forall>b. q = Some b \<longrightarrow> c_string b = c_string p \<and> length b = length (takeWhile (\<lambda>c. c \<noteq> NUL) p) + 1)"
proof -
  let ?s = "takeWhile (\<lambda>c. c \<noteq> NUL) p"
  have s: "c_string p = Inr ?s" using assms(1) by (simp add: c_string_def)
  have "?s = [] \<longleftrightarrow> hd p = NUL" using assms(1) by (cases p) auto
  moreover have "NUL \<notin> set ?s" using s by (rule c_string_no_NUL)
  ultimately show ?thesis
    using nhr_string_copy_string [OF s assms(2)] s by (auto simp: cstr_def c_string_append)
qed

theorem string_copy_roundtrip_witness:
  "\<exists>q. nhr_string_copy \<lparr>mc_fill = CHR ''z'', mc_limit = 100\<rparr> (Some (cstr ''/path'')) = Inr q \<and> q \<noteq> None"
proof -
  have a: "NUL \<in> set (cstr ''/path'')" by (simp add: cstr_def)
  have b: "length (takeWhile (\<lambda>c. c \<noteq> NUL) (cstr ''/path''))
      < mc_limit \<lparr>mc_fill = CHR ''z'', mc_limit = 100\<rparr>"
    by (simp add: cstr_def)
  show ?thesis using string_copy_roundtrip [OF a b] by (auto simp: cstr_def)
qed

lemma nhr_string_last_char_eq:
  assumes "c_string p = Inr s"
  shows "nhr_string_last_char (Some p) = Inr (if s = [] then NUL else last s)"
proof -
  have s: "s = takeWhile (\<lambda>c. c \<noteq> NUL) p" using assms by (simp add: c_string_Inr_conv)
  have "p ! (length s - 1) = last s" if "s \<noteq> []"
  proof -
    have "p = s @ dropWhile (\<lambda>c. c \<noteq> NUL) p" using s by simp
    moreover have "length s - 1 < length s" using that by simp
    ultimately have "p ! (length s - 1) = s ! (length s - 1)" by (metis nth_append)
    then show ?thesis using that by (simp add: last_conv_nth)
  qed
  with assms show ?thesis by (auto simp: nhr_string_last_char_def strlen_def)
qed

end
