(* ===== verification/Nhr_Map.thy ===== *)
theory Nhr_Map
  imports Nhr_String
begin

text \<open>
  nhr_map.c twice: the linked list of nodes on the heap, as the code has it, and the list of
  entries that the request works with. The refinement lemmas say that the heap operations
  do to the represented list what the list operations do, and that deleting a map frees
  every node and every block the nodes own, each once, and nothing else.
\<close>

section \<open>The nodes on the heap\<close>

definition NHR_MAP_VALUE_DATA :: "8 word" where "NHR_MAP_VALUE_DATA = 1"
definition NHR_MAP_VALUE_STRING :: "8 word" where "NHR_MAP_VALUE_STRING = 2"
definition NHR_MAP_VALUE_STATIC_STRING :: "8 word" where "NHR_MAP_VALUE_STATIC_STRING = 3"
definition NHR_MAP_VALUE_INT :: "8 word" where "NHR_MAP_VALUE_INT = 4"
definition NHR_MAP_VALUE_UINT :: "8 word" where "NHR_MAP_VALUE_UINT = 5"

lemmas NHR_MAP_VALUE_defs = NHR_MAP_VALUE_DATA_def NHR_MAP_VALUE_STRING_def
  NHR_MAP_VALUE_STATIC_STRING_def NHR_MAP_VALUE_INT_def NHR_MAP_VALUE_UINT_def

datatype nhr_map_value =
    V_data ptr          \<comment> \<open>the members \<open>data\<close> and \<open>string\<close>\<close>
  | V_int "32 word"
  | V_uint "32 word"

record nhr_map_node =
  nd_key :: ptr
  nd_next :: ptr
  nd_value :: nhr_map_value
  nd_reserved :: nhr_map_value
  nd_value_size :: nat
  nd_reserved_size :: nat
  nd_reserved_type :: "8 word"
  nd_value_type :: "8 word"

datatype 'x map_block =
    Blk bytes
  | Nd nhr_map_node
  | St 'x               \<comment> \<open>the structures of other modules\<close>

type_synonym 'x map_heap = "'x map_block heap"

definition zero_node :: nhr_map_node where
  "zero_node = \<lparr>nd_key = None, nd_next = None, nd_value = V_data None, nd_reserved = V_data None,
     nd_value_size = 0, nd_reserved_size = 0, nd_reserved_type = 0, nd_value_type = 0\<rparr>"

definition sizeof_map_node :: nat where "sizeof_map_node = 56"

definition nd_at :: "'x map_heap \<Rightarrow> ptr \<Rightarrow> nhr_map_node res" where
  "nd_at h p =
     (case p of
        None \<Rightarrow> Inl NullDeref
      | Some a \<Rightarrow> (case h_get h a of Some (Nd n) \<Rightarrow> Inr n | _ \<Rightarrow> Inl BadPointer))"

definition value_data :: "nhr_map_value \<Rightarrow> ptr res" where
  "value_data v = (case v of V_data p \<Rightarrow> Inr p | _ \<Rightarrow> Inl BadPointer)"

section \<open>The operations\<close>

definition nhr_map_create :: "'m mach_scheme \<Rightarrow> 'x map_heap \<Rightarrow> (ptr \<times> 'x map_heap) res" where
  "nhr_map_create mc h =
     r_bind (nhr_malloc_zero mc sizeof_map_node)
       (\<lambda>_. case h_new h (Nd zero_node) of (a, h') \<Rightarrow> Inr (Some a, h'))"

partial_function (option) nhr_map_last_loop :: "'x map_heap \<Rightarrow> ptr \<Rightarrow> ptr \<Rightarrow> ptr res option" where
  \<comment> \<open>\<open>None\<close> is a loop that does not end, as on a cyclic list\<close>
  "nhr_map_last_loop h cur lst =
     (if cur = None then Some (Inr lst)
      else case nd_at h cur of
             Inl e \<Rightarrow> Some (Inl e)
           | Inr n \<Rightarrow> nhr_map_last_loop h (nd_next n) cur)"

definition nhr_map_last :: "'x map_heap \<Rightarrow> ptr \<Rightarrow> ptr res option" where
  "nhr_map_last h mp = nhr_map_last_loop h mp mp"

definition nhr_map_append_to ::
    "'m mach_scheme \<Rightarrow> 'x map_heap \<Rightarrow> ptr \<Rightarrow> (ptr \<times> 'x map_heap) res" where
  \<comment> \<open>nhr_map_append after its call of nhr_map_last\<close>
  "nhr_map_append_to mc h lst =
     r_bind (nd_at h lst) (\<lambda>n.
       if nd_value_type n \<noteq> 0
       then r_bind (nhr_map_create mc h) (\<lambda>(p, h').
              Inr (p, h_put h' (the lst) (Nd (n\<lparr>nd_next := p\<rparr>))))
       else Inr (lst, h))"

definition nhr_map_append ::
    "'m mach_scheme \<Rightarrow> 'x map_heap \<Rightarrow> ptr \<Rightarrow> (ptr \<times> 'x map_heap) res option" where
  "nhr_map_append mc h mp =
     map_option (\<lambda>r. r_bind r (nhr_map_append_to mc h)) (nhr_map_last h mp)"

definition free_value :: "'x map_heap \<Rightarrow> 8 word \<Rightarrow> nhr_map_value \<Rightarrow> 'x map_heap res" where
  "free_value h ty v =
     (if ty \<le> NHR_MAP_VALUE_STRING then r_bind (value_data v) (nhr_free h) else Inr h)"

definition nhr_map_delete_node :: "'x map_heap \<Rightarrow> nat \<Rightarrow> nhr_map_node \<Rightarrow> 'x map_heap res" where
  \<comment> \<open>the body of the loop of nhr_map_delete, for the node \<open>last\<close> at \<open>a\<close>\<close>
  "nhr_map_delete_node h a n =
     r_bind (nhr_string_delete h (nd_key n)) (\<lambda>h1.
     r_bind (free_value h1 (nd_value_type n) (nd_value n)) (\<lambda>h2.
     r_bind (free_value h2 (nd_reserved_type n) (nd_reserved n)) (\<lambda>h3.
     nhr_free h3 (Some a))))"

lemma free_value_live: "free_value h ty v = Inr h' \<Longrightarrow> heap_live h' \<le> heap_live h"
  by (auto simp: free_value_def r_bind_Inr_conv heap_live_nhr_free split: if_splits)

lemma nhr_map_delete_node_live:
  assumes "nhr_map_delete_node h a n = Inr h'"
  shows "heap_live h' < heap_live h"
proof -
  from assms obtain h1 h2 h3 where
      h1: "nhr_free h (nd_key n) = Inr h1" and h2: "free_value h1 (nd_value_type n) (nd_value n) = Inr h2"
      and h3: "free_value h2 (nd_reserved_type n) (nd_reserved n) = Inr h3"
      and h': "nhr_free h3 (Some a) = Inr h'"
    by (auto simp: nhr_map_delete_node_def nhr_string_delete_def r_bind_Inr_conv)
  from h' have "heap_live h' < heap_live h3"
    by (auto simp: nhr_free_def heap_live_free split: if_splits)
  with h1 h2 h3 show ?thesis
    by (metis heap_live_nhr_free free_value_live le_trans not_le)
qed

function nhr_map_delete :: "'x map_heap \<Rightarrow> ptr \<Rightarrow> 'x map_heap res" where
  "nhr_map_delete h cur =
     (if cur = None then Inr h
      else r_bind (nd_at h cur) (\<lambda>n.
           r_bind (nhr_map_delete_node h (the cur) n) (\<lambda>h'.
           nhr_map_delete h' (nd_next n))))"
  by pat_completeness auto
termination
  by (relation "measure (\<lambda>(h, cur). heap_live h)") (auto dest: nhr_map_delete_node_live)

declare nhr_map_delete.simps [simp del]

definition nhr_map_delete_clean :: "'x map_heap \<Rightarrow> ptr option \<Rightarrow> (ptr option \<times> 'x map_heap) res" where
  "nhr_map_delete_clean h mp =
     (case mp of
        None \<Rightarrow> Inr (None, h)
      | Some p \<Rightarrow> r_bind (nhr_map_delete h p) (\<lambda>h'. Inr (Some None, h')))"

section \<open>Representation\<close>

fun map_path :: "'x map_heap \<Rightarrow> ptr \<Rightarrow> (nat \<times> nhr_map_node) list \<Rightarrow> bool" where
  "map_path h p [] \<longleftrightarrow> p = None"
| "map_path h p ((a, n) # xs) \<longleftrightarrow> p = Some a \<and> h_get h a = Some (Nd n) \<and> map_path h (nd_next n) xs"

definition value_owned :: "8 word \<Rightarrow> nhr_map_value \<Rightarrow> ptr list" where
  "value_owned ty v = (if ty \<le> NHR_MAP_VALUE_STRING then (case v of V_data p \<Rightarrow> [p] | _ \<Rightarrow> []) else [])"

definition value_wf :: "8 word \<Rightarrow> nhr_map_value \<Rightarrow> bool" where
  "value_wf ty v \<longleftrightarrow> (ty \<le> NHR_MAP_VALUE_STRING \<longrightarrow> (\<exists>p. v = V_data p))"

definition node_owned :: "nat \<times> nhr_map_node \<Rightarrow> ptr list" where
  "node_owned x = (case x of (a, n) \<Rightarrow>
     [nd_key n] @ value_owned (nd_value_type n) (nd_value n)
       @ value_owned (nd_reserved_type n) (nd_reserved n) @ [Some a])"

definition map_owned :: "(nat \<times> nhr_map_node) list \<Rightarrow> ptr list" where
  "map_owned xs = concat (map node_owned xs)"

definition load :: "'x map_heap \<Rightarrow> ptr \<Rightarrow> bytes option" where
  "load h p = (case p of None \<Rightarrow> None
                | Some a \<Rightarrow> (case h_get h a of Some (Blk b) \<Rightarrow> Some b | _ \<Rightarrow> None))"

abbreviation addresses :: "ptr list \<Rightarrow> nat list" where
  "addresses ps \<equiv> concat (map (case_option [] (\<lambda>a. [a])) ps)"

definition map_wf :: "'x map_heap \<Rightarrow> ptr \<Rightarrow> (nat \<times> nhr_map_node) list \<Rightarrow> bool" where
  "map_wf h p xs \<longleftrightarrow>
     map_path h p xs \<and> distinct (addresses (map_owned xs))
     \<and> (\<forall>a. Some a \<in> set (map_owned xs) \<longrightarrow> h_get h a \<noteq> None)
     \<and> (\<forall>(a, n) \<in> set xs. value_wf (nd_value_type n) (nd_value n)
                        \<and> value_wf (nd_reserved_type n) (nd_reserved n))"

lemma in_addresses: "a \<in> set (addresses ps) \<longleftrightarrow> Some a \<in> set ps"
  by (auto split: option.splits)

lemma addresses_append: "addresses (ps @ qs) = addresses ps @ addresses qs"
  by simp

lemma map_owned_simps [simp]:
  "map_owned [] = []"
  "map_owned (x # xs) = node_owned x @ map_owned xs"
  "map_owned (xs @ ys) = map_owned xs @ map_owned ys"
  by (simp_all add: map_owned_def)

lemma node_addr_owned: "(a, n) \<in> set xs \<Longrightarrow> Some a \<in> set (map_owned xs)"
  by (auto simp: map_owned_def node_owned_def intro!: bexI [of _ "(a, n)"])

lemma map_path_node: "map_path h p xs \<Longrightarrow> (a, n) \<in> set xs \<Longrightarrow> h_get h a = Some (Nd n)"
  by (induction xs arbitrary: p) auto

lemma map_path_cong:
  "map_path h p xs \<Longrightarrow> (\<forall>a \<in> fst ` set xs. h_get h' a = h_get h a) \<Longrightarrow> map_path h' p xs"
  by (induction xs arbitrary: p) auto

lemma map_path_link:
  assumes "map_path h p (xs @ [(a, n)])"
    and "h_get h' a = Some (Nd (n\<lparr>nd_next := q\<rparr>))" "map_path h' q ys"
    and "\<forall>x \<in> fst ` set xs. h_get h' x = h_get h x"
  shows "map_path h' p (xs @ (a, n\<lparr>nd_next := q\<rparr>) # ys)"
  using assms by (induction xs arbitrary: p) auto

section \<open>Finding the last node and appending\<close>

lemma nhr_map_last_loop_path:
  "map_path h p xs \<Longrightarrow>
     nhr_map_last_loop h p lst = Some (Inr (if xs = [] then lst else Some (fst (last xs))))"
proof (induction xs arbitrary: p lst)
  case Nil
  then show ?case by (simp add: nhr_map_last_loop.simps)
next
  case (Cons x xs)
  obtain a n where x: "x = (a, n)" by (cases x)
  with Cons.prems have "p = Some a" "nd_at h p = Inr n" "map_path h (nd_next n) xs"
    by (auto simp: nd_at_def)
  with Cons.IH [of "nd_next n" p] x show ?case
    by (subst nhr_map_last_loop.simps) auto
qed

lemma nhr_map_last_path:
  "map_path h p xs \<Longrightarrow> xs \<noteq> [] \<Longrightarrow> nhr_map_last h p = Some (Inr (Some (fst (last xs))))"
  by (simp add: nhr_map_last_def nhr_map_last_loop_path)

text \<open>A cyclic list, by contrast, is searched for ever.\<close>

lemma nhr_map_last_cyclic:
  "nhr_map_last ([Some (Nd (zero_node\<lparr>nd_next := Some 0\<rparr>))] :: 'x map_heap) (Some 0) = None"
proof -
  let ?h = "[Some (Nd (zero_node\<lparr>nd_next := Some 0\<rparr>))] :: 'x map_heap"
  have "h = ?h \<longrightarrow> c \<noteq> Some 0" if "nhr_map_last_loop h c l = Some r" for h c l r
  proof (rule nhr_map_last_loop.raw_induct [where P = "\<lambda>h c l r. h = ?h \<longrightarrow> c \<noteq> Some 0", OF _ that])
    fix f h c l r
    assume IH: "\<And>h c l r. f h c l = Some r \<Longrightarrow> h = ?h \<longrightarrow> c \<noteq> Some 0"
      and eq: "(if c = None then Some (Inr l)
        else case nd_at h c of Inl e \<Rightarrow> Some (Inl e) | Inr n \<Rightarrow> f h (nd_next n) c) = Some r"
    show "h = ?h \<longrightarrow> c \<noteq> Some 0"
      using IH [of h "Some 0" "Some 0"] eq by (auto simp: nd_at_def h_get_def)
  qed
  then show ?thesis by (cases "nhr_map_last_loop ?h (Some 0) (Some 0)") (auto simp: nhr_map_last_def)
qed

definition sizes_fit :: "'m mach_scheme \<Rightarrow> bool" where
  "sizes_fit mc \<longleftrightarrow> sizeof_map_node \<le> mc_limit mc"

lemma nhr_map_create_eq:
  "sizes_fit mc \<Longrightarrow> nhr_map_create mc h = Inr (Some (length h), h @ [Some (Nd zero_node)])"
  by (simp add: nhr_map_create_def nhr_malloc_zero_def nhr_malloc_ok sizes_fit_def sizeof_map_node_def
      h_new_def)

lemma zero_node_sel [simp]:
  "nd_key zero_node = None" "nd_next zero_node = None" "nd_value zero_node = V_data None"
  "nd_reserved zero_node = V_data None" "nd_value_type zero_node = 0"
  "nd_reserved_type zero_node = 0" "nd_value_size zero_node = 0" "nd_reserved_size zero_node = 0"
  by (simp_all add: zero_node_def)

lemma node_owned_zero [simp]: "node_owned (a, zero_node) = [None, None, None, Some a]"
  by (simp add: node_owned_def value_owned_def zero_node_def NHR_MAP_VALUE_defs)

lemma value_wf_data [simp]:
  "value_wf ty (V_data q)"
  by (simp add: value_wf_def)

lemma node_owned_next [simp]: "node_owned (a, n\<lparr>nd_next := q\<rparr>) = node_owned (a, n)"
  by (simp add: node_owned_def)

lemma map_create_wf:
  assumes "sizes_fit mc"
  shows "\<exists>p h'. nhr_map_create mc h = Inr (p, h') \<and> map_wf h' p [(length h, zero_node)]"
  using assms
  by (auto simp: nhr_map_create_eq map_wf_def h_get_def nth_append)

text \<open>The list that an append leaves: a zero node at the end, whether new or found there.\<close>

definition append_path ::
    "'x map_heap \<Rightarrow> (nat \<times> nhr_map_node) list \<Rightarrow> (nat \<times> nhr_map_node) list" where
  "append_path h xs =
     (if nd_value_type (snd (last xs)) = 0 then xs
      else butlast xs @ [(fst (last xs), (snd (last xs))\<lparr>nd_next := Some (length h)\<rparr>),
                         (length h, zero_node)])"

lemma nhr_map_append_wf:
  assumes "map_wf h p xs" "xs \<noteq> []" "sizes_fit mc"
  shows "\<exists>h'. nhr_map_append mc h p = Some (Inr (Some (fst (last (append_path h xs))), h'))
           \<and> map_wf h' p (append_path h xs)
           \<and> (\<forall>q. load h' q = load h q)
           \<and> (\<forall>x. x \<notin> fst ` set (append_path h xs) \<longrightarrow> h_get h' x = h_get h x)"
proof -
  obtain ys a n where xs: "xs = ys @ [(a, n)]"
    using assms(2) by (metis append_butlast_last_id surj_pair)
  have path: "map_path h p (ys @ [(a, n)])" using assms(1) xs by (simp add: map_wf_def)
  then have a: "h_get h a = Some (Nd n)" by (auto intro: map_path_node)
  have last: "nhr_map_last h p = Some (Inr (Some a))"
    using nhr_map_last_path [OF path] by simp
  have dist: "distinct (addresses (map_owned xs))" using assms(1) by (simp add: map_wf_def)
  have ys: "x \<noteq> a" if "x \<in> fst ` set ys" for x
  proof
    assume "x = a"
    with that have "a \<in> set (addresses (map_owned ys))"
      by (auto simp: in_addresses intro: node_addr_owned)
    moreover have "a \<in> set (addresses (node_owned (a, n)))"
      by (auto simp: node_owned_def)
    ultimately show False using dist xs by auto
  qed
  have al: "h_get h x \<noteq> None" if "Some x \<in> set (map_owned xs)" for x
    using assms(1) that by (simp add: map_wf_def)
  show ?thesis
  proof (cases "nd_value_type n = 0")
    case True
    then show ?thesis
      using assms(1) last a xs by (simp add: nhr_map_append_def nhr_map_append_to_def nd_at_def append_path_def)
  next
    case False
    let ?h1 = "h @ [Some (Nd zero_node)]"
    let ?h' = "h_put ?h1 a (Nd (n\<lparr>nd_next := Some (length h)\<rparr>))"
    have get1: "h_get ?h1 x = (if x = length h then Some (Nd zero_node) else h_get h x)" for x
      using h_get_new(1) [of h "Nd zero_node" x] by (simp add: h_new_def)
    have fresh: "h_get h (length h) = None" by simp
    with a have ne: "a \<noteq> length h" by auto
    have get: "h_get ?h' x = (if x = a then Some (Nd (n\<lparr>nd_next := Some (length h)\<rparr>))
        else if x = length h then Some (Nd zero_node) else h_get h x)" for x
      using a ne by (subst h_get_put) (auto simp: get1)
    have ysf: "\<forall>x \<in> fst ` set ys. h_get ?h' x = h_get h x"
    proof
      fix x assume x: "x \<in> fst ` set ys"
      then have "Some x \<in> set (map_owned ys)" by (auto intro: node_addr_owned)
      then have "h_get h x \<noteq> None" using al xs by simp
      then show "h_get ?h' x = h_get h x" using ys [OF x] fresh by (auto simp: get)
    qed
    have "map_path ?h' p (ys @ (a, n\<lparr>nd_next := Some (length h)\<rparr>) # [(length h, zero_node)])"
      using path ysf ne by (intro map_path_link [OF path]) (simp_all add: get)
    moreover have "length h \<notin> set (addresses (map_owned xs))"
      using al [of "length h"] fresh unfolding in_addresses by auto
    ultimately have "map_wf ?h' p (append_path h xs)"
      using assms(1) False xs dist al a ne
      by (auto simp: map_wf_def append_path_def get)
    moreover have "nhr_map_append mc h p = Some (Inr (Some (length h), ?h'))"
      using last a False assms(3)
      by (simp add: nhr_map_append_def nhr_map_append_to_def nd_at_def nhr_map_create_eq)
    ultimately show ?thesis
      using xs False fresh a by (auto simp: append_path_def get load_def split: option.splits)
  qed
qed

section \<open>Deleting\<close>

lemma free_value_owned:
  "value_wf ty v \<Longrightarrow> free_value h ty v = heap.release_all h (value_owned ty v)"
  by (auto simp: free_value_def value_owned_def value_wf_def value_data_def)

lemma nhr_map_delete_node_owned:
  assumes "value_wf (nd_value_type n) (nd_value n)" "value_wf (nd_reserved_type n) (nd_reserved n)"
  shows "nhr_map_delete_node h a n = heap.release_all h (node_owned (a, n))"
  using assms
  by (simp add: nhr_map_delete_node_def node_owned_def nhr_string_delete_def free_value_owned
      heap.release_all_append)

lemma distinct_addresses_append:
  "distinct (addresses (ps @ qs)) \<Longrightarrow> Some a \<in> set ps \<Longrightarrow> Some a \<notin> set qs"
  using in_addresses [of a ps] in_addresses [of a qs] by auto

lemma nhr_map_delete_eq:
  "map_wf h p xs \<Longrightarrow> nhr_map_delete h p = heap.release_all h (map_owned xs)"
proof (induction xs arbitrary: h p)
  case Nil
  then show ?case by (simp add: map_wf_def nhr_map_delete.simps)
next
  case (Cons x xs)
  obtain a n where x: "x = (a, n)" by (cases x)
  note wf = Cons.prems [unfolded map_wf_def]
  have p: "p = Some a" "nd_at h p = Inr n" "map_path h (nd_next n) xs"
    using wf x by (auto simp: nd_at_def)
  have dist: "distinct (addresses (node_owned x @ map_owned xs))" using wf by simp
  then have "distinct (addresses (node_owned x))" by simp
  moreover have "h_get h b \<noteq> None" if "Some b \<in> set (node_owned x)" for b
    using wf that by simp
  ultimately obtain h' where h': "heap.release_all h (node_owned x) = Inr h'"
      "\<forall>b. h_get h' b = (if Some b \<in> set (node_owned x) then None else h_get h b)"
    using heap.release_all_ok [of "node_owned x" h] by blast
  have keep: "h_get h' b = h_get h b" if "Some b \<in> set (map_owned xs)" for b
    using h'(2) distinct_addresses_append [OF dist, of b] that by auto
  have "map_path h' (nd_next n) xs"
    using p(3) keep [OF node_addr_owned] by (auto intro!: map_path_cong [of h])
  with wf keep have "map_wf h' (nd_next n) xs" by (auto simp: map_wf_def)
  then have "nhr_map_delete h' (nd_next n) = heap.release_all h' (map_owned xs)"
    by (rule Cons.IH)
  moreover have "nhr_map_delete_node h a n = Inr h'"
    using wf x h'(1) by (simp add: nhr_map_delete_node_owned)
  ultimately show ?case
    using p x h'(1) by (subst nhr_map_delete.simps) (simp add: heap.release_all_append)
qed

lemma nhr_map_delete_frees:
  assumes "map_wf h p xs"
  shows "\<exists>h'. nhr_map_delete h p = Inr h' \<and>
           (\<forall>a. h_get h' a = (if Some a \<in> set (map_owned xs) then None else h_get h a))"
  unfolding nhr_map_delete_eq [OF assms]
  by (rule heap.release_all_ok) (use assms in \<open>auto simp: map_wf_def\<close>)

section \<open>The list of entries\<close>

text \<open>
  What a map says to its reader: for each node the blocks behind its pointers. The request
  works with this list; \<open>None\<close> is the NULL map.
\<close>

record map_entry =
  me_key :: "bytes option"
  me_value :: "bytes option"
  me_reserved :: "bytes option"
  me_value_size :: nat
  me_reserved_size :: nat
  me_reserved_type :: "8 word"
  me_value_type :: "8 word"

definition zero_entry :: map_entry where
  "zero_entry = \<lparr>me_key = None, me_value = None, me_reserved = None, me_value_size = 0,
     me_reserved_size = 0, me_reserved_type = 0, me_value_type = 0\<rparr>"

definition load_value :: "'x map_heap \<Rightarrow> nhr_map_value \<Rightarrow> bytes option" where
  "load_value h v = (case v of V_data p \<Rightarrow> load h p | _ \<Rightarrow> None)"

definition entry_of :: "'x map_heap \<Rightarrow> nhr_map_node \<Rightarrow> map_entry" where
  "entry_of h n = \<lparr>me_key = load h (nd_key n), me_value = load_value h (nd_value n),
     me_reserved = load_value h (nd_reserved n), me_value_size = nd_value_size n,
     me_reserved_size = nd_reserved_size n, me_reserved_type = nd_reserved_type n,
     me_value_type = nd_value_type n\<rparr>"

definition map_entries :: "'x map_heap \<Rightarrow> (nat \<times> nhr_map_node) list \<Rightarrow> map_entry list" where
  "map_entries h xs = map (\<lambda>(a, n). entry_of h n) xs"

definition entries_create :: "'m mach_scheme \<Rightarrow> map_entry list res" where
  "entries_create mc = r_bind (nhr_malloc_zero mc sizeof_map_node) (\<lambda>_. Inr [zero_entry])"

definition entries_append :: "'m mach_scheme \<Rightarrow> map_entry list \<Rightarrow> map_entry list res" where
  \<comment> \<open>the list in which the node that nhr_map_append returns is the last\<close>
  "entries_append mc es =
     (if es = [] then Inl NullDeref
      else if me_value_type (last es) \<noteq> 0
           then r_bind (nhr_malloc_zero mc sizeof_map_node) (\<lambda>_. Inr (es @ [zero_entry]))
           else Inr es)"

definition entries_set_last :: "(map_entry \<Rightarrow> map_entry) \<Rightarrow> map_entry list \<Rightarrow> map_entry list" where
  "entries_set_last f es = butlast es @ [f (last es)]"

lemma entries_create_eq: "sizes_fit mc \<Longrightarrow> entries_create mc = Inr [zero_entry]"
  by (simp add: entries_create_def nhr_malloc_zero_def nhr_malloc_ok sizes_fit_def sizeof_map_node_def)

lemma entries_append_eq:
  "sizes_fit mc \<Longrightarrow> es \<noteq> [] \<Longrightarrow>
     entries_append mc es = Inr (if me_value_type (last es) = 0 then es else es @ [zero_entry])"
  by (simp add: entries_append_def nhr_malloc_zero_def nhr_malloc_ok sizes_fit_def sizeof_map_node_def)

lemma entry_of_zero [simp]: "entry_of h zero_node = zero_entry"
  by (simp add: entry_of_def zero_entry_def load_def load_value_def)

lemma entry_of_next [simp]: "entry_of h (n\<lparr>nd_next := q\<rparr>) = entry_of h n"
  by (simp add: entry_of_def)

lemma map_entries_append_path:
  assumes "xs \<noteq> []" "\<And>q. load h' q = load h q"
  shows "map_entries h' (append_path h xs) =
     (if me_value_type (last (map_entries h xs)) = 0 then map_entries h xs
      else map_entries h xs @ [zero_entry])"
proof -
  have e: "entry_of h' n = entry_of h n" for n
    using assms(2) by (auto simp: entry_of_def load_value_def split: nhr_map_value.split)
  obtain ys a n where xs: "xs = ys @ [(a, n)]"
    using assms(1) by (metis append_butlast_last_id surj_pair)
  have "me_value_type (entry_of h n) = nd_value_type n" by (simp add: entry_of_def)
  then show ?thesis by (simp add: xs append_path_def map_entries_def e)
qed

text \<open>
  C19: nhr_map_append on a well-formed linked list of the heap returns the address of the last
  node of the list it leaves, the list stays well-formed, and what the list says changes
  exactly as the append of the list of entries says.
\<close>

theorem map_append_refines:
  assumes "map_wf h p xs" "xs \<noteq> []" "sizes_fit mc"
  shows "\<exists>h' ys. nhr_map_append mc h p = Some (Inr (Some (fst (last ys)), h'))
           \<and> map_wf h' p ys \<and> entries_append mc (map_entries h xs) = Inr (map_entries h' ys)"
proof -
  obtain h' where h': "nhr_map_append mc h p = Some (Inr (Some (fst (last (append_path h xs))), h'))"
      "map_wf h' p (append_path h xs)" "\<forall>q. load h' q = load h q"
    using nhr_map_append_wf [OF assms] by blast
  have "map_entries h xs \<noteq> []" using assms(2) by (simp add: map_entries_def)
  with h' show ?thesis
    using map_entries_append_path [OF assms(2), of h' h] assms(3) by (auto simp: entries_append_eq)
qed

definition example_mach :: mach where "example_mach = \<lparr>mc_fill = CHR ''?'', mc_limit = 4096\<rparr>"

definition example_map :: "unit map_heap" where
  "example_map =
     [Some (Blk (cstr ''Accept'')), Some (Blk (cstr ''*'')),
      Some (Nd (zero_node\<lparr>nd_key := Some 0, nd_value := V_data (Some 1), nd_value_size := 1,
        nd_value_type := NHR_MAP_VALUE_STRING\<rparr>))]"

lemma example_map_wf:
  "map_wf example_map (Some 2) [(2, zero_node\<lparr>nd_key := Some 0, nd_value := V_data (Some 1),
     nd_value_size := 1, nd_value_type := NHR_MAP_VALUE_STRING\<rparr>)]"
  by (auto simp: map_wf_def example_map_def h_get_def node_owned_def value_owned_def
      NHR_MAP_VALUE_defs less_Suc_eq numeral_3_eq_3)

lemma example_mach_fits: "sizes_fit example_mach"
  by (simp add: sizes_fit_def sizeof_map_node_def example_mach_def)

theorem map_append_refines_witness:
  "\<exists>h' ys. nhr_map_append example_mach example_map (Some 2) = Some (Inr (Some (fst (last ys)), h'))
     \<and> map_wf h' (Some 2) ys"
  using map_append_refines [OF example_map_wf _ example_mach_fits] by blast

text \<open>
  C20: nhr_map_delete on a well-formed list frees, each once, every node, every key and every
  value its node owns (\<open>value_type\<close> at most \<open>NHR_MAP_VALUE_STRING\<close>), meets no fault, and
  touches no other block: deleting the list again is a fault, not a second free.
\<close>

theorem map_delete_frees_all:
  assumes "map_wf h p xs"
  shows "\<exists>h'. nhr_map_delete h p = Inr h' \<and>
           (\<forall>a. h_get h' a = (if Some a \<in> set (map_owned xs) then None else h_get h a))
           \<and> (xs \<noteq> [] \<longrightarrow> nhr_map_delete h' p = Inl BadPointer)"
proof -
  obtain h' where h': "nhr_map_delete h p = Inr h'"
      "\<forall>a. h_get h' a = (if Some a \<in> set (map_owned xs) then None else h_get h a)"
    using nhr_map_delete_frees [OF assms] by blast
  have "nhr_map_delete h' p = Inl BadPointer" if ne: "xs \<noteq> []"
  proof -
    obtain a n ys where xs: "xs = (a, n) # ys" using ne by (cases xs) auto
    with assms have "p = Some a" by (simp add: map_wf_def)
    moreover from xs have "Some a \<in> set (map_owned xs)" by (simp add: node_owned_def)
    with h'(2) have "h_get h' a = None" by simp
    ultimately show ?thesis by (subst nhr_map_delete.simps) (simp add: nd_at_def)
  qed
  with h' show ?thesis by blast
qed

theorem map_delete_frees_all_witness:
  "\<exists>h'. nhr_map_delete example_map (Some 2) = Inr h' \<and> (\<forall>a. h_get h' a = None)"
proof -
  have "h_get example_map a = None" if "a \<noteq> 0" "a \<noteq> 1" "a \<noteq> 2" for a
    using that by (simp add: example_map_def h_get_def)
  with map_delete_frees_all [OF example_map_wf] show ?thesis
    by (fastforce simp: node_owned_def value_owned_def NHR_MAP_VALUE_defs)
qed

end
