(* ===== verification/Nhr_Request.thy ===== *)
theory Nhr_Request
  imports Nhr_Map Nhr_Response
begin

text \<open>
  The request and its public interface (nhr_request.h, nhr_request_public.c), with the
  boundary of nhr_request_method_post.c. A handle is \<open>None\<close> for NULL; strings, maps and
  the response belong to the request and are modelled by value, the thread, the user object
  and the callbacks are opaque handles. What the worker thread does with a request is in
  \<open>Nhr_Worker\<close>; the mutexes are in \<open>Nhr_Thread\<close>.
\<close>

section \<open>Commands, methods, error codes\<close>

datatype nhr_command =
    NHR_COMMAND_IDLE | NHR_COMMAND_NONE | NHR_COMMAND_CONNECT_TO_HOST
  | NHR_COMMAND_SEND_RAW_REQUEST | NHR_COMMAND_START_WAITING_RAW_RESPONSE
  | NHR_COMMAND_WAIT_RAW_RESPONSE | NHR_COMMAND_INFORM_RESPONSE | NHR_COMMAND_INFORM_ERROR
  | NHR_COMMAND_END

fun command_code :: "nhr_command \<Rightarrow> int" where
  "command_code NHR_COMMAND_IDLE = -1"
| "command_code NHR_COMMAND_NONE = 0"
| "command_code NHR_COMMAND_CONNECT_TO_HOST = 1"
| "command_code NHR_COMMAND_SEND_RAW_REQUEST = 2"
| "command_code NHR_COMMAND_START_WAITING_RAW_RESPONSE = 3"
| "command_code NHR_COMMAND_WAIT_RAW_RESPONSE = 4"
| "command_code NHR_COMMAND_INFORM_RESPONSE = 5"
| "command_code NHR_COMMAND_INFORM_ERROR = 6"
| "command_code NHR_COMMAND_END = 9999"

lemma command_code_inject: "command_code a = command_code b \<longleftrightarrow> a = b"
  by (cases a; cases b) auto

text \<open>Commands are compared as the integers they are in C.\<close>

instantiation nhr_command :: linorder
begin

definition less_eq_nhr_command :: "nhr_command \<Rightarrow> nhr_command \<Rightarrow> bool" where
  "less_eq_nhr_command a b \<longleftrightarrow> command_code a \<le> command_code b"

definition less_nhr_command :: "nhr_command \<Rightarrow> nhr_command \<Rightarrow> bool" where
  "less_nhr_command a b \<longleftrightarrow> command_code a < command_code b"

instance
  by standard (auto simp: less_eq_nhr_command_def less_nhr_command_def command_code_inject [symmetric])

end

lemma command_less_END [simp]: "c < NHR_COMMAND_END \<longleftrightarrow> c \<noteq> NHR_COMMAND_END"
  by (cases c) (auto simp: less_nhr_command_def)

datatype nhr_method = nhr_method_GET | nhr_method_POST

datatype nhr_error_code =
    nhr_error_code_none | nhr_error_code_missed_parameter
  | nhr_error_code_failed_connect_to_host | nhr_error_code_timeout

type_synonym handle = "nat option"

definition NHR_INVALID_SOCKET :: int where "NHR_INVALID_SOCKET = -1"

record nhr_request =
  rq_port :: "16 word"
  rq_socket :: int
  rq_scheme :: "bytes option"
  rq_host :: "bytes option"
  rq_path :: "bytes option"
  rq_method :: "nhr_method option"       \<comment> \<open>\<open>None\<close> is the 0 of a request whose method is not set\<close>
  rq_work_thread :: handle
  rq_command :: nhr_command
  rq_timeout :: int
  rq_last_time :: int
  rq_error_code :: nhr_error_code
  rq_user_object :: handle
  rq_http_headers :: "map_entry list option"
  rq_parameters :: "map_entry list option"
  rq_on_recvd_response :: handle
  rq_on_error :: handle
  rq_response :: "nhr_response option"
  rq_is_gziped :: bool
  rq_is_deflated :: bool
  rq_boundary :: "bytes option"
  rq_is_have_data_parameter :: bool

definition sizeof_request :: nat where "sizeof_request = 176"

section \<open>Creation and settings\<close>

definition new_request :: nhr_request where
  "new_request = \<lparr>rq_port = 0, rq_socket = NHR_INVALID_SOCKET, rq_scheme = None, rq_host = None,
     rq_path = None, rq_method = None, rq_work_thread = None, rq_command = NHR_COMMAND_NONE,
     rq_timeout = 30, rq_last_time = 0, rq_error_code = nhr_error_code_none, rq_user_object = None,
     rq_http_headers = None, rq_parameters = None, rq_on_recvd_response = None, rq_on_error = None,
     rq_response = None, rq_is_gziped = False, rq_is_deflated = False, rq_boundary = None,
     rq_is_have_data_parameter = False\<rparr>"

definition nhr_request_create :: "'m mach_scheme \<Rightarrow> nhr_request option res" where
  "nhr_request_create mc = r_bind (nhr_malloc_zero mc sizeof_request) (\<lambda>_. Inr (Some new_request))"

definition nhr_request_set_url ::
    "'m mach_scheme \<Rightarrow> nhr_request option \<Rightarrow> bytes option \<Rightarrow> bytes option \<Rightarrow> bytes option \<Rightarrow> 16 word
       \<Rightarrow> nhr_request option res" where
  "nhr_request_set_url mc request scheme host path port =
     (case request of
        None \<Rightarrow> Inr None
      | Some r \<Rightarrow>
          r_bind (nhr_string_copy mc scheme) (\<lambda>s.
          r_bind (nhr_string_copy mc host) (\<lambda>h.
          r_bind (nhr_string_copy mc path) (\<lambda>p.
          Inr (Some (r\<lparr>rq_scheme := s, rq_host := h, rq_path := p, rq_port := port\<rparr>))))))"

definition nhr_request_set_method :: "nhr_request option \<Rightarrow> nhr_method option \<Rightarrow> nhr_request option" where
  "nhr_request_set_method request m = map_option (\<lambda>r. r\<lparr>rq_method := m\<rparr>) request"

definition nhr_request_set_on_recvd_response :: "nhr_request option \<Rightarrow> handle \<Rightarrow> nhr_request option" where
  "nhr_request_set_on_recvd_response request callback =
     map_option (\<lambda>r. r\<lparr>rq_on_recvd_response := callback\<rparr>) request"

definition nhr_request_set_on_error :: "nhr_request option \<Rightarrow> handle \<Rightarrow> nhr_request option" where
  "nhr_request_set_on_error request callback =
     map_option (\<lambda>r. r\<lparr>rq_on_error := callback\<rparr>) request"

definition nhr_request_get_error_code :: "nhr_request option \<Rightarrow> nhr_error_code" where
  "nhr_request_get_error_code request =
     (case request of None \<Rightarrow> nhr_error_code_none | Some r \<Rightarrow> rq_error_code r)"

definition nhr_request_set_user_object :: "nhr_request option \<Rightarrow> handle \<Rightarrow> nhr_request option" where
  "nhr_request_set_user_object request obj = map_option (\<lambda>r. r\<lparr>rq_user_object := obj\<rparr>) request"

definition nhr_request_get_user_object :: "nhr_request option \<Rightarrow> handle" where
  "nhr_request_get_user_object request =
     (case request of None \<Rightarrow> None | Some r \<Rightarrow> rq_user_object r)"

definition nhr_request_set_timeout :: "nhr_request option \<Rightarrow> 32 word \<Rightarrow> nhr_request option" where
  "nhr_request_set_timeout request seconds =
     map_option (\<lambda>r. r\<lparr>rq_timeout := uint seconds\<rparr>) request"

definition nhr_request_get_timeout :: "nhr_request option \<Rightarrow> 32 word" where
  "nhr_request_get_timeout request =
     (case request of None \<Rightarrow> 0 | Some r \<Rightarrow> word_of_int (rq_timeout r))"

section \<open>Commands and closing\<close>

definition nhr_request_set_command :: "nhr_request \<Rightarrow> nhr_command \<Rightarrow> nhr_request" where
  "nhr_request_set_command r command = r\<lparr>rq_command := command\<rparr>"

definition nhr_request_get_command :: "nhr_request \<Rightarrow> nhr_command" where
  "nhr_request_get_command r = rq_command r"

definition nhr_request_create_start_work_thread :: "handle \<Rightarrow> nhr_request \<Rightarrow> bool \<times> nhr_request" where
  \<comment> \<open>given the answer of nhr_thread_create\<close>
  "nhr_request_create_start_work_thread th r =
     (let r = nhr_request_set_command r NHR_COMMAND_NONE;
          r = r\<lparr>rq_work_thread := th\<rparr> in
      if rq_work_thread r \<noteq> None
      then (True, nhr_request_set_command r NHR_COMMAND_CONNECT_TO_HOST)
      else (False, r))"

definition nhr_request_send :: "handle \<Rightarrow> nhr_request option \<Rightarrow> bool \<times> nhr_request option" where
  "nhr_request_send th request =
     (case request of
        None \<Rightarrow> (False, None)
      | Some r \<Rightarrow>
          if rq_scheme r = None \<or> rq_host r = None \<or> rq_path r = None \<or> rq_method r = None
             \<or> rq_on_recvd_response r = None \<or> rq_on_error r = None
          then (False, Some (r\<lparr>rq_error_code := nhr_error_code_missed_parameter\<rparr>))
          else let (b, r) = nhr_request_create_start_work_thread th
                              (r\<lparr>rq_error_code := nhr_error_code_none\<rparr>)
               in (b, Some r))"

definition nhr_request_close :: "nhr_request \<Rightarrow> nhr_request" where
  "nhr_request_close r =
     (if rq_socket r \<noteq> NHR_INVALID_SOCKET then r\<lparr>rq_socket := NHR_INVALID_SOCKET\<rparr> else r)"

definition nhr_request_cancel :: "nhr_request option \<Rightarrow> nhr_request option" where
  \<comment> \<open>\<open>None\<close> for a request that is deleted\<close>
  "nhr_request_cancel request =
     (case request of
        None \<Rightarrow> None
      | Some r \<Rightarrow>
          if rq_work_thread r \<noteq> None then Some (nhr_request_set_command r NHR_COMMAND_END)
          else None)"

section \<open>Header fields and parameters\<close>

definition strlen_or_0 :: "bytes option \<Rightarrow> nat res" where
  "strlen_or_0 s = (case s of None \<Rightarrow> Inr 0 | Some p \<Rightarrow> strlen p)"

definition entries_next :: "'m mach_scheme \<Rightarrow> map_entry list option \<Rightarrow> map_entry list res" where
  \<comment> \<open>create the map if there is none, then append: the slot to fill is the last\<close>
  "entries_next mc m =
     r_bind (case m of None \<Rightarrow> entries_create mc | Some es \<Rightarrow> Inr es) (entries_append mc)"

definition string_entry ::
    "'m mach_scheme \<Rightarrow> map_entry list option \<Rightarrow> bytes option \<Rightarrow> nat \<Rightarrow> bytes option \<Rightarrow> nat
       \<Rightarrow> map_entry list res" where
  "string_entry mc m name name_len val val_len =
     r_bind (entries_next mc m) (\<lambda>es.
     r_bind (nhr_string_copy_len mc name name_len) (\<lambda>k.
     r_bind (nhr_string_copy_len mc val val_len) (\<lambda>v.
     Inr (entries_set_last (\<lambda>e. e\<lparr>me_key := k, me_value := v, me_value_size := val_len,
                                  me_value_type := NHR_MAP_VALUE_STRING\<rparr>) es))))"

definition rq_add_header_field ::
    "'m mach_scheme \<Rightarrow> nhr_request \<Rightarrow> bytes option \<Rightarrow> bytes option \<Rightarrow> nhr_request res" where
  "rq_add_header_field mc r name val =
     r_bind (strlen_or_0 name) (\<lambda>name_len.
     r_bind (strlen_or_0 val) (\<lambda>val_len.
     if name_len = 0 \<or> val_len = 0 then Inr r
     else r_bind (string_entry mc (rq_http_headers r) name name_len val val_len) (\<lambda>es.
          r_bind (c_string (blk_bytes val)) (\<lambda>v.
          let r = r\<lparr>rq_http_headers := Some es\<rparr>;
              r = (if v = k_nhr_gzip then r\<lparr>rq_is_gziped := True\<rparr> else r);
              r = (if v = k_nhr_deflate then r\<lparr>rq_is_deflated := True\<rparr> else r) in
          Inr r))))"

definition nhr_request_add_header_field ::
    "'m mach_scheme \<Rightarrow> nhr_request option \<Rightarrow> bytes option \<Rightarrow> bytes option \<Rightarrow> nhr_request option res" where
  "nhr_request_add_header_field mc request name val =
     (case request of
        None \<Rightarrow> Inr None
      | Some r \<Rightarrow> r_bind (rq_add_header_field mc r name val) (\<lambda>r. Inr (Some r)))"

definition nhr_request_add_parameter ::
    "'m mach_scheme \<Rightarrow> nhr_request option \<Rightarrow> bytes option \<Rightarrow> bytes option \<Rightarrow> nhr_request option res" where
  "nhr_request_add_parameter mc request name val =
     (case request of
        None \<Rightarrow> Inr None
      | Some r \<Rightarrow>
          r_bind (strlen_or_0 name) (\<lambda>name_len.
          r_bind (strlen_or_0 val) (\<lambda>val_len.
          if name_len = 0 \<or> val_len = 0 then Inr (Some r)
          else r_bind (r_check (rq_method r \<noteq> None) AssertFailed) (\<lambda>_.
               r_bind (string_entry mc (rq_parameters r) name name_len val val_len) (\<lambda>es.
               Inr (Some (r\<lparr>rq_parameters := Some es\<rparr>)))))))"

definition NHR_POST_BOUNDARY_LEN :: nat where "NHR_POST_BOUNDARY_LEN = 12"

definition boundary_charset :: string where
  "boundary_charset = ''0123456789ABCDEFGHIJKLMNOPQRSTUVWXYZabcdefghijklmnopqrstuvwxyz''"

definition nhr_request_generate_new_boundary :: "'z gz_mach \<Rightarrow> nhr_request \<Rightarrow> nhr_request res" where
  "nhr_request_generate_new_boundary mc r =
     (let boundary = map (\<lambda>i. boundary_charset ! (gz_rand mc (gz_time mc mod 2 ^ 32) i mod 62))
                         [0 ..< NHR_POST_BOUNDARY_LEN] in
      r_bind (nhr_string_copy_len mc (Some boundary) NHR_POST_BOUNDARY_LEN) (\<lambda>b.
      Inr (r\<lparr>rq_boundary := b\<rparr>)))"

definition nhr_request_add_data_parameter ::
    "'z gz_mach \<Rightarrow> nhr_request option \<Rightarrow> bytes option \<Rightarrow> bytes option \<Rightarrow> bytes option \<Rightarrow> nat
       \<Rightarrow> nhr_request option res" where
  "nhr_request_add_data_parameter mc request name file_name data data_size =
     (case (request, data) of
        (Some r, Some d) \<Rightarrow>
          if data_size = 0 then Inr (Some r)
          else
          r_bind (strlen_or_0 name) (\<lambda>name_len.
          r_bind (strlen_or_0 file_name) (\<lambda>file_name_len.
          if name_len = 0 \<or> file_name_len = 0 then Inr (Some r)
          else r_bind (r_check (rq_method r \<noteq> None) AssertFailed) (\<lambda>_.
               r_bind (nhr_malloc mc data_size) (\<lambda>dd.
               r_bind (mem_read d data_size) (\<lambda>src.
               r_bind (memcpy_to dd 0 src) (\<lambda>dd.
               r_bind (entries_next mc (rq_parameters r)) (\<lambda>es.
               r_bind (nhr_string_copy_len mc name name_len) (\<lambda>k.
               r_bind (nhr_string_copy_len mc file_name file_name_len) (\<lambda>f.
               let es = entries_set_last (\<lambda>e. e\<lparr>me_key := k, me_reserved := f,
                          me_reserved_size := file_name_len, me_reserved_type := NHR_MAP_VALUE_STRING,
                          me_value := dd, me_value_size := data_size,
                          me_value_type := NHR_MAP_VALUE_DATA\<rparr>) es;
                   r = r\<lparr>rq_parameters := Some es, rq_is_have_data_parameter := True\<rparr> in
               if rq_boundary r = None
               then r_bind (nhr_request_generate_new_boundary mc r) (\<lambda>r. Inr (Some r))
               else Inr (Some r)))))))))) 
      | (request, _) \<Rightarrow> Inr request)"

end
