(* ===== verification/Nhr_Request_Correct.thy ===== *)
theory Nhr_Request_Correct
  imports Nhr_Request Nhr_String Nhr_Response_Correct
begin

text \<open>
  What a request holds after calls of its interface: the header fields and the parameters in
  the order of the calls, with the strings and data that were given. The lists are built
  through an interface (\<open>slot_map\<close>) that nhr_map.c provides: the node that an append
  returns is free, and filling it adds exactly one entry.
\<close>

section \<open>The interface of the map to its client\<close>

locale slot_map =
  fixes ready :: "'c \<Rightarrow> bool"
    and create :: "'c \<Rightarrow> 'l res"
    and append :: "'c \<Rightarrow> 'l \<Rightarrow> 'l res"
    and set_last :: "('e \<Rightarrow> 'e) \<Rightarrow> 'l \<Rightarrow> 'l"
    and slots :: "'l \<Rightarrow> 'e list"
    and blank :: 'e
    and used :: "'e \<Rightarrow> bool"
  assumes create_ok: "ready c \<Longrightarrow> \<exists>l. create c = Inr l \<and> slots l = [blank]"
    and append_ok: "ready c \<Longrightarrow> slots l \<noteq> [] \<Longrightarrow> \<exists>l'. append c l = Inr l'
          \<and> slots l' = (if used (last (slots l)) then slots l @ [blank] else slots l)"
    and slots_set_last: "slots l \<noteq> [] \<Longrightarrow> slots (set_last f l) = butlast (slots l) @ [f (last (slots l))]"
    and blank_unused: "\<not> used blank"
begin

definition content :: "'l option \<Rightarrow> 'e list" where
  "content m = (case m of None \<Rightarrow> [] | Some l \<Rightarrow> slots l)"

definition full :: "'l option \<Rightarrow> bool" where
  "full m \<longleftrightarrow> (\<forall>l. m = Some l \<longrightarrow> slots l \<noteq> []) \<and> (\<forall>e \<in> set (content m). used e)"

definition next_slot :: "'c \<Rightarrow> 'l option \<Rightarrow> 'l res" where
  "next_slot c m = r_bind (case m of None \<Rightarrow> create c | Some l \<Rightarrow> Inr l) (append c)"

lemma next_slot_ok:
  assumes "ready c" "full m"
  shows "\<exists>l. next_slot c m = Inr l \<and> slots l = content m @ [blank]"
proof (cases m)
  case None
  obtain l where "create c = Inr l" "slots l = [blank]" using create_ok [OF assms(1)] by blast
  with append_ok [OF assms(1), of l] show ?thesis
    by (auto simp: None next_slot_def content_def blank_unused)
next
  case (Some l)
  then have "slots l \<noteq> []" "used (last (slots l))" using assms(2) by (auto simp: full_def content_def)
  with append_ok [OF assms(1), of l] show ?thesis
    by (auto simp: Some next_slot_def content_def)
qed

lemma fill_ok:
  assumes "ready c" "full m" "used (f blank)"
  shows "\<exists>l. next_slot c m = Inr l \<and> content (Some (set_last f l)) = content m @ [f blank]
           \<and> full (Some (set_last f l))"
proof -
  obtain l where l: "next_slot c m = Inr l" "slots l = content m @ [blank]"
    using next_slot_ok [OF assms(1,2)] by blast
  then have "slots (set_last f l) = content m @ [f blank]" by (simp add: slots_set_last)
  with l assms(2,3) show ?thesis by (auto simp: content_def full_def)
qed

end

interpretation entries: slot_map sizes_fit entries_create entries_append entries_set_last
    "\<lambda>es. es" zero_entry "\<lambda>e. me_value_type e \<noteq> 0"
  by unfold_locales
     (auto simp: entries_create_eq entries_append_eq entries_set_last_def zero_entry_def)

lemma entries_next_slot: "entries_next mc m = entries.next_slot mc m"
  by (simp add: entries_next_def entries.next_slot_def)

section \<open>Entries\<close>

definition string_record :: "string \<Rightarrow> string \<Rightarrow> map_entry" where
  "string_record k v = zero_entry\<lparr>me_key := Some (cstr k), me_value := Some (cstr v),
     me_value_size := length v, me_value_type := NHR_MAP_VALUE_STRING\<rparr>"

definition data_record :: "string \<Rightarrow> string \<Rightarrow> bytes \<Rightarrow> map_entry" where
  "data_record k f d = zero_entry\<lparr>me_key := Some (cstr k), me_value := Some d,
     me_reserved := Some (cstr f), me_value_size := length d, me_reserved_size := length f,
     me_reserved_type := NHR_MAP_VALUE_STRING, me_value_type := NHR_MAP_VALUE_DATA\<rparr>"

definition text_arg :: "'m mach_scheme \<Rightarrow> string \<Rightarrow> bool" where
  \<comment> \<open>a non-empty string that can be copied\<close>
  "text_arg mc s \<longleftrightarrow> s \<noteq> [] \<and> NUL \<notin> set s \<and> length s < mc_limit mc"

lemma string_entry_ok:
  assumes "sizes_fit mc" "entries.full m" "text_arg mc k" "text_arg mc v"
  shows "\<exists>es. string_entry mc m (Some (cstr k)) (length k) (Some (cstr v)) (length v) = Inr es
           \<and> entries.content (Some es) = entries.content m @ [string_record k v]
           \<and> entries.full (Some es)"
proof -
  let ?f = "\<lambda>e. e\<lparr>me_key := Some (cstr k), me_value := Some (cstr v), me_value_size := length v,
     me_value_type := NHR_MAP_VALUE_STRING\<rparr>"
  have "me_value_type (?f zero_entry) \<noteq> 0" by (simp add: NHR_MAP_VALUE_STRING_def)
  from entries.fill_ok [OF assms(1,2), of ?f, OF this] obtain es where es:
      "entries_next mc m = Inr es"
      "entries.content (Some (entries_set_last ?f es)) = entries.content m @ [?f zero_entry]"
      "entries.full (Some (entries_set_last ?f es))"
    by (auto simp: entries_next_slot)
  have "nhr_string_copy_len mc (Some (cstr k)) (length k) = Inr (Some (cstr k))"
      "nhr_string_copy_len mc (Some (cstr v)) (length v) = Inr (Some (cstr v))"
    using assms(3,4) by (auto simp: text_arg_def intro!: nhr_string_copy_len_string)
  with es show ?thesis by (simp add: string_entry_def string_record_def)
qed

section \<open>The calls, one at a time\<close>

definition request_ok :: "nhr_request \<Rightarrow> bool" where
  \<comment> \<open>no free slot in the maps, and a boundary where there are data parameters\<close>
  "request_ok r \<longleftrightarrow> entries.full (rq_http_headers r) \<and> entries.full (rq_parameters r)
     \<and> (\<forall>b. rq_boundary r = Some b \<longrightarrow> (\<exists>t. b = cstr t \<and> length t = 12 \<and> (\<forall>c \<in> set t. isalnum c)))
     \<and> (rq_is_have_data_parameter r \<longrightarrow> rq_boundary r \<noteq> None)
     \<and> (rq_is_have_data_parameter r \<longleftrightarrow>
          (\<exists>e \<in> set (entries.content (rq_parameters r)). me_value_type e = NHR_MAP_VALUE_DATA))"

definition header_flags :: "nhr_request \<Rightarrow> string \<Rightarrow> nhr_request" where
  "header_flags r v = r\<lparr>rq_is_gziped := rq_is_gziped r \<or> v = k_nhr_gzip,
     rq_is_deflated := rq_is_deflated r \<or> v = k_nhr_deflate\<rparr>"

lemma add_header_field_ok:
  assumes "sizes_fit mc" "entries.full (rq_http_headers r)" "text_arg mc k" "text_arg mc v"
  shows "\<exists>es. rq_add_header_field mc r (Some (cstr k)) (Some (cstr v))
             = Inr ((header_flags r v)\<lparr>rq_http_headers := Some es\<rparr>)
           \<and> entries.content (Some es) = entries.content (rq_http_headers r) @ [string_record k v]
           \<and> entries.full (Some es)"
proof -
  obtain es where es: "string_entry mc (rq_http_headers r) (Some (cstr k)) (length k) (Some (cstr v))
      (length v) = Inr es"
    "entries.content (Some es) = entries.content (rq_http_headers r) @ [string_record k v]"
    "entries.full (Some es)"
    using string_entry_ok [OF assms] by blast
  have a: "strlen_or_0 (Some (cstr k)) = Inr (length k)" "length k \<noteq> 0"
      "strlen_or_0 (Some (cstr v)) = Inr (length v)" "length v \<noteq> 0" "c_string (cstr v) = Inr v"
    using assms(3,4) by (auto simp: strlen_or_0_def text_arg_def)
  have "rq_add_header_field mc r (Some (cstr k)) (Some (cstr v))
             = Inr ((header_flags r v)\<lparr>rq_http_headers := Some es\<rparr>)"
  proof (cases "v = k_nhr_gzip \<or> v = k_nhr_deflate")
    case True
    with a es(1) show ?thesis
      by (elim disjE) (simp_all add: rq_add_header_field_def header_flags_def Let_def
          k_nhr_gzip_def k_nhr_deflate_def)
  next
    case False
    with a es(1) show ?thesis
      by (simp add: rq_add_header_field_def header_flags_def Let_def)
  qed
  with es(2,3) show ?thesis by blast
qed

lemma add_parameter_ok:
  assumes "sizes_fit mc" "entries.full (rq_parameters r)" "text_arg mc k" "text_arg mc v"
    and "rq_method r \<noteq> None"
  shows "\<exists>es. nhr_request_add_parameter mc (Some r) (Some (cstr k)) (Some (cstr v))
             = Inr (Some (r\<lparr>rq_parameters := Some es\<rparr>))
           \<and> entries.content (Some es) = entries.content (rq_parameters r) @ [string_record k v]
           \<and> entries.full (Some es)"
proof -
  obtain es where es: "string_entry mc (rq_parameters r) (Some (cstr k)) (length k) (Some (cstr v))
      (length v) = Inr es"
    "entries.content (Some es) = entries.content (rq_parameters r) @ [string_record k v]"
    "entries.full (Some es)"
    using string_entry_ok [OF assms(1-4)] by blast
  then show ?thesis using assms(3-5)
    by (auto simp: nhr_request_add_parameter_def strlen_or_0_def text_arg_def)
qed

lemma boundary_charset_alnum: "i < 62 \<Longrightarrow> isalnum (boundary_charset ! i)"
proof -
  assume "i < 62"
  moreover have "length boundary_charset = 62" by (simp add: boundary_charset_def)
  ultimately have "boundary_charset ! i \<in> set boundary_charset" by simp
  moreover have "\<forall>c \<in> set boundary_charset. isalnum c"
    by (simp add: boundary_charset_def ctype_defs)
  ultimately show ?thesis by blast
qed

lemma isalnum_not_NUL: "isalnum c \<Longrightarrow> c \<noteq> NUL"
  by (auto simp: ctype_defs)

lemma generate_new_boundary_ok:
  assumes "sizes_fit mc"
  shows "\<exists>t. (\<forall>r. nhr_request_generate_new_boundary mc r = Inr (r\<lparr>rq_boundary := Some (cstr t)\<rparr>))
           \<and> length t = 12 \<and> (\<forall>c \<in> set t. isalnum c)"
proof -
  let ?t = "map (\<lambda>i. boundary_charset ! (gz_rand mc (gz_time mc mod 2 ^ 32) i mod 62))
                         [0 ..< NHR_POST_BOUNDARY_LEN]"
  have l: "length ?t = 12" by (simp add: NHR_POST_BOUNDARY_LEN_def)
  have a: "\<forall>c \<in> set ?t. isalnum c" by (auto intro: boundary_charset_alnum)
  have "13 \<le> mc_limit mc" using assms by (simp add: sizes_fit_def sizeof_map_node_def)
  then have "nhr_string_copy_len mc (Some ?t) 12 = Inr (Some (?t @ [NUL]))"
    using nhr_string_copy_len_eq [of 12 ?t mc] l by simp
  then have "\<forall>r. nhr_request_generate_new_boundary mc r = Inr (r\<lparr>rq_boundary := Some (cstr ?t)\<rparr>)"
    unfolding nhr_request_generate_new_boundary_def Let_def cstr_def
    by (simp add: NHR_POST_BOUNDARY_LEN_def)
  with l a show ?thesis by blast
qed

lemma add_data_parameter_ok:
  assumes "sizes_fit mc" "entries.full (rq_parameters r)" "text_arg mc k" "text_arg mc f"
    and "d \<noteq> []" "length d \<le> mc_limit mc" "rq_method r \<noteq> None"
  shows "\<exists>es b. nhr_request_add_data_parameter mc (Some r) (Some (cstr k)) (Some (cstr f)) (Some d) (length d)
             = Inr (Some (r\<lparr>rq_parameters := Some es, rq_is_have_data_parameter := True,
                            rq_boundary := Some b\<rparr>))
           \<and> entries.content (Some es) = entries.content (rq_parameters r) @ [data_record k f d]
           \<and> entries.full (Some es)
           \<and> (case rq_boundary r of
                None \<Rightarrow> \<exists>t. b = cstr t \<and> length t = 12 \<and> (\<forall>c \<in> set t. isalnum c)
              | Some b' \<Rightarrow> b = b')"
proof -
  let ?g = "\<lambda>e. e\<lparr>me_key := Some (cstr k), me_reserved := Some (cstr f),
       me_reserved_size := length f, me_reserved_type := NHR_MAP_VALUE_STRING,
       me_value := Some d, me_value_size := length d, me_value_type := NHR_MAP_VALUE_DATA\<rparr>"
  have "me_value_type (?g zero_entry) \<noteq> 0" by (simp add: NHR_MAP_VALUE_DATA_def)
  from entries.fill_ok [OF assms(1,2), of ?g, OF this] obtain es where es:
      "entries_next mc (rq_parameters r) = Inr es"
      "entries.content (Some (entries_set_last ?g es)) = entries.content (rq_parameters r) @ [data_record k f d]"
      "entries.full (Some (entries_set_last ?g es))"
    by (auto simp: entries_next_slot data_record_def)
  have a: "strlen_or_0 (Some (cstr k)) = Inr (length k)" "length k \<noteq> 0"
      "strlen_or_0 (Some (cstr f)) = Inr (length f)" "length f \<noteq> 0" "length d \<noteq> 0"
    using assms(3-5) by (auto simp: strlen_or_0_def text_arg_def)
  have c: "nhr_string_copy_len mc (Some (cstr k)) (length k) = Inr (Some (cstr k))"
      "nhr_string_copy_len mc (Some (cstr f)) (length f) = Inr (Some (cstr f))"
    using assms(3,4) by (auto simp: text_arg_def intro!: nhr_string_copy_len_string)
  have m: "nhr_malloc mc (length d) = Inr (Some (replicate (length d) (mc_fill mc)))"
      "mem_read d (length d) = Inr d"
      "memcpy_to (Some (replicate (length d) (mc_fill mc))) 0 d = Inr (Some d)"
    using assms(5,6) by (simp_all add: nhr_malloc_ok mem_read_def memcpy_to_Some)
  obtain t where t: "\<And>r'. nhr_request_generate_new_boundary mc r' = Inr (r'\<lparr>rq_boundary := Some (cstr t)\<rparr>)"
      "length t = 12" "\<forall>c \<in> set t. isalnum c"
    using generate_new_boundary_ok [OF assms(1)] by blast
  let ?es = "entries_set_last ?g es"
  let ?b = "case rq_boundary r of None \<Rightarrow> cstr t | Some b \<Rightarrow> b"
  have "nhr_request_add_data_parameter mc (Some r) (Some (cstr k)) (Some (cstr f)) (Some d) (length d)
      = Inr (Some (r\<lparr>rq_parameters := Some ?es, rq_is_have_data_parameter := True,
                     rq_boundary := Some ?b\<rparr>))"
    using a c m es(1) t(1) assms(7)
    by (cases "rq_boundary r") (simp_all add: nhr_request_add_data_parameter_def Let_def)
  moreover have "case rq_boundary r of
                None \<Rightarrow> \<exists>t. ?b = cstr t \<and> length t = 12 \<and> (\<forall>c \<in> set t. isalnum c)
              | Some b' \<Rightarrow> ?b = b'"
    using t(2,3) by (cases "rq_boundary r") auto
  ultimately show ?thesis using es(2,3) by blast
qed

section \<open>Sequences of calls\<close>

datatype api_call =
    Add_header string string
  | Add_parameter string string
  | Add_data string string bytes

fun run_call :: "'z gz_mach \<Rightarrow> nhr_request option \<Rightarrow> api_call \<Rightarrow> nhr_request option res" where
  "run_call mc r (Add_header k v) = nhr_request_add_header_field mc r (Some (cstr k)) (Some (cstr v))"
| "run_call mc r (Add_parameter k v) = nhr_request_add_parameter mc r (Some (cstr k)) (Some (cstr v))"
| "run_call mc r (Add_data k f d) =
     nhr_request_add_data_parameter mc r (Some (cstr k)) (Some (cstr f)) (Some d) (length d)"

fun api_calls :: "'z gz_mach \<Rightarrow> nhr_request option \<Rightarrow> api_call list \<Rightarrow> nhr_request option res" where
  "api_calls mc r [] = Inr r"
| "api_calls mc r (c # cs) = r_bind (run_call mc r c) (\<lambda>r. api_calls mc r cs)"

fun call_ok :: "'m mach_scheme \<Rightarrow> api_call \<Rightarrow> bool" where
  "call_ok mc (Add_header k v) \<longleftrightarrow> text_arg mc k \<and> text_arg mc v"
| "call_ok mc (Add_parameter k v) \<longleftrightarrow> text_arg mc k \<and> text_arg mc v"
| "call_ok mc (Add_data k f d) \<longleftrightarrow> text_arg mc k \<and> text_arg mc f \<and> d \<noteq> [] \<and> length d \<le> mc_limit mc"

fun call_headers :: "api_call \<Rightarrow> map_entry list" where
  "call_headers (Add_header k v) = [string_record k v]"
| "call_headers _ = []"

fun call_parameters :: "api_call \<Rightarrow> map_entry list" where
  "call_parameters (Add_parameter k v) = [string_record k v]"
| "call_parameters (Add_data k f d) = [data_record k f d]"
| "call_parameters _ = []"

lemma request_ok_boundary:
  "request_ok r \<Longrightarrow> rq_boundary r = Some b \<Longrightarrow> \<exists>t. b = cstr t \<and> length t = 12 \<and> (\<forall>c \<in> set t. isalnum c)"
  by (simp add: request_ok_def)

lemma api_call_ok:
  assumes "sizes_fit mc" "request_ok r" "rq_method r \<noteq> None" "call_ok mc c"
  shows "\<exists>r'. run_call mc (Some r) c = Inr (Some r') \<and> request_ok r' \<and> rq_method r' = rq_method r
           \<and> entries.content (rq_http_headers r') = entries.content (rq_http_headers r) @ call_headers c
           \<and> entries.content (rq_parameters r') = entries.content (rq_parameters r) @ call_parameters c
           \<and> (rq_is_gziped r' \<longleftrightarrow> rq_is_gziped r \<or> (\<exists>k. c = Add_header k k_nhr_gzip))
           \<and> (rq_is_deflated r' \<longleftrightarrow> rq_is_deflated r \<or> (\<exists>k. c = Add_header k k_nhr_deflate))"
proof (cases c)
  case (Add_header k v)
  with assms obtain es where es: "rq_add_header_field mc r (Some (cstr k)) (Some (cstr v))
             = Inr ((header_flags r v)\<lparr>rq_http_headers := Some es\<rparr>)"
      "entries.content (Some es) = entries.content (rq_http_headers r) @ [string_record k v]"
      "entries.full (Some es)"
    using add_header_field_ok [of mc r k v] by (auto simp: request_ok_def)
  then show ?thesis using assms(2)
    by (auto simp: Add_header nhr_request_add_header_field_def header_flags_def request_ok_def)
next
  case (Add_parameter k v)
  with assms obtain es where es: "nhr_request_add_parameter mc (Some r) (Some (cstr k)) (Some (cstr v))
             = Inr (Some (r\<lparr>rq_parameters := Some es\<rparr>))"
      "entries.content (Some es) = entries.content (rq_parameters r) @ [string_record k v]"
      "entries.full (Some es)"
    using add_parameter_ok [of mc r k v] by (auto simp: request_ok_def)
  then show ?thesis using assms(2)
    by (auto simp: Add_parameter request_ok_def string_record_def NHR_MAP_VALUE_STRING_def
        NHR_MAP_VALUE_DATA_def)
next
  case (Add_data k f d)
  have "entries.full (rq_parameters r)" "text_arg mc k" "text_arg mc f" "d \<noteq> []" "length d \<le> mc_limit mc"
    using assms(2,4) by (auto simp: Add_data request_ok_def)
  from add_data_parameter_ok [OF assms(1) this assms(3)] obtain es b where es:
      "nhr_request_add_data_parameter mc (Some r) (Some (cstr k)) (Some (cstr f)) (Some d) (length d)
        = Inr (Some (r\<lparr>rq_parameters := Some es, rq_is_have_data_parameter := True, rq_boundary := Some b\<rparr>))"
      "entries.content (Some es) = entries.content (rq_parameters r) @ [data_record k f d]"
      "entries.full (Some es)"
      "case rq_boundary r of None \<Rightarrow> \<exists>t. b = cstr t \<and> length t = 12 \<and> (\<forall>c \<in> set t. isalnum c)
         | Some b' \<Rightarrow> b = b'"
    by blast
  have "\<exists>t. b = cstr t \<and> length t = 12 \<and> (\<forall>c \<in> set t. isalnum c)"
    using es(4) request_ok_boundary [OF assms(2)] by (cases "rq_boundary r") auto
  with es show ?thesis using assms(2)
    by (auto simp: Add_data request_ok_def data_record_def)
qed

lemma api_calls_ok:
  assumes "sizes_fit mc" "request_ok r" "rq_method r \<noteq> None" "\<forall>c \<in> set cs. call_ok mc c"
  shows "\<exists>r'. api_calls mc (Some r) cs = Inr (Some r') \<and> request_ok r' \<and> rq_method r' = rq_method r
           \<and> entries.content (rq_http_headers r')
             = entries.content (rq_http_headers r) @ concat (map call_headers cs)
           \<and> entries.content (rq_parameters r')
             = entries.content (rq_parameters r) @ concat (map call_parameters cs)
           \<and> (rq_is_gziped r' \<longleftrightarrow> rq_is_gziped r \<or> (\<exists>k. Add_header k k_nhr_gzip \<in> set cs))
           \<and> (rq_is_deflated r' \<longleftrightarrow> rq_is_deflated r \<or> (\<exists>k. Add_header k k_nhr_deflate \<in> set cs))"
  using assms(2-4)
proof (induction cs arbitrary: r)
  case Nil
  then show ?case by simp
next
  case (Cons c cs)
  have "call_ok mc c" using Cons.prems(3) by simp
  from api_call_ok [OF assms(1) Cons.prems(1,2) this] obtain r1 where r1:
    "run_call mc (Some r) c = Inr (Some r1)" "request_ok r1" "rq_method r1 = rq_method r"
    "entries.content (rq_http_headers r1) = entries.content (rq_http_headers r) @ call_headers c"
    "entries.content (rq_parameters r1) = entries.content (rq_parameters r) @ call_parameters c"
    "rq_is_gziped r1 \<longleftrightarrow> rq_is_gziped r \<or> (\<exists>k. c = Add_header k k_nhr_gzip)"
    "rq_is_deflated r1 \<longleftrightarrow> rq_is_deflated r \<or> (\<exists>k. c = Add_header k k_nhr_deflate)" by blast
  have "rq_method r1 \<noteq> None" "\<forall>c \<in> set cs. call_ok mc c" using r1(3) Cons.prems(2,3) by auto
  from Cons.IH [OF r1(2) this] r1 show ?case by auto
qed

lemma request_ok_new: "request_ok new_request"
  by (simp add: request_ok_def new_request_def entries.full_def entries.content_def)

text \<open>
  C24: Starting from a created request whose method is set, every sequence of
  nhr_request_add_header_field, nhr_request_add_parameter and nhr_request_add_data_parameter
  with non-empty arguments succeeds and collects exactly the header fields and exactly the
  parameters, each in the order of the calls; the compression flags say whether some header
  value was gzip or deflate, and a boundary of twelve letters and digits exists if there is a
  data parameter.
\<close>

theorem request_collects:
  assumes "sizes_fit mc" "sizeof_request \<le> mc_limit mc" "\<forall>c \<in> set cs. call_ok mc c"
  shows "\<exists>r0 r. nhr_request_create mc = Inr r0
           \<and> api_calls mc (nhr_request_set_method r0 (Some m)) cs = Inr (Some r)
           \<and> entries.content (rq_http_headers r) = concat (map call_headers cs)
           \<and> entries.content (rq_parameters r) = concat (map call_parameters cs)
           \<and> (rq_is_gziped r \<longleftrightarrow> (\<exists>k. Add_header k k_nhr_gzip \<in> set cs))
           \<and> (rq_is_deflated r \<longleftrightarrow> (\<exists>k. Add_header k k_nhr_deflate \<in> set cs))
           \<and> (rq_is_have_data_parameter r \<longleftrightarrow> (\<exists>k f d. Add_data k f d \<in> set cs))
           \<and> (rq_is_have_data_parameter r \<longrightarrow>
                (\<exists>t. rq_boundary r = Some (cstr t) \<and> length t = 12 \<and> (\<forall>c \<in> set t. isalnum c)))"
proof -
  let ?r = "new_request\<lparr>rq_method := Some m\<rparr>"
  have c: "nhr_request_create mc = Inr (Some new_request)"
    using assms(2)
    by (simp add: nhr_request_create_def nhr_malloc_zero_def nhr_malloc_ok sizeof_request_def)
  have "request_ok ?r" "rq_method ?r \<noteq> None"
    using request_ok_new by (simp_all add: request_ok_def)
  from api_calls_ok [OF assms(1) this assms(3)] obtain r where r:
    "api_calls mc (Some ?r) cs = Inr (Some r)" "request_ok r"
    "entries.content (rq_http_headers r) = concat (map call_headers cs)"
    "entries.content (rq_parameters r) = concat (map call_parameters cs)"
    "rq_is_gziped r \<longleftrightarrow> (\<exists>k. Add_header k k_nhr_gzip \<in> set cs)"
    "rq_is_deflated r \<longleftrightarrow> (\<exists>k. Add_header k k_nhr_deflate \<in> set cs)"
    by (auto simp: new_request_def entries.content_def)
  have d: "me_value_type e = NHR_MAP_VALUE_DATA \<longleftrightarrow> (\<exists>k f d. x = Add_data k f d)"
    if "e \<in> set (call_parameters x)" for e x
    using that by (cases x) (auto simp: string_record_def data_record_def NHR_MAP_VALUE_STRING_def
        NHR_MAP_VALUE_DATA_def)
  have "rq_is_have_data_parameter r \<longleftrightarrow> (\<exists>k f d. Add_data k f d \<in> set cs)"
  proof
    assume "rq_is_have_data_parameter r"
    then obtain x e where "x \<in> set cs" "e \<in> set (call_parameters x)" "me_value_type e = NHR_MAP_VALUE_DATA"
      using r(2,4) by (auto simp: request_ok_def)
    with d show "\<exists>k f d. Add_data k f d \<in> set cs" by metis
  next
    assume "\<exists>k f d. Add_data k f d \<in> set cs"
    then obtain k f dd where "Add_data k f dd \<in> set cs" by blast
    then have "data_record k f dd \<in> set (entries.content (rq_parameters r))"
      unfolding r(4) by force
    moreover have "me_value_type (data_record k f dd) = NHR_MAP_VALUE_DATA"
      by (simp add: data_record_def)
    ultimately show "rq_is_have_data_parameter r"
      using r(2) unfolding request_ok_def by blast
  qed
  with c r show ?thesis
    by (auto simp: nhr_request_set_method_def request_ok_def)
qed

theorem request_collects_witness:
  "\<exists>r0 r. nhr_request_create example_gz_mach = Inr r0
     \<and> api_calls example_gz_mach (nhr_request_set_method r0 (Some nhr_method_POST))
         [Add_header ''Accept'' ''text/html'', Add_data ''f'' ''a.txt'' [NUL, CHR ''x''],
          Add_header ''Content-Encoding'' ''gzip'', Add_parameter ''p'' ''1''] = Inr (Some r)
     \<and> entries.content (rq_parameters r) = [data_record ''f'' ''a.txt'' [NUL, CHR ''x''], string_record ''p'' ''1'']
     \<and> rq_is_gziped r \<and> \<not> rq_is_deflated r"
  using request_collects [of example_gz_mach "[Add_header ''Accept'' ''text/html'',
      Add_data ''f'' ''a.txt'' [NUL, CHR ''x''], Add_header ''Content-Encoding'' ''gzip'',
      Add_parameter ''p'' ''1'']" nhr_method_POST]
  by (auto simp: sizes_fit_def sizeof_map_node_def sizeof_request_def text_arg_def k_nhr_gzip_def
      k_nhr_deflate_def)

end
