(* ===== verification/Nhr_Methods.thy ===== *)
theory Nhr_Methods
  imports Nhr_Request
begin

text \<open>
  How a request becomes the text that is sent (nhr_request_method_common.c, _get.c, _post.c).
  Every function first computes a size, allocates a block of it and then writes with
  \<open>sprintf\<close> and \<open>memcpy\<close>; a \<open>wbuf\<close> is the block with the number of bytes written so far, and
  a write that does not fit, the terminating NUL of \<open>sprintf\<close> included, is the fault
  \<open>OutOfBounds\<close>. Lengths of blocks are natural numbers.
\<close>

section \<open>Writing into a block\<close>

type_synonym wbuf = "bytes option \<times> nat"

datatype buf_op =
    Print string   \<comment> \<open>\<open>writed += sprintf(buff + writed, ...)\<close>\<close>
  | Copy bytes     \<comment> \<open>\<open>memcpy(buff + writed, ...); writed += ...\<close>\<close>

fun buf_put :: "buf_op \<Rightarrow> wbuf \<Rightarrow> wbuf res" where
  "buf_put (Print s) (b, w) = r_bind (memcpy_to b w (s @ [NUL])) (\<lambda>b. Inr (b, w + length s))"
| "buf_put (Copy d) (b, w) = r_bind (memcpy_to b w d) (\<lambda>b. Inr (b, w + length d))"

definition buf_end :: "wbuf \<Rightarrow> wbuf res" where
  \<comment> \<open>\<open>buff[writed] = 0\<close>\<close>
  "buf_end bw = r_bind (memcpy_to (fst bw) (snd bw) [NUL]) (\<lambda>b. Inr (b, snd bw))"

definition str_arg :: "bytes option \<Rightarrow> string res" where
  \<comment> \<open>an argument of \<open>%s\<close>\<close>
  "str_arg p = (case p of None \<Rightarrow> Inl NullDeref | Some b \<Rightarrow> c_string b)"

definition str_len :: "bytes option \<Rightarrow> nat res" where
  "str_len p = (case p of None \<Rightarrow> Inl NullDeref | Some b \<Rightarrow> strlen b)"

definition blk_read :: "bytes option \<Rightarrow> nat \<Rightarrow> bytes res" where
  "blk_read p n =
     (if n = 0 then Inr [] else case p of None \<Rightarrow> Inl NullDeref | Some b \<Rightarrow> mem_read b n)"

definition local_print :: "nat \<Rightarrow> string \<Rightarrow> bytes res" where
  \<comment> \<open>\<open>sprintf\<close> into a local array of \<open>n\<close> bytes; what lies behind the NUL is left out\<close>
  "local_print n s = r_bind (r_check (length s < n) OutOfBounds) (\<lambda>_. Inr (cstr s))"

section \<open>Header fields and url-encoded parameters\<close>

fun nhr_request_map_strings_length :: "map_entry list \<Rightarrow> nat \<Rightarrow> nat res" where
  "nhr_request_map_strings_length [] inc = Inr 0"
| "nhr_request_map_strings_length (cur # rest) inc =
     r_bind (str_len (me_key cur)) (\<lambda>k.
     r_bind (str_len (me_value cur)) (\<lambda>v.
     r_bind (nhr_request_map_strings_length rest inc) (\<lambda>len. Inr (k + v + inc + len))))"

fun http_headers_loop :: "map_entry list \<Rightarrow> wbuf \<Rightarrow> wbuf res" where
  "http_headers_loop [] b = Inr b"
| "http_headers_loop (cur # rest) b =
     r_bind (str_arg (me_key cur)) (\<lambda>k.
     r_bind (str_arg (me_value cur)) (\<lambda>v.
     r_bind (buf_put (Print ((if snd b > 0 then k_nhr_CRLF else []) @ k @ '': '' @ v)) b)
       (http_headers_loop rest)))"

definition nhr_request_http_headers :: "'m mach_scheme \<Rightarrow> map_entry list \<Rightarrow> wbuf res" where
  \<comment> \<open>the string and \<open>*length\<close>, which stays 0 when the answer is NULL\<close>
  "nhr_request_http_headers mc es =
     r_bind (nhr_request_map_strings_length es 4) (\<lambda>buff_size.
     if buff_size = 0 then Inr (None, 0)
     else r_bind (nhr_malloc mc buff_size) (\<lambda>buff.
          r_bind (http_headers_loop es (buff, 0)) (\<lambda>b.
          r_bind (r_check (snd b < buff_size) AssertFailed) (\<lambda>_.
          buf_end b))))"

fun url_encoded_loop :: "map_entry list \<Rightarrow> wbuf \<Rightarrow> wbuf res" where
  "url_encoded_loop [] b = Inr b"
| "url_encoded_loop (cur # rest) b =
     r_bind (str_arg (me_key cur)) (\<lambda>k.
     r_bind (str_arg (me_value cur)) (\<lambda>v.
     r_bind (buf_put (Print ((if snd b > 0 then ''&'' else []) @ k @ ''='' @ v)) b)
       (url_encoded_loop rest)))"

definition nhr_request_url_encoded_parameters :: "'m mach_scheme \<Rightarrow> map_entry list \<Rightarrow> wbuf res" where
  "nhr_request_url_encoded_parameters mc es =
     r_bind (nhr_request_map_strings_length es 2) (\<lambda>buff_size.
     if buff_size = 0 then Inr (None, 0)
     else r_bind (nhr_malloc mc buff_size) (\<lambda>buff.
          r_bind (url_encoded_loop es (buff, 0)) buf_end))"

definition on_map :: "(map_entry list \<Rightarrow> wbuf res) \<Rightarrow> map_entry list option \<Rightarrow> wbuf res" where
  \<comment> \<open>\<open>map ? f(map, &len) : NULL\<close>\<close>
  "on_map f m = (case m of None \<Rightarrow> Inr (None, 0) | Some es \<Rightarrow> f es)"

definition blk_len :: "wbuf \<Rightarrow> nat" where
  \<comment> \<open>\<open>if (p) buff_size += len\<close>\<close>
  "blk_len b = (if fst b \<noteq> None then snd b else 0)"

definition put_host :: "nhr_request \<Rightarrow> wbuf \<Rightarrow> wbuf res" where
  "put_host r b =
     r_bind (str_arg (rq_host r)) (\<lambda>host.
     if rq_port r = 80 then buf_put (Print (''Host: '' @ host @ k_nhr_CRLF)) b
     else buf_put (Print (''Host: '' @ host @ '':'' @ dec_digits (unat (rq_port r)) @ k_nhr_CRLF)) b)"

definition put_headers :: "bytes option \<Rightarrow> wbuf \<Rightarrow> wbuf res" where
  "put_headers headers b =
     (case headers of
        Some h \<Rightarrow> r_bind (c_string h) (\<lambda>hs. buf_put (Print (hs @ k_nhr_double_CRLF)) b)
      | None \<Rightarrow> buf_put (Copy k_nhr_CRLF) b)"

section \<open>GET\<close>

definition nhr_request_create_header_GET :: "'m mach_scheme \<Rightarrow> nhr_request \<Rightarrow> wbuf res" where
  "nhr_request_create_header_GET mc r =
     r_bind (str_len (rq_path r)) (\<lambda>path_len.
     r_bind (str_len (rq_host r)) (\<lambda>host_len.
     r_bind (on_map (nhr_request_http_headers mc) (rq_http_headers r)) (\<lambda>headers.
     r_bind (on_map (nhr_request_url_encoded_parameters mc) (rq_parameters r)) (\<lambda>parameters.
     let buff_size = path_len + host_len + blk_len headers + blk_len parameters + 256 in
     r_bind (nhr_malloc mc buff_size) (\<lambda>buff.
     r_bind (str_arg (rq_path r)) (\<lambda>path.
     r_bind (case fst parameters of
               Some p \<Rightarrow> r_bind (c_string p) (\<lambda>ps.
                 buf_put (Print (k_nhr_GET @ '' '' @ path @ ''?'' @ ps @ '' HTTP/'' @ k_nhr_request_http_ver
                                 @ k_nhr_CRLF)) (buff, 0))
             | None \<Rightarrow>
                 buf_put (Print (k_nhr_GET @ '' '' @ path @ '' HTTP/'' @ k_nhr_request_http_ver
                                 @ k_nhr_CRLF)) (buff, 0)) (\<lambda>b.
     r_bind (put_host r b) (\<lambda>b.
     r_bind (put_headers (fst headers) b) buf_end))))))))"

section \<open>POST\<close>

definition compress_parameters :: "'z gz_mach \<Rightarrow> nhr_request \<Rightarrow> wbuf \<Rightarrow> wbuf res" where
  \<comment> \<open>the part under \<open>NHR_GZIP\<close>\<close>
  "compress_parameters mc r params =
     (if rq_is_gziped r \<or> rq_is_deflated r
      then r_bind (nhr_gz_compress mc (fst params) (snd params)
                     (if rq_is_gziped r then NHR_GZ_METHOD_GZIP else NHR_GZ_METHOD_DEFLATE)) (\<lambda>z.
           case z of
             Some (Some zb, n) \<Rightarrow> if n \<noteq> 0 then Inr (Some zb, n) else Inr params
           | _ \<Rightarrow> Inr params)
      else Inr params)"

definition nhr_request_create_url_encoded_parameters_POST ::
    "'z gz_mach \<Rightarrow> nhr_request \<Rightarrow> (wbuf \<times> nhr_request) res" where
  "nhr_request_create_url_encoded_parameters_POST mc r =
     r_bind (on_map (nhr_request_url_encoded_parameters mc) (rq_parameters r)) (\<lambda>params.
     if fst params = None then Inr ((None, 0), r)
     else r_bind (compress_parameters mc r params) (\<lambda>params.
          r_bind (local_print 24 (dec_digits (snd params))) (\<lambda>content_length.
          r_bind (rq_add_header_field mc r (Some (cstr k_nhr_content_type))
                    (Some (cstr k_nhr_application_x_www_form_urlencoded))) (\<lambda>r.
          r_bind (rq_add_header_field mc r (Some (cstr k_nhr_content_length))
                    (Some content_length)) (\<lambda>r.
          Inr (params, r))))))"

fun data_parameters_length :: "map_entry list \<Rightarrow> nat res" where
  "data_parameters_length [] = Inr 0"
| "data_parameters_length (cur # rest) =
     r_bind (str_len (me_key cur)) (\<lambda>k.
     r_bind (data_parameters_length rest) (\<lambda>n.
     Inr (k + me_value_size cur + me_reserved_size cur + (NHR_POST_BOUNDARY_LEN + 2)
          + k_nhr_double_CRLF_length
          + (if me_value_type cur = NHR_MAP_VALUE_DATA then 124 + k_nhr_double_CRLF_length * 2
             else if me_value_type cur = NHR_MAP_VALUE_STRING
                     \<or> me_value_type cur = NHR_MAP_VALUE_STATIC_STRING
             then 40 + k_nhr_double_CRLF_length else 0) + n)))"

definition put_data_part :: "map_entry \<Rightarrow> wbuf \<Rightarrow> wbuf res" where
  \<comment> \<open>the second \<open>switch\<close>\<close>
  "put_data_part cur b =
     (if me_value_type cur = NHR_MAP_VALUE_DATA
      then r_bind (str_arg (me_key cur)) (\<lambda>key.
           r_bind (str_arg (me_reserved cur)) (\<lambda>file.
           r_bind (buf_put (Print (''Content-Disposition: form-data; name='' @ [CHR 0x22] @ key
                      @ [CHR 0x22] @ ''; filename='' @ [CHR 0x22] @ file @ [CHR 0x22] @ k_nhr_CRLF)) b) (\<lambda>b.
           r_bind (buf_put (Copy (''Content-Type: application/octet-stream'' @ k_nhr_CRLF)) b) (\<lambda>b.
           r_bind (buf_put (Copy (''Content-Transfer-Encoding: binary'' @ k_nhr_double_CRLF)) b) (\<lambda>b.
           r_bind (blk_read (me_value cur) (me_value_size cur)) (\<lambda>d.
           buf_put (Copy d) b))))))
      else if me_value_type cur = NHR_MAP_VALUE_STRING \<or> me_value_type cur = NHR_MAP_VALUE_STATIC_STRING
      then r_bind (str_arg (me_key cur)) (\<lambda>key.
           r_bind (buf_put (Print (''Content-Disposition: form-data; name='' @ [CHR 0x22] @ key
                      @ [CHR 0x22] @ k_nhr_double_CRLF)) b) (\<lambda>b.
           r_bind (blk_read (me_value cur) (me_value_size cur)) (\<lambda>d.
           buf_put (Copy d) b)))
      else Inr b)"

fun data_parameters_loop :: "bytes option \<Rightarrow> map_entry list \<Rightarrow> bool \<Rightarrow> wbuf \<Rightarrow> wbuf res" where
  "data_parameters_loop bd [] is_first b = Inr b"
| "data_parameters_loop bd (cur # rest) is_first b =
     r_bind (if is_first then Inr b else buf_put (Copy k_nhr_CRLF) b) (\<lambda>b.
     r_bind (str_arg bd) (\<lambda>boundary.
     r_bind (buf_put (Print (''--'' @ boundary @ k_nhr_CRLF)) b) (\<lambda>b.
     r_bind (put_data_part cur b) (data_parameters_loop bd rest False))))"

definition nhr_request_create_data_parameters_POST ::
    "'z gz_mach \<Rightarrow> nhr_request \<Rightarrow> (wbuf \<times> nhr_request) res" where
  "nhr_request_create_data_parameters_POST mc r =
     (let parameters = (case rq_parameters r of None \<Rightarrow> [] | Some es \<Rightarrow> es) in
      r_bind (data_parameters_length parameters) (\<lambda>n.
      let params_len = n + (NHR_POST_BOUNDARY_LEN + 4);
          buff_size = params_len + 4 in
      r_bind (nhr_malloc mc buff_size) (\<lambda>buff.
      r_bind (data_parameters_loop (rq_boundary r) parameters True (buff, 0)) (\<lambda>b.
      r_bind (str_arg (rq_boundary r)) (\<lambda>boundary.
      r_bind (buf_put (Print (k_nhr_CRLF @ ''--'' @ boundary @ ''--'')) b) (\<lambda>b.
      r_bind (local_print (NHR_POST_BOUNDARY_LEN + 32) (''multipart/form-data; boundary='' @ boundary))
        (\<lambda>content_type.
      r_bind (rq_add_header_field mc r (Some (cstr k_nhr_content_type)) (Some content_type)) (\<lambda>r.
      r_bind (local_print 24 (dec_digits (snd b))) (\<lambda>content_length.
      r_bind (rq_add_header_field mc r (Some (cstr k_nhr_content_length)) (Some content_length)) (\<lambda>r.
      r_bind (buf_end b) (\<lambda>b. Inr (b, r))))))))))))"

definition nhr_request_create_header_POST :: "'z gz_mach \<Rightarrow> nhr_request \<Rightarrow> (wbuf \<times> nhr_request) res" where
  "nhr_request_create_header_POST mc r =
     r_bind (str_len (rq_path r)) (\<lambda>path_len.
     r_bind (str_len (rq_host r)) (\<lambda>host_len.
     r_bind (if rq_is_have_data_parameter r then nhr_request_create_data_parameters_POST mc r
             else nhr_request_create_url_encoded_parameters_POST mc r) (\<lambda>(parameters, r).
     r_bind (on_map (nhr_request_http_headers mc) (rq_http_headers r)) (\<lambda>headers.
     let buff_size = path_len + host_len + blk_len parameters + blk_len headers + 256 in
     r_bind (nhr_malloc mc buff_size) (\<lambda>buff.
     r_bind (str_arg (rq_path r)) (\<lambda>path.
     r_bind (buf_put (Print (k_nhr_POST @ '' '' @ path @ '' HTTP/'' @ k_nhr_request_http_ver
                             @ k_nhr_CRLF)) (buff, 0)) (\<lambda>b.
     r_bind (put_host r b) (\<lambda>b.
     r_bind (put_headers (fst headers) b) (\<lambda>b.
     r_bind (if snd parameters > 0
             then r_bind (blk_read (fst parameters) (snd parameters)) (\<lambda>d.
                  r_bind (buf_put (Copy d) b) (buf_put (Copy k_nhr_double_CRLF)))
             else Inr b) (\<lambda>b.
     r_bind (buf_end b) (\<lambda>b. Inr (b, r))))))))))))"

end
