(* ===== verification/Nhr_Methods_Correct.thy ===== *)
theory Nhr_Methods_Correct
  imports Nhr_Methods Nhr_Request_Correct Nhr_Gz_Correct
begin

text \<open>
  The messages that the GET and POST builders write: their exact text, and that the sizes
  computed in advance are enough. The writes go through an interface (\<open>capped_buffer\<close>) that
  says when a write fits, what it adds, and that a write that does not fit is a fault.
\<close>

section \<open>The interface of the output buffer\<close>

locale capped_buffer =
  fixes put :: "'d \<Rightarrow> 'b \<Rightarrow> 'b res"
    and holds :: "'b \<Rightarrow> bytes \<Rightarrow> nat \<Rightarrow> bool"   \<comment> \<open>the text written so far and the capacity\<close>
    and payload :: "'d \<Rightarrow> bytes"
    and need :: "'d \<Rightarrow> nat"
  assumes put_fits: "holds b t n \<Longrightarrow> length t + need d \<le> n \<Longrightarrow>
          \<exists>b'. put d b = Inr b' \<and> holds b' (t @ payload d) n"
    and put_overflow: "holds b t n \<Longrightarrow> n < length t + need d \<Longrightarrow> put d b = Inl OutOfBounds"
    and need_least: "length (payload d) \<le> need d"
    and need_most: "need d \<le> length (payload d) + 1"
begin

fun put_all :: "'d list \<Rightarrow> 'b \<Rightarrow> 'b res" where
  "put_all [] b = Inr b"
| "put_all (d # ds) b = r_bind (put d b) (put_all ds)"

lemma put_all_Nil [simp]: "put_all [] = Inr"
  by (rule ext) simp

lemma put_all_Cons: "put_all (d # ds) = (\<lambda>b. r_bind (put d b) (put_all ds))"
  by (rule ext) simp

definition payloads :: "'d list \<Rightarrow> bytes" where
  "payloads ds = concat (map payload ds)"

lemma payloads_simps [simp]:
  "payloads [] = []" "payloads (d # ds) = payload d @ payloads ds"
  "payloads (ds @ es) = payloads ds @ payloads es"
  by (simp_all add: payloads_def)

lemma put_all_append: "put_all (ds @ es) b = r_bind (put_all ds b) (put_all es)"
  by (induction ds arbitrary: b) (auto simp: r_bind_assoc intro!: r_bind_cong)

lemma put_all_append_fun: "put_all (ds @ es) = (\<lambda>b. r_bind (put_all ds b) (put_all es))"
  by (rule ext) (rule put_all_append)

lemma put_all_fits:
  assumes "holds b t n" "length t + length (payloads ds) + 1 \<le> n"
  shows "\<exists>b'. put_all ds b = Inr b' \<and> holds b' (t @ payloads ds) n"
  using assms
proof (induction ds arbitrary: b t)
  case Nil
  then show ?case by simp
next
  case (Cons d ds)
  have "length t + need d \<le> n" using Cons.prems(2) need_most [of d] by simp
  from put_fits [OF Cons.prems(1) this] obtain b1 where
    "put d b = Inr b1" "holds b1 (t @ payload d) n" by blast
  with Cons.IH [of b1 "t @ payload d"] Cons.prems(2) show ?case by auto
qed

lemma put_all_overflow:
  assumes "holds b t n" "length t \<le> n" "n < length t + length (payloads ds)"
  shows "put_all ds b = Inl OutOfBounds"
  using assms
proof (induction ds arbitrary: b t)
  case Nil
  then show ?case by simp
next
  case (Cons d ds)
  show ?case
  proof (cases "length t + need d \<le> n")
    case True
    from put_fits [OF Cons.prems(1) this] obtain b1 where
      b1: "put d b = Inr b1" "holds b1 (t @ payload d) n" by blast
    have "length (t @ payload d) \<le> n" using True need_least [of d] by simp
    with Cons.IH [OF b1(2)] Cons.prems(3) b1(1) show ?thesis by simp
  next
    case False
    with put_overflow [OF Cons.prems(1)] show ?thesis by simp
  qed
qed

end

definition wbuf_holds :: "wbuf \<Rightarrow> bytes \<Rightarrow> nat \<Rightarrow> bool" where
  "wbuf_holds b t n \<longleftrightarrow> (\<exists>blk. b = (Some blk, length t) \<and> length blk = n \<and> length t \<le> n
     \<and> take (length t) blk = t)"

fun op_payload :: "buf_op \<Rightarrow> bytes" where
  "op_payload (Print s) = s"
| "op_payload (Copy d) = d"

fun op_need :: "buf_op \<Rightarrow> nat" where
  "op_need (Print s) = length s + 1"
| "op_need (Copy d) = length d"

interpretation wb: capped_buffer buf_put wbuf_holds op_payload op_need
proof (unfold_locales, goal_cases)
  case (1 b t n d)
  then show ?case
    by (cases d) (auto simp: wbuf_holds_def memcpy_to_Some)
next
  case (2 b t n d)
  then show ?case
    by (cases d) (auto simp: wbuf_holds_def memcpy_to_def mem_write_def)
next
  case (3 d)
  then show ?case by (cases d) auto
next
  case (4 d)
  then show ?case by (cases d) auto
qed

lemma wbuf_holds_new: "wbuf_holds (Some (replicate n c), 0) [] n"
  by (simp add: wbuf_holds_def)

lemma wbuf_holds_snd: "wbuf_holds b t n \<Longrightarrow> snd b = length t"
  by (auto simp: wbuf_holds_def)

lemma buf_end_ok:
  assumes "wbuf_holds b t n" "length t < n"
  shows "\<exists>blk. buf_end b = Inr (Some blk, length t) \<and> take (length t + 1) blk = t @ [NUL]
           \<and> length blk = n"
  using assms by (auto simp: wbuf_holds_def buf_end_def memcpy_to_Some)

lemma buf_put_grows: "buf_put d b = Inr b' \<Longrightarrow> snd b' = snd b + length (op_payload d)"
  by (cases d; cases b) (auto simp: r_bind_Inr_conv)

section \<open>Lists of fields\<close>

definition joined :: "string \<Rightarrow> string list \<Rightarrow> string" where
  "joined sep xs = (case xs of [] \<Rightarrow> [] | x # rest \<Rightarrow> x @ concat (map ((@) sep) rest))"

definition field_text :: "string \<Rightarrow> string \<times> string \<Rightarrow> string" where
  "field_text mid kv = fst kv @ mid @ snd kv"

abbreviation string_records :: "(string \<times> string) list \<Rightarrow> map_entry list" where
  "string_records kvs \<equiv> map (\<lambda>kv. string_record (fst kv) (snd kv)) kvs"

definition fields_ok :: "(string \<times> string) list \<Rightarrow> bool" where
  "fields_ok kvs \<longleftrightarrow> (\<forall>kv \<in> set kvs. NUL \<notin> set (fst kv) \<and> NUL \<notin> set (snd kv))"

fun field_ops :: "string \<Rightarrow> string \<Rightarrow> bool \<Rightarrow> (string \<times> string) list \<Rightarrow> buf_op list" where
  "field_ops sep mid started [] = []"
| "field_ops sep mid started (kv # rest) =
     Print ((if started then sep else []) @ field_text mid kv) # field_ops sep mid True rest"

lemma string_record_sel [simp]:
  "me_key (string_record k v) = Some (cstr k)" "me_value (string_record k v) = Some (cstr v)"
  "me_value_size (string_record k v) = length v" "me_reserved_size (string_record k v) = 0"
  "me_value_type (string_record k v) = NHR_MAP_VALUE_STRING"
  by (simp_all add: string_record_def zero_entry_def)

lemma str_arg_cstr [simp]: "NUL \<notin> set s \<Longrightarrow> str_arg (Some (cstr s)) = Inr s"
  by (simp add: str_arg_def)

lemma str_len_cstr [simp]: "NUL \<notin> set s \<Longrightarrow> str_len (Some (cstr s)) = Inr (length s)"
  by (simp add: str_len_def)

lemma http_headers_loop_ops:
  "fields_ok kvs \<Longrightarrow>
     http_headers_loop (string_records kvs) b = wb.put_all (field_ops k_nhr_CRLF '': '' (snd b > 0) kvs) b"
proof (induction kvs arbitrary: b)
  case Nil
  then show ?case by simp
next
  case (Cons kv kvs)
  have "http_headers_loop (string_records kvs) b' = wb.put_all (field_ops k_nhr_CRLF '': '' True kvs) b'"
    if "buf_put (Print ((if snd b > 0 then k_nhr_CRLF else []) @ field_text '': '' kv)) b = Inr b'" for b'
    using Cons buf_put_grows [OF that] by (auto simp: fields_ok_def field_text_def)
  with Cons.prems show ?case by (auto simp: fields_ok_def field_text_def intro!: r_bind_cong)
qed

lemma url_encoded_loop_ops:
  "fields_ok kvs \<Longrightarrow>
     url_encoded_loop (string_records kvs) b = wb.put_all (field_ops ''&'' ''='' (snd b > 0) kvs) b"
proof (induction kvs arbitrary: b)
  case Nil
  then show ?case by simp
next
  case (Cons kv kvs)
  have "url_encoded_loop (string_records kvs) b' = wb.put_all (field_ops ''&'' ''='' True kvs) b'"
    if "buf_put (Print ((if snd b > 0 then ''&'' else []) @ field_text ''='' kv)) b = Inr b'" for b'
    using Cons buf_put_grows [OF that] by (auto simp: fields_ok_def field_text_def)
  with Cons.prems show ?case by (auto simp: fields_ok_def field_text_def intro!: r_bind_cong)
qed

lemma field_ops_payloads:
  "wb.payloads (field_ops sep mid True kvs) = concat (map (\<lambda>kv. sep @ field_text mid kv) kvs)"
  by (induction kvs) auto

lemma field_ops_text:
  "wb.payloads (field_ops sep mid False kvs) = joined sep (map (field_text mid) kvs)"
  by (cases kvs) (simp_all add: field_ops_payloads joined_def comp_def)

lemma map_strings_length_eq:
  assumes "fields_ok kvs"
  shows "nhr_request_map_strings_length (string_records kvs) inc
           = Inr (\<Sum>kv \<leftarrow> kvs. length (fst kv) + length (snd kv) + inc)"
  using assms by (induction kvs) (auto simp: fields_ok_def)

lemma joined_length:
  assumes "kvs \<noteq> []"
  shows "length (joined sep (map (field_text mid) kvs)) + length sep
           = (\<Sum>kv \<leftarrow> kvs. length (fst kv) + length (snd kv) + (length sep + length mid))"
proof -
  have s: "length (concat (map (\<lambda>kv. sep @ field_text mid kv) xs))
      = (\<Sum>kv \<leftarrow> xs. length (fst kv) + length (snd kv) + (length sep + length mid))" for xs
    by (induction xs) (auto simp: field_text_def)
  obtain x xs where "kvs = x # xs" using assms by (cases kvs) auto
  with s [of xs] show ?thesis by (simp add: joined_def comp_def field_text_def)
qed

lemma joined_no_NUL:
  assumes "fields_ok kvs" "NUL \<notin> set sep" "NUL \<notin> set mid"
  shows "NUL \<notin> set (joined sep (map (field_text mid) kvs))"
proof -
  have c: "NUL \<notin> set (field_text mid kv)" if "kv \<in> set kvs" for kv
    using assms(1,3) that by (auto simp: fields_ok_def field_text_def)
  show ?thesis
  proof (cases kvs)
    case (Cons x xs)
    with c have "NUL \<notin> set (field_text mid x)" "\<forall>y \<in> set xs. NUL \<notin> set (field_text mid y)" by auto
    with assms(2) show ?thesis by (auto simp: Cons joined_def)
  qed (simp add: joined_def)
qed

lemma fields_block:
  assumes "fields_ok kvs" "NUL \<notin> set sep" "NUL \<notin> set mid" "0 < slack"
  defines "t \<equiv> joined sep (map (field_text mid) kvs)"
  shows "\<exists>b blk. wb.put_all (field_ops sep mid False kvs) (Some (replicate (length t + slack) c), 0) = Inr b
           \<and> snd b = length t \<and> buf_end b = Inr (Some blk, length t) \<and> c_string blk = Inr t"
proof -
  have "\<exists>b. wb.put_all (field_ops sep mid False kvs) (Some (replicate (length t + slack) c), 0) = Inr b
         \<and> wbuf_holds b t (length t + slack)"
    using wb.put_all_fits [OF wbuf_holds_new, of "field_ops sep mid False kvs" "length t + slack" c] assms(4)
    by (simp add: field_ops_text t_def del: replicate_Suc)
  then obtain b where b: "wb.put_all (field_ops sep mid False kvs)
      (Some (replicate (length t + slack) c), 0) = Inr b" "wbuf_holds b t (length t + slack)"
    by blast
  obtain blk where blk: "buf_end b = Inr (Some blk, length t)" "take (length t + 1) blk = t @ [NUL]"
    using buf_end_ok [OF b(2)] assms(4) by auto
  have "NUL \<notin> set t" unfolding t_def by (rule joined_no_NUL [OF assms(1-3)])
  moreover have "blk = t @ NUL # drop (length t + 1) blk"
    using append_take_drop_id [of "length t + 1" blk] unfolding blk(2) by simp
  ultimately have "c_string blk = Inr t" using c_string_append by metis
  with b blk wbuf_holds_snd [OF b(2)] show ?thesis by auto
qed

text \<open>Both lists of fields fit exactly into what is allocated for them.\<close>

lemma http_headers_ok:
  assumes "fields_ok kvs" "kvs \<noteq> []"
    and "length (joined k_nhr_CRLF (map (field_text '': '') kvs)) + 2 \<le> mc_limit mc"
  shows "\<exists>blk. nhr_request_http_headers mc (string_records kvs)
             = Inr (Some blk, length (joined k_nhr_CRLF (map (field_text '': '') kvs)))
           \<and> c_string blk = Inr (joined k_nhr_CRLF (map (field_text '': '') kvs))"
proof -
  let ?t = "joined k_nhr_CRLF (map (field_text '': '') kvs)"
  have len: "nhr_request_map_strings_length (string_records kvs) 4 = Inr (length ?t + 2)"
    using map_strings_length_eq [OF assms(1), of 4] joined_length [OF assms(2), of k_nhr_CRLF "'': ''"]
    by simp
  obtain b blk where "wb.put_all (field_ops k_nhr_CRLF '': '' False kvs)
      (Some (replicate (length ?t + 2) (mc_fill mc)), 0) = Inr b" "snd b = length ?t"
      "buf_end b = Inr (Some blk, length ?t)" "c_string blk = Inr ?t"
    using fields_block [OF assms(1), of k_nhr_CRLF "'': ''" 2 "mc_fill mc"] by (auto simp: k_nhr_CRLF_def)
  moreover have "nhr_malloc mc (length ?t + 2) = Inr (Some (replicate (length ?t + 2) (mc_fill mc)))"
    using assms(3) by (intro nhr_malloc_ok) auto
  ultimately show ?thesis
    using len http_headers_loop_ops [OF assms(1)]
    by (simp add: nhr_request_http_headers_def del: replicate_Suc)
qed

lemma url_encoded_parameters_ok:
  assumes "fields_ok kvs" "kvs \<noteq> []"
    and "length (joined ''&'' (map (field_text ''='') kvs)) + 1 \<le> mc_limit mc"
  shows "\<exists>blk. nhr_request_url_encoded_parameters mc (string_records kvs)
             = Inr (Some blk, length (joined ''&'' (map (field_text ''='') kvs)))
           \<and> c_string blk = Inr (joined ''&'' (map (field_text ''='') kvs))"
proof -
  let ?t = "joined ''&'' (map (field_text ''='') kvs)"
  have len: "nhr_request_map_strings_length (string_records kvs) 2 = Inr (length ?t + 1)"
    using map_strings_length_eq [OF assms(1), of 2] joined_length [OF assms(2), of "''&''" "''=''"]
    by (simp add: numeral_2_eq_2)
  obtain b blk where "wb.put_all (field_ops ''&'' ''='' False kvs)
      (Some (replicate (length ?t + 1) (mc_fill mc)), 0) = Inr b" "snd b = length ?t"
      "buf_end b = Inr (Some blk, length ?t)" "c_string blk = Inr ?t"
    using fields_block [OF assms(1), of "''&''" "''=''" 1 "mc_fill mc"] by auto
  moreover have "nhr_malloc mc (length ?t + 1) = Inr (Some (replicate (length ?t + 1) (mc_fill mc)))"
    using assms(3) by (intro nhr_malloc_ok) auto
  ultimately show ?thesis
    using len url_encoded_loop_ops [OF assms(1)]
    by (simp add: nhr_request_url_encoded_parameters_def del: replicate_Suc)
qed

section \<open>The parts of a message\<close>

definition map_holds :: "map_entry list option \<Rightarrow> (string \<times> string) list \<Rightarrow> bool" where
  \<comment> \<open>the map of a request that has collected these strings\<close>
  "map_holds m kvs \<longleftrightarrow> entries.full m \<and> entries.content m = string_records kvs \<and> fields_ok kvs"

definition headers_text :: "(string \<times> string) list \<Rightarrow> string" where
  "headers_text hs = (if hs = [] then k_nhr_CRLF
     else joined k_nhr_CRLF (map (field_text '': '') hs) @ k_nhr_double_CRLF)"

definition query_text :: "(string \<times> string) list \<Rightarrow> string" where
  "query_text ps = joined ''&'' (map (field_text ''='') ps)"

definition host_text :: "nhr_request \<Rightarrow> string \<Rightarrow> string" where
  "host_text r host = ''Host: '' @ host
     @ (if rq_port r = 80 then [] else '':'' @ dec_digits (unat (rq_port r))) @ k_nhr_CRLF"

lemma map_holds_cases:
  assumes "map_holds m kvs"
  shows "m = None \<and> kvs = [] \<or> m = Some (string_records kvs) \<and> kvs \<noteq> []"
  using assms by (cases m) (auto simp: map_holds_def entries.content_def entries.full_def)

definition opt_text :: "bool \<Rightarrow> string \<Rightarrow> wbuf \<Rightarrow> bool" where
  "opt_text present t b \<longleftrightarrow>
     (if present then \<exists>blk. b = (Some blk, length t) \<and> c_string blk = Inr t else b = (None, 0))"

abbreviation fields_of :: "(string \<times> string) list \<Rightarrow> string" where
  "fields_of hs \<equiv> joined k_nhr_CRLF (map (field_text '': '') hs)"

lemma opt_text_len: "opt_text present t b \<Longrightarrow> blk_len b = (if present then length t else 0)"
  by (auto simp: opt_text_def blk_len_def split: if_splits)

lemma headers_text_length:
  "length (headers_text hs) = (if hs = [] then 2 else length (fields_of hs) + 4)"
  by (simp add: headers_text_def)

lemma on_headers_ok:
  assumes "map_holds m hs" "length (headers_text hs) \<le> mc_limit mc"
  shows "\<exists>h. on_map (nhr_request_http_headers mc) m = Inr h \<and> opt_text (hs \<noteq> []) (fields_of hs) h"
proof (cases "hs = []")
  case True
  with map_holds_cases [OF assms(1)] show ?thesis
    by (auto simp: on_map_def opt_text_def)
next
  case False
  then have "m = Some (string_records hs)" "fields_ok hs"
    using map_holds_cases [OF assms(1)] assms(1) by (auto simp: map_holds_def)
  with http_headers_ok [of hs mc] False assms(2) show ?thesis
    by (auto simp: on_map_def opt_text_def headers_text_def)
qed

lemma on_parameters_ok:
  assumes "map_holds m ps" "length (query_text ps) + 1 \<le> mc_limit mc"
  shows "\<exists>p. on_map (nhr_request_url_encoded_parameters mc) m = Inr p
           \<and> opt_text (ps \<noteq> []) (query_text ps) p"
proof (cases "ps = []")
  case True
  with map_holds_cases [OF assms(1)] show ?thesis by (auto simp: on_map_def opt_text_def)
next
  case False
  then have "m = Some (string_records ps)" "fields_ok ps"
    using map_holds_cases [OF assms(1)] assms(1) by (auto simp: map_holds_def)
  with url_encoded_parameters_ok [of ps mc] False assms(2) show ?thesis
    by (auto simp: on_map_def query_text_def opt_text_def)
qed

lemma print_ok:
  "wbuf_holds b t n \<Longrightarrow> length t + length s + 1 \<le> n \<Longrightarrow>
     \<exists>b'. buf_put (Print s) b = Inr b' \<and> wbuf_holds b' (t @ s) n"
  using wb.put_fits [of b t n "Print s"] by simp

lemma copy_ok:
  "wbuf_holds b t n \<Longrightarrow> length t + length d \<le> n \<Longrightarrow>
     \<exists>b'. buf_put (Copy d) b = Inr b' \<and> wbuf_holds b' (t @ d) n"
  using wb.put_fits [of b t n "Copy d"] by simp

lemma put_host_ok:
  assumes "wbuf_holds b t n" "rq_host r = Some (cstr host)" "NUL \<notin> set host"
    and "length t + length (host_text r host) + 1 \<le> n"
  shows "\<exists>b'. put_host r b = Inr b' \<and> wbuf_holds b' (t @ host_text r host) n"
proof -
  have "put_host r b = buf_put (Print (host_text r host)) b"
    using assms(2,3) by (simp add: put_host_def host_text_def)
  with print_ok [OF assms(1,4)] show ?thesis by simp
qed

lemma put_headers_ok:
  assumes "wbuf_holds b t n" "length t + length (headers_text hs) + 1 \<le> n"
    and "opt_text (hs \<noteq> []) (fields_of hs) h"
  shows "\<exists>b'. put_headers (fst h) b = Inr b' \<and> wbuf_holds b' (t @ headers_text hs) n"
proof (cases "hs = []")
  case True
  with assms copy_ok [OF assms(1), of k_nhr_CRLF] show ?thesis
    by (simp add: put_headers_def headers_text_def opt_text_def)
next
  case False
  with assms(3) have "put_headers (fst h) b = buf_put (Print (headers_text hs)) b"
    by (auto simp: put_headers_def headers_text_def opt_text_def)
  with print_ok [OF assms(1,2)] show ?thesis by simp
qed

lemma host_text_length: "length (host_text r host) \<le> length host + 14"
proof -
  have "unat (rq_port r) < 2 ^ 16" using unsigned_less [of "rq_port r"] by simp
  then have "unat (rq_port r) < 10 ^ Suc 4" by simp
  from length_dec_digits [OF this] have "length (dec_digits (unat (rq_port r))) \<le> 5" by simp
  then show ?thesis by (simp add: host_text_def)
qed

section \<open>GET\<close>

definition get_text :: "nhr_request \<Rightarrow> string \<Rightarrow> string \<Rightarrow> (string \<times> string) list \<Rightarrow> (string \<times> string) list \<Rightarrow> string" where
  "get_text r path host hs ps =
     ''GET '' @ path @ (if ps = [] then [] else ''?'' @ query_text ps) @ '' HTTP/1.1'' @ k_nhr_CRLF
     @ host_text r host @ headers_text hs"

lemma get_header_text:
  assumes "rq_path r = Some (cstr path)" "NUL \<notin> set path" "rq_host r = Some (cstr host)" "NUL \<notin> set host"
    and "map_holds (rq_http_headers r) hs" "map_holds (rq_parameters r) ps"
    and "length (get_text r path host hs ps) + 256 \<le> mc_limit mc"
  shows "\<exists>blk. nhr_request_create_header_GET mc r = Inr (Some blk, length (get_text r path host hs ps))
           \<and> take (length (get_text r path host hs ps) + 1) blk = get_text r path host hs ps @ [NUL]"
proof -
  let ?q = "if ps = [] then [] else ''?'' @ query_text ps"
  let ?l = "''GET '' @ path @ ?q @ '' HTTP/1.1'' @ k_nhr_CRLF"
  have sz: "length ?l = length path + length ?q + 15"
      "length (get_text r path host hs ps)
        = length path + length ?q + 15 + length (host_text r host) + length (headers_text hs)"
    by (simp_all add: get_text_def)
  obtain h where h: "on_map (nhr_request_http_headers mc) (rq_http_headers r) = Inr h"
      "opt_text (hs \<noteq> []) (fields_of hs) h"
    using on_headers_ok [OF assms(5), of mc] assms(7) sz(2) by auto
  have "length (query_text ps) + 1 \<le> mc_limit mc"
    using assms(7) sz by (auto simp: query_text_def joined_def split: if_splits)
  from on_parameters_ok [OF assms(6) this] obtain p where
    p: "on_map (nhr_request_url_encoded_parameters mc) (rq_parameters r) = Inr p"
      "opt_text (ps \<noteq> []) (query_text ps) p" by blast
  let ?n = "length path + length host + blk_len h + blk_len p + 256"
  have n: "?n \<le> mc_limit mc" "length (get_text r path host hs ps) + 1 \<le> ?n"
    using assms(7) sz headers_text_length [of hs] opt_text_len [OF h(2)] opt_text_len [OF p(2)]
      host_text_length [of r host] by (auto simp: host_text_def split: if_splits)
  have line: "(case fst p of
               Some p \<Rightarrow> r_bind (c_string p) (\<lambda>ps.
                 buf_put (Print (k_nhr_GET @ '' '' @ path @ ''?'' @ ps @ '' HTTP/'' @ k_nhr_request_http_ver
                                 @ k_nhr_CRLF)) b)
             | None \<Rightarrow>
                 buf_put (Print (k_nhr_GET @ '' '' @ path @ '' HTTP/'' @ k_nhr_request_http_ver
                                 @ k_nhr_CRLF)) b) = buf_put (Print ?l) b" for b
    using p(2) by (auto simp: opt_text_def k_nhr_GET_def k_nhr_request_http_ver_def split: if_splits)
  obtain b1 where b1: "buf_put (Print ?l) (Some (replicate ?n (mc_fill mc)), 0) = Inr b1" "wbuf_holds b1 ?l ?n"
    using print_ok [OF wbuf_holds_new, of ?l ?n "mc_fill mc"] n(2) sz by auto
  obtain b2 where b2: "put_host r b1 = Inr b2" "wbuf_holds b2 (?l @ host_text r host) ?n"
    using put_host_ok [OF b1(2) assms(3,4)] n(2) sz by auto
  obtain b3 where b3: "put_headers (fst h) b2 = Inr b3"
      "wbuf_holds b3 ((?l @ host_text r host) @ headers_text hs) ?n"
    using put_headers_ok [OF b2(2) _ h(2)] n(2) sz by auto
  have t: "(?l @ host_text r host) @ headers_text hs = get_text r path host hs ps"
    by (simp add: get_text_def)
  obtain blk where blk: "buf_end b3 = Inr (Some blk, length (get_text r path host hs ps))"
      "take (length (get_text r path host hs ps) + 1) blk = get_text r path host hs ps @ [NUL]"
    using buf_end_ok [OF b3(2) [unfolded t]] n(2) by auto
  have "nhr_malloc mc ?n = Inr (Some (replicate ?n (mc_fill mc)))"
    using n(1) by (intro nhr_malloc_ok) simp_all
  then have "nhr_request_create_header_GET mc r = buf_end b3"
    unfolding nhr_request_create_header_GET_def
    using assms(1-4) h(1) p(1) b1(1) b2(1) b3(1) by (simp add: line Let_def del: replicate_Suc replicate_add)
  with blk show ?thesis by auto
qed

text \<open>
  C10: For a request that has collected header fields and string parameters through the
  interface, nhr_request_create_header_GET never writes outside its block and builds exactly
  the request line with the query, the Host field with the port where it is not 80, and the
  header fields in order, ended by the empty line; the reported size is that of the text.
\<close>

theorem get_message:
  assumes "rq_path r = Some (cstr path)" "NUL \<notin> set path" "rq_host r = Some (cstr host)" "NUL \<notin> set host"
    and "map_holds (rq_http_headers r) hs" "map_holds (rq_parameters r) ps"
    and "length (get_text r path host hs ps) + 256 \<le> mc_limit mc"
  shows "\<exists>blk. nhr_request_create_header_GET mc r = Inr (Some blk, length (get_text r path host hs ps))
           \<and> take (length (get_text r path host hs ps) + 1) blk = get_text r path host hs ps @ [NUL]"
  by (rule get_header_text [OF assms])

definition example_request :: nhr_request where
  "example_request = new_request\<lparr>rq_port := 8080, rq_path := Some (cstr ''/get''),
     rq_host := Some (cstr ''h.org''), rq_method := Some nhr_method_GET,
     rq_http_headers := Some (string_records [(''Accept'', ''*/*''), (''X-A'', ''1'')]),
     rq_parameters := Some (string_records [(''a'', ''1''), (''b'', ''2'')])\<rparr>"

lemma example_request_maps:
  "map_holds (rq_http_headers example_request) [(''Accept'', ''*/*''), (''X-A'', ''1'')]"
  "map_holds (rq_parameters example_request) [(''a'', ''1''), (''b'', ''2'')]"
  by (simp_all add: map_holds_def example_request_def entries.full_def entries.content_def fields_ok_def
      NHR_MAP_VALUE_STRING_def)

theorem get_message_witness:
  "\<exists>blk. nhr_request_create_header_GET example_mach example_request
     = Inr (Some blk, length (get_text example_request ''/get'' ''h.org''
         [(''Accept'', ''*/*''), (''X-A'', ''1'')] [(''a'', ''1''), (''b'', ''2'')]))"
  using get_message [OF _ _ _ _ example_request_maps, of "''/get''" "''h.org''" example_mach]
    host_text_length [of example_request "''h.org''"]
  by (auto simp: example_request_def example_mach_def get_text_def headers_text_def query_text_def
      joined_def field_text_def k_nhr_CRLF_def k_nhr_double_CRLF_def)

lemma example_get_text:
  "get_text example_request ''/get'' ''h.org'' [(''Accept'', ''*/*''), (''X-A'', ''1'')] [(''a'', ''1''), (''b'', ''2'')]
     = ''GET /get?a=1&b=2 HTTP/1.1'' @ [CR, LF] @ ''Host: h.org:8080'' @ [CR, LF]
       @ ''Accept: */*'' @ [CR, LF] @ ''X-A: 1'' @ [CR, LF, CR, LF]"
  by (simp add: example_request_def get_text_def headers_text_def query_text_def host_text_def
      joined_def field_text_def k_nhr_CRLF_def k_nhr_double_CRLF_def dec_digits.simps digit_char_def
      char_of_def bit_0)

section \<open>POST\<close>

definition post_text :: "nhr_request \<Rightarrow> string \<Rightarrow> string \<Rightarrow> (string \<times> string) list \<Rightarrow> bytes \<Rightarrow> bytes" where
  "post_text r path host hs body =
     ''POST '' @ path @ '' HTTP/1.1'' @ k_nhr_CRLF @ host_text r host @ headers_text hs
     @ (if body = [] then [] else body @ k_nhr_double_CRLF)"

definition body_block :: "wbuf \<Rightarrow> bytes \<Rightarrow> bool" where
  "body_block b body \<longleftrightarrow> snd b = length body
     \<and> (body \<noteq> [] \<longrightarrow> (\<exists>blk. fst b = Some blk \<and> length body \<le> length blk \<and> take (length body) blk = body))"

lemma post_message_from:
  assumes "rq_path r = Some (cstr path)" "NUL \<notin> set path" "rq_host r = Some (cstr host)" "NUL \<notin> set host"
    and "(if rq_is_have_data_parameter r then nhr_request_create_data_parameters_POST mc r
          else nhr_request_create_url_encoded_parameters_POST mc r) = Inr (b, r1)"
    and "body_block b body" "rq_path r1 = rq_path r" "rq_host r1 = rq_host r" "rq_port r1 = rq_port r"
    and "map_holds (rq_http_headers r1) hs"
    and "length (post_text r path host hs body) + 256 \<le> mc_limit mc"
  shows "\<exists>blk. nhr_request_create_header_POST mc r = Inr ((Some blk, length (post_text r path host hs body)), r1)
           \<and> take (length (post_text r path host hs body) + 1) blk = post_text r path host hs body @ [NUL]"
proof -
  let ?l = "''POST '' @ path @ '' HTTP/1.1'' @ k_nhr_CRLF"
  let ?t = "(?l @ host_text r host) @ headers_text hs"
  have sz: "length ?l = length path + 16"
      "length (post_text r path host hs body) = length path + 16 + length (host_text r host)
        + length (headers_text hs) + (if body = [] then 0 else length body + 4)"
    by (simp_all add: post_text_def)
  have ht: "host_text r1 host = host_text r host" using assms(9) by (simp add: host_text_def)
  obtain h where h: "on_map (nhr_request_http_headers mc) (rq_http_headers r1) = Inr h"
      "opt_text (hs \<noteq> []) (fields_of hs) h"
    using on_headers_ok [OF assms(10), of mc] assms(11) sz(2) by auto
  have bl: "blk_len b = length body" using assms(6) by (auto simp: blk_len_def body_block_def)
  let ?n = "length path + length host + blk_len b + blk_len h + 256"
  have n: "?n \<le> mc_limit mc" "length (post_text r path host hs body) + 1 \<le> ?n"
    using assms(11) sz headers_text_length [of hs] opt_text_len [OF h(2)] bl host_text_length [of r host]
    by (auto simp: host_text_def split: if_splits)
  obtain b1 where b1: "buf_put (Print ?l) (Some (replicate ?n (mc_fill mc)), 0) = Inr b1" "wbuf_holds b1 ?l ?n"
    using print_ok [OF wbuf_holds_new, of ?l ?n "mc_fill mc"] n(2) sz by auto
  obtain b2 where b2: "put_host r1 b1 = Inr b2" "wbuf_holds b2 (?l @ host_text r host) ?n"
    using put_host_ok [OF b1(2), of r1 host] assms(3,4,8) ht n(2) sz by auto
  obtain b3 where b3: "put_headers (fst h) b2 = Inr b3" "wbuf_holds b3 ?t ?n"
    using put_headers_ok [OF b2(2) _ h(2)] n(2) sz by auto
  obtain b4 where b4: "(if snd b > 0
             then r_bind (blk_read (fst b) (snd b)) (\<lambda>d.
                  r_bind (buf_put (Copy d) b3) (buf_put (Copy k_nhr_double_CRLF)))
             else Inr b3) = Inr b4" "wbuf_holds b4 (post_text r path host hs body) ?n"
  proof (cases "body = []")
    case True
    with assms(6) b3(2) show thesis by (intro that [of b3]) (simp_all add: body_block_def post_text_def)
  next
    case False
    then have r: "blk_read (fst b) (snd b) = Inr body" "snd b > 0"
      using assms(6) by (auto simp: body_block_def blk_read_def mem_read_def)
    obtain b5 where b5: "buf_put (Copy body) b3 = Inr b5" "wbuf_holds b5 (?t @ body) ?n"
      using copy_ok [OF b3(2), of body] n(2) sz False by auto
    obtain b6 where b6: "buf_put (Copy k_nhr_double_CRLF) b5 = Inr b6"
        "wbuf_holds b6 ((?t @ body) @ k_nhr_double_CRLF) ?n"
      using copy_ok [OF b5(2), of k_nhr_double_CRLF] n(2) sz False by auto
    have "(?t @ body) @ k_nhr_double_CRLF = post_text r path host hs body"
      using False by (simp add: post_text_def)
    with r b5(1) b6 show thesis by (intro that [of b6]) simp_all
  qed
  obtain blk where blk: "buf_end b4 = Inr (Some blk, length (post_text r path host hs body))"
      "take (length (post_text r path host hs body) + 1) blk = post_text r path host hs body @ [NUL]"
    using buf_end_ok [OF b4(2)] n(2) by auto
  have m: "nhr_malloc mc ?n = Inr (Some (replicate ?n (mc_fill mc)))"
    using n(1) by (intro nhr_malloc_ok) simp_all
  have "nhr_request_create_header_POST mc r = r_bind (buf_end b4) (\<lambda>b. Inr (b, r1))"
    unfolding nhr_request_create_header_POST_def
    using assms(1-4,7) h(1) b1(1) b2(1) b3(1) b4(1) m
    by (simp add: assms(5) Let_def k_nhr_POST_def k_nhr_request_http_ver_def
        del: replicate_Suc replicate_add buf_put.simps)
  with blk show ?thesis by auto
qed

subsection \<open>Forms\<close>

definition same_target :: "nhr_request \<Rightarrow> nhr_request \<Rightarrow> bool" where
  "same_target r r' \<longleftrightarrow> rq_path r' = rq_path r \<and> rq_host r' = rq_host r \<and> rq_port r' = rq_port r
     \<and> rq_parameters r' = rq_parameters r \<and> rq_boundary r' = rq_boundary r
     \<and> rq_is_have_data_parameter r' = rq_is_have_data_parameter r"

lemma add_header_keeps:
  assumes "map_holds (rq_http_headers r) hs" "256 \<le> mc_limit mc" "text_arg mc k" "text_arg mc v"
  shows "\<exists>r'. rq_add_header_field mc r (Some (cstr k)) (Some (cstr v)) = Inr r'
           \<and> map_holds (rq_http_headers r') (hs @ [(k, v)]) \<and> same_target r r'"
proof -
  have "sizes_fit mc" "entries.full (rq_http_headers r)"
    using assms(1,2) by (simp_all add: sizes_fit_def sizeof_map_node_def map_holds_def)
  from add_header_field_ok [OF this assms(3,4)] show ?thesis
    using assms(1,3,4)
    by (auto simp: map_holds_def fields_ok_def text_arg_def same_target_def header_flags_def)
qed

lemma local_print_ok: "length s < n \<Longrightarrow> local_print n s = Inr (cstr s)"
  by (simp add: local_print_def)

lemma dec_digits_64: "n < 2 ^ 64 \<Longrightarrow> length (dec_digits n) \<le> 20"
  using length_dec_digits [of n 19] by simp

lemma text_arg_digits: "n < 2 ^ 64 \<Longrightarrow> 256 \<le> mc_limit mc \<Longrightarrow> text_arg mc (dec_digits n)"
  using dec_digits_64 [of n] by (simp add: text_arg_def)

lemma text_arg_names:
  assumes "256 \<le> mc_limit mc"
  shows "text_arg mc k_nhr_content_type" "text_arg mc k_nhr_content_length"
    "text_arg mc k_nhr_application_x_www_form_urlencoded"
  using assms by (simp_all add: text_arg_def k_nhr_content_type_def k_nhr_content_length_def
      k_nhr_application_x_www_form_urlencoded_def)

definition body_headers :: "string \<Rightarrow> bytes \<Rightarrow> (string \<times> string) list" where
  "body_headers ctype body =
     [(k_nhr_content_type, ctype), (k_nhr_content_length, dec_digits (length body))]"

lemma c_string_prefix_of: "c_string blk = Inr s \<Longrightarrow> \<exists>rest. blk = s @ rest"
  by (metis c_string_Inr_conv takeWhile_dropWhile_id)

lemma form_parameters:
  assumes "map_holds (rq_http_headers r) hs" "map_holds (rq_parameters r) ps" "ps \<noteq> []"
    and "length (query_text ps) + 256 \<le> mc_limit mc" "length body < 2 ^ 64"
    and comp: "\<And>rest. \<exists>b. compress_parameters mc r (Some (query_text ps @ rest), length (query_text ps)) = Inr b
                 \<and> body_block b body"
  shows "\<exists>b r1. nhr_request_create_url_encoded_parameters_POST mc r = Inr (b, r1) \<and> body_block b body
           \<and> map_holds (rq_http_headers r1)
               (hs @ body_headers k_nhr_application_x_www_form_urlencoded body) \<and> same_target r r1"
proof -
  have lim: "256 \<le> mc_limit mc" "length (query_text ps) + 1 \<le> mc_limit mc" using assms(4) by simp_all
  obtain blk where p: "on_map (nhr_request_url_encoded_parameters mc) (rq_parameters r)
        = Inr (Some blk, length (query_text ps))" "c_string blk = Inr (query_text ps)"
    using on_parameters_ok [OF assms(2) lim(2)] assms(3) by (auto simp: opt_text_def)
  obtain rest where "blk = query_text ps @ rest" using c_string_prefix_of [OF p(2)] by blast
  with comp [of rest] obtain b where
    b: "compress_parameters mc r (Some blk, length (query_text ps)) = Inr b" "body_block b body" by auto
  have len: "snd b = length body" using b(2) by (simp add: body_block_def)
  obtain r1 where r1: "rq_add_header_field mc r (Some (cstr k_nhr_content_type))
        (Some (cstr k_nhr_application_x_www_form_urlencoded)) = Inr r1"
      "map_holds (rq_http_headers r1) (hs @ [(k_nhr_content_type, k_nhr_application_x_www_form_urlencoded)])"
      "same_target r r1"
    using add_header_keeps [OF assms(1) lim(1) text_arg_names(1,3) [OF lim(1)]] by blast
  obtain r2 where r2: "rq_add_header_field mc r1 (Some (cstr k_nhr_content_length))
        (Some (cstr (dec_digits (length body)))) = Inr r2"
      "map_holds (rq_http_headers r2) ((hs @ [(k_nhr_content_type, k_nhr_application_x_www_form_urlencoded)])
         @ [(k_nhr_content_length, dec_digits (length body))])"
      "same_target r1 r2"
    using add_header_keeps [OF r1(2) lim(1) text_arg_names(2) [OF lim(1)]
        text_arg_digits [OF assms(5) lim(1)]] by blast
  have "local_print 24 (dec_digits (snd b)) = Inr (cstr (dec_digits (length body)))"
    using dec_digits_64 [OF assms(5)] len by (intro local_print_ok [THEN trans]) simp_all
  then have "nhr_request_create_url_encoded_parameters_POST mc r = Inr (b, r2)"
    using p b(1) r1(1) r2(1) by (simp add: nhr_request_create_url_encoded_parameters_POST_def)
  with b(2) r1(3) r2(2,3) show ?thesis by (auto simp: body_headers_def same_target_def)
qed

lemma form_no_parameters:
  assumes "map_holds (rq_parameters r) []"
  shows "nhr_request_create_url_encoded_parameters_POST mc r = Inr ((None, 0), r)"
  using map_holds_cases [OF assms]
  by (simp add: nhr_request_create_url_encoded_parameters_POST_def on_map_def)

definition form_headers :: "(string \<times> string) list \<Rightarrow> bytes \<Rightarrow> (string \<times> string) list" where
  "form_headers hs body =
     (if body = [] then hs else hs @ body_headers k_nhr_application_x_www_form_urlencoded body)"

text \<open>
  C22: For a request with string parameters and no compression, nhr_request_create_header_POST
  never writes outside its block and builds exactly the request line, the Host field, the
  collected header fields followed by Content-Type and a Content-Length that is the number of
  bytes of the form, the empty line, and the form; then it appends four bytes more (a
  second empty line) that Content-Length does not count.
\<close>

theorem post_form_message:
  assumes "rq_path r = Some (cstr path)" "NUL \<notin> set path" "rq_host r = Some (cstr host)" "NUL \<notin> set host"
    and "map_holds (rq_http_headers r) hs" "map_holds (rq_parameters r) ps"
    and "\<not> rq_is_have_data_parameter r" "\<not> rq_is_gziped r" "\<not> rq_is_deflated r"
    and "length (query_text ps) < 2 ^ 64"
    and "length (post_text r path host (form_headers hs (query_text ps)) (query_text ps)) + 256 \<le> mc_limit mc"
  shows "\<exists>blk r1. nhr_request_create_header_POST mc r
             = Inr ((Some blk, length (post_text r path host (form_headers hs (query_text ps)) (query_text ps))), r1)
           \<and> take (length (post_text r path host (form_headers hs (query_text ps)) (query_text ps)) + 1) blk
             = post_text r path host (form_headers hs (query_text ps)) (query_text ps) @ [NUL]"
proof -
  have q: "query_text ps = [] \<longleftrightarrow> ps = []"
    by (auto simp: query_text_def joined_def field_text_def split: list.split)
  have "\<exists>b r1. nhr_request_create_url_encoded_parameters_POST mc r = Inr (b, r1)
      \<and> body_block b (query_text ps) \<and> map_holds (rq_http_headers r1) (form_headers hs (query_text ps))
      \<and> same_target r r1"
  proof (cases "ps = []")
    case True
    with form_no_parameters [of r mc] assms(5,6) q show ?thesis
      by (auto simp: body_block_def form_headers_def same_target_def)
  next
    case False
    have "\<exists>b. compress_parameters mc r (Some (query_text ps @ rest), length (query_text ps)) = Inr b
        \<and> body_block b (query_text ps)" for rest
      using assms(8,9) by (simp add: compress_parameters_def body_block_def)
    moreover have "length (query_text ps) + 256 \<le> mc_limit mc"
      using assms(11) by (simp add: post_text_def split: if_splits)
    ultimately show ?thesis
      using form_parameters [OF assms(5,6) False, of mc "query_text ps"] assms(10) False q
      by (simp add: form_headers_def)
  qed
  then obtain b r1 where b: "nhr_request_create_url_encoded_parameters_POST mc r = Inr (b, r1)"
      "body_block b (query_text ps)" "map_holds (rq_http_headers r1) (form_headers hs (query_text ps))"
      "same_target r r1" by blast
  have "(if rq_is_have_data_parameter r then nhr_request_create_data_parameters_POST mc r
          else nhr_request_create_url_encoded_parameters_POST mc r) = Inr (b, r1)"
    using b(1) assms(7) by simp
  from post_message_from [OF assms(1-4) this b(2) _ _ _ b(3) assms(11)] b(4)
  show ?thesis by (auto simp: same_target_def)
qed

definition example_post :: bytes where
  "example_post = ''POST /get HTTP/1.1'' @ [CR, LF] @ ''Host: h.org:8080'' @ [CR, LF]
       @ ''Accept: */*'' @ [CR, LF] @ ''X-A: 1'' @ [CR, LF]
       @ ''Content-Type: application/x-www-form-urlencoded'' @ [CR, LF]
       @ ''Content-Length: 7'' @ [CR, LF, CR, LF] @ ''a=1&b=2'' @ [CR, LF, CR, LF]"

lemma length_example_post: "length example_post = 140"
  by (simp add: example_post_def)

lemma example_post_text:
  "post_text (example_request\<lparr>rq_method := Some nhr_method_POST\<rparr>) ''/get'' ''h.org''
      (form_headers [(''Accept'', ''*/*''), (''X-A'', ''1'')] ''a=1&b=2'') ''a=1&b=2'' = example_post"
  by (simp add: example_request_def post_text_def headers_text_def form_headers_def example_post_def
        body_headers_def k_nhr_content_type_def k_nhr_content_length_def host_text_def
        k_nhr_application_x_www_form_urlencoded_def joined_def field_text_def k_nhr_CRLF_def
        k_nhr_double_CRLF_def dec_digits.simps digit_char_def char_of_def bit_0)

theorem post_form_message_witness:
  "\<exists>blk r1. nhr_request_create_header_POST example_gz_mach (example_request\<lparr>rq_method := Some nhr_method_POST\<rparr>)
     = Inr ((Some blk, 140), r1) \<and> take 141 blk = example_post @ [NUL]"
proof -
  let ?r = "example_request\<lparr>rq_method := Some nhr_method_POST\<rparr>"
  have m: "map_holds (rq_http_headers ?r) [(''Accept'', ''*/*''), (''X-A'', ''1'')]"
      "map_holds (rq_parameters ?r) [(''a'', ''1''), (''b'', ''2'')]"
    using example_request_maps by simp_all
  have q: "query_text [(''a'', ''1''), (''b'', ''2'')] = ''a=1&b=2''"
    by (simp add: query_text_def joined_def field_text_def)
  have s: "rq_path ?r = Some (cstr ''/get'')" "rq_host ?r = Some (cstr ''h.org'')"
      "\<not> rq_is_have_data_parameter ?r" "\<not> rq_is_gziped ?r" "\<not> rq_is_deflated ?r"
    by (simp_all add: example_request_def new_request_def)
  show ?thesis
    using post_form_message [OF s(1) _ s(2) _ m s(3-5), of example_gz_mach,
        unfolded q example_post_text length_example_post] by simp
qed

subsection \<open>Compressed forms\<close>

lemma form_fault:
  assumes "map_holds (rq_parameters r) ps" "ps \<noteq> []" "length (query_text ps) + 256 \<le> mc_limit mc"
    and comp: "\<And>rest. compress_parameters mc r (Some (query_text ps @ rest), length (query_text ps)) = Inl f"
  shows "nhr_request_create_url_encoded_parameters_POST mc r = Inl f"
proof -
  have lim: "length (query_text ps) + 1 \<le> mc_limit mc" using assms(3) by simp
  obtain blk where p: "on_map (nhr_request_url_encoded_parameters mc) (rq_parameters r)
        = Inr (Some blk, length (query_text ps))" "c_string blk = Inr (query_text ps)"
    using on_parameters_ok [OF assms(1) lim] assms(2) by (auto simp: opt_text_def)
  obtain rest where "blk = query_text ps @ rest" using c_string_prefix_of [OF p(2)] by blast
  with comp [of rest] p(1) show ?thesis by (simp add: nhr_request_create_url_encoded_parameters_POST_def)
qed

text \<open>
  C23: With a header field of value gzip the form is sent compressed, on a platform
  whose \<open>uLong\<close> has four or eight bytes: what follows the empty line is the header, the deflate encoding and the
  CRC32 of the form, and then its size if \<open>uLong\<close> has four bytes, four zero bytes if it has eight;
  Content-Length is the number of these bytes. The only fault there can be is that, with eight
  bytes, the footer leaves the output block of the compressor, and then the encoding fills 497 bytes or
  more of its last 512-byte chunk.
\<close>

theorem post_gzip_message:
  assumes "rq_path r = Some (cstr path)" "NUL \<notin> set path" "rq_host r = Some (cstr host)" "NUL \<notin> set host"
    and "map_holds (rq_http_headers r) hs" "map_holds (rq_parameters r) ps" "ps \<noteq> []"
    and "\<not> rq_is_have_data_parameter r" "rq_is_gziped r" "gz_sizeof_ulong mc \<in> {4, 8}"
    and "compress_ready mc enc R NHR_GZ_METHOD_GZIP (query_text ps)"
    and "body = gz_header (gz_time mc) @ enc (query_text ps)
           @ le_bytes 4 (unat (z_crc32 (gz_zlib mc) (query_text ps)))
           @ (if gz_sizeof_ulong mc = 4 then le_bytes 4 (length (query_text ps)) else replicate 4 NUL)"
    and "length body < 2 ^ 64" "length (query_text ps) + 256 \<le> mc_limit mc"
    and "length (post_text r path host (form_headers hs body) body) + 256 \<le> mc_limit mc"
  shows "case nhr_request_create_header_POST mc r of
       Inl f \<Rightarrow> f = OutOfBounds \<and> gz_sizeof_ulong mc = 8
          \<and> (length (enc (query_text ps)) mod 512 = 0 \<or> 496 < length (enc (query_text ps)) mod 512)
     | Inr ((blk, n), r1) \<Rightarrow> n = length (post_text r path host (form_headers hs body) body)
          \<and> (\<exists>b. blk = Some b \<and> take (n + 1) b = post_text r path host (form_headers hs body) body @ [NUL])"
proof -
  let ?q = "query_text ps"
  have body: "body = gz_written mc (enc ?q) ?q" using assms(12) by (simp add: gz_written_def)
  have ne: "body \<noteq> []" unfolding assms(12) by (simp add: gz_header_def)
  have q: "length ?q < 2 ^ 32" using assms(11) by (simp add: compress_ready_def)
  have cp: "compress_parameters mc r (Some (?q @ rest), length ?q)
      = r_bind (nhr_gz_compress mc (Some ?q) (length ?q) NHR_GZ_METHOD_GZIP) (\<lambda>z.
          case z of Some (Some zb, n) \<Rightarrow> if n \<noteq> 0 then Inr (Some zb, n) else Inr (Some (?q @ rest), length ?q)
                  | _ \<Rightarrow> Inr (Some (?q @ rest), length ?q))" for rest
    using assms(9) compress_prefix [OF q, of mc rest NHR_GZ_METHOD_GZIP] by (simp add: compress_parameters_def)
  consider (fault) "nhr_gz_compress mc (Some ?q) (length ?q) NHR_GZ_METHOD_GZIP = Inl OutOfBounds"
      "footer_spills mc (enc ?q)"
    | (block) zb where "nhr_gz_compress mc (Some ?q) (length ?q) NHR_GZ_METHOD_GZIP = Inr (Some (Some zb, length body))"
      "take (length body) zb = body" "length body \<le> length zb"
    using compress_gzip_cases [OF assms(11,10)] unfolding body by auto
  then show ?thesis
  proof cases
    case fault
    then have "nhr_request_create_url_encoded_parameters_POST mc r = Inl OutOfBounds"
      by (intro form_fault [OF assms(6,7,14)]) (simp add: cp)
    with assms(1-4,8) fault(2) show ?thesis
      by (simp add: nhr_request_create_header_POST_def footer_spills_def)
  next
    case block
    then have "\<exists>b. compress_parameters mc r (Some (?q @ rest), length ?q) = Inr b \<and> body_block b body" for rest
      using ne by (simp add: cp body_block_def)
    from form_parameters [OF assms(5-7,14,13) this] obtain b r1 where
      b: "nhr_request_create_url_encoded_parameters_POST mc r = Inr (b, r1)" "body_block b body"
         "map_holds (rq_http_headers r1) (form_headers hs body)" "same_target r r1"
      using ne by (auto simp: form_headers_def)
    have "(if rq_is_have_data_parameter r then nhr_request_create_data_parameters_POST mc r
            else nhr_request_create_url_encoded_parameters_POST mc r) = Inr (b, r1)"
      using b(1) assms(8) by simp
    from post_message_from [OF assms(1-4) this b(2) _ _ _ b(3) assms(15)] b(4)
    show ?thesis by (auto simp: same_target_def)
  qed
qed

theorem post_gzip_message_witness:
  "\<exists>blk n r1. nhr_request_create_header_POST (stored_mach 8)
       (example_request\<lparr>rq_method := Some nhr_method_POST, rq_is_gziped := True\<rparr>)
     = Inr ((Some blk, n), r1) \<and> n < 300"
proof -
  let ?r = "example_request\<lparr>rq_method := Some nhr_method_POST, rq_is_gziped := True\<rparr>"
  let ?hs = "[(''Accept'', ''*/*''), (''X-A'', ''1'')]" and ?ps = "[(''a'', ''1''), (''b'', ''2'')]"
  have m: "map_holds (rq_http_headers ?r) ?hs" "map_holds (rq_parameters ?r) ?ps"
    using example_request_maps by simp_all
  have q: "query_text ?ps = ''a=1&b=2''"
    by (simp add: query_text_def joined_def field_text_def)
  have s: "rq_path ?r = Some (cstr ''/get'')" "rq_host ?r = Some (cstr ''h.org'')"
      "\<not> rq_is_have_data_parameter ?r" "rq_is_gziped ?r"
    by (simp_all add: example_request_def new_request_def)
  define body where "body = gz_header (gz_time (stored_mach 8)) @ query_text ?ps
           @ le_bytes 4 (unat (z_crc32 (gz_zlib (stored_mach 8)) (query_text ?ps)))
           @ (if gz_sizeof_ulong (stored_mach 8) = 4 then le_bytes 4 (length (query_text ?ps)) else replicate 4 NUL)"
  have lb: "length body = 25" by (simp add: body_def q)
  have "length (dec_digits (length body)) \<le> 20" using lb by (intro dec_digits_64) simp
  then have t: "length (post_text ?r ''/get'' ''h.org'' (form_headers ?hs body) body) < 300"
    using lb host_text_length [of ?r "''h.org''"]
    by (auto simp: post_text_def headers_text_def form_headers_def
        body_headers_def k_nhr_content_type_def k_nhr_content_length_def
        k_nhr_application_x_www_form_urlencoded_def joined_def field_text_def)
  have "compress_ready (stored_mach 8) (\<lambda>x. x) stored_R NHR_GZ_METHOD_GZIP (query_text ?ps)"
    by (rule stored_ready) (simp_all add: q)
  from post_gzip_message [OF s(1) _ s(2) _ m _ s(3,4) _ this body_def] t lb show ?thesis
    by (auto simp: q split: sum.splits prod.splits)
qed

subsection \<open>Multipart bodies\<close>

datatype part =
    Text_part string string
  | File_part string string bytes

fun part_record :: "part \<Rightarrow> map_entry" where
  "part_record (Text_part k v) = string_record k v"
| "part_record (File_part k f d) = data_record k f d"

fun part_ok :: "part \<Rightarrow> bool" where
  "part_ok (Text_part k v) \<longleftrightarrow> NUL \<notin> set k \<and> NUL \<notin> set v"
| "part_ok (File_part k f d) \<longleftrightarrow> NUL \<notin> set k \<and> NUL \<notin> set f"

definition quoted :: "string \<Rightarrow> string" where
  "quoted s = [CHR 0x22] @ s @ [CHR 0x22]"

fun part_text :: "part \<Rightarrow> bytes" where
  "part_text (Text_part k v) =
     ''Content-Disposition: form-data; name='' @ quoted k @ k_nhr_double_CRLF @ v"
| "part_text (File_part k f d) =
     ''Content-Disposition: form-data; name='' @ quoted k @ ''; filename='' @ quoted f @ k_nhr_CRLF
     @ ''Content-Type: application/octet-stream'' @ k_nhr_CRLF
     @ ''Content-Transfer-Encoding: binary'' @ k_nhr_double_CRLF @ d"

definition multipart_text :: "string \<Rightarrow> part list \<Rightarrow> bytes" where
  "multipart_text bd parts =
     joined k_nhr_CRLF (map (\<lambda>p. ''--'' @ bd @ k_nhr_CRLF @ part_text p) parts)
     @ k_nhr_CRLF @ ''--'' @ bd @ ''--''"

fun part_ops :: "part \<Rightarrow> buf_op list" where
  "part_ops (Text_part k v) =
     [Print (''Content-Disposition: form-data; name='' @ quoted k @ k_nhr_double_CRLF), Copy v]"
| "part_ops (File_part k f d) =
     [Print (''Content-Disposition: form-data; name='' @ quoted k @ ''; filename='' @ quoted f @ k_nhr_CRLF),
      Copy (''Content-Type: application/octet-stream'' @ k_nhr_CRLF),
      Copy (''Content-Transfer-Encoding: binary'' @ k_nhr_double_CRLF), Copy d]"

fun multipart_ops :: "string \<Rightarrow> bool \<Rightarrow> part list \<Rightarrow> buf_op list" where
  "multipart_ops bd is_first [] = []"
| "multipart_ops bd is_first (p # rest) =
     (if is_first then [] else [Copy k_nhr_CRLF]) @ [Print (''--'' @ bd @ k_nhr_CRLF)] @ part_ops p
     @ multipart_ops bd False rest"

lemma data_record_sel [simp]:
  "me_key (data_record k f d) = Some (cstr k)" "me_value (data_record k f d) = Some d"
  "me_reserved (data_record k f d) = Some (cstr f)"
  "me_value_size (data_record k f d) = length d" "me_reserved_size (data_record k f d) = length f"
  "me_value_type (data_record k f d) = NHR_MAP_VALUE_DATA"
  by (simp_all add: data_record_def)

lemma map_value_types [simp]:
  "NHR_MAP_VALUE_STRING \<noteq> NHR_MAP_VALUE_DATA" "NHR_MAP_VALUE_STRING \<noteq> 0" "NHR_MAP_VALUE_DATA \<noteq> 0"
  by (simp_all add: NHR_MAP_VALUE_STRING_def NHR_MAP_VALUE_DATA_def)

lemma blk_read_cstr: "blk_read (Some (cstr v)) (length v) = Inr v"
  by (simp add: blk_read_def cstr_def)

lemma blk_read_all: "blk_read (Some d) (length d) = Inr d"
  by (simp add: blk_read_def mem_read_def)

lemma put_data_part_ops:
  assumes "part_ok p"
  shows "put_data_part (part_record p) b = wb.put_all (part_ops p) b"
proof (cases p)
  case (Text_part k v)
  with assms show ?thesis
    by (simp add: put_data_part_def blk_read_cstr quoted_def wb.put_all_Cons del: buf_put.simps)
next
  case (File_part k f d)
  with assms show ?thesis
    by (simp add: put_data_part_def blk_read_all quoted_def wb.put_all_Cons del: buf_put.simps)
qed

lemma data_parameters_loop_ops:
  assumes "\<forall>p \<in> set parts. part_ok p" "NUL \<notin> set bd"
  shows "data_parameters_loop (Some (cstr bd)) (map part_record parts) is_first b
           = wb.put_all (multipart_ops bd is_first parts) b"
  using assms(1)
proof (induction parts arbitrary: is_first b)
  case Nil
  then show ?case by simp
next
  case (Cons p parts)
  then have "put_data_part (part_record p) = wb.put_all (part_ops p)"
      "data_parameters_loop (Some (cstr bd)) (map part_record parts) False
        = wb.put_all (multipart_ops bd False parts)"
    by (auto intro!: ext put_data_part_ops)
  then show ?case
    using assms(2)
    by (cases is_first) (simp_all add: wb.put_all_append_fun wb.put_all_Cons del: buf_put.simps)
qed

lemma part_ops_text: "wb.payloads (part_ops p) = part_text p"
  by (cases p) auto

lemma multipart_ops_rest:
  "wb.payloads (multipart_ops bd False parts)
     = concat (map (\<lambda>p. k_nhr_CRLF @ ''--'' @ bd @ k_nhr_CRLF @ part_text p) parts)"
  by (induction parts) (auto simp: part_ops_text)

lemma multipart_ops_text:
  "wb.payloads (multipart_ops bd True parts)
     = joined k_nhr_CRLF (map (\<lambda>p. ''--'' @ bd @ k_nhr_CRLF @ part_text p) parts)"
  by (cases parts) (simp_all add: multipart_ops_rest joined_def part_ops_text comp_def)

lemma data_parameters_length_eq:
  assumes "\<forall>p \<in> set parts. part_ok p"
  shows "data_parameters_length (map part_record parts)
           = Inr (\<Sum>p \<leftarrow> parts. length (part_text p) + 19)"
  using assms
proof (induction parts)
  case Nil
  then show ?case by simp
next
  case (Cons p parts)
  then show ?case
    by (cases p) (simp_all add: NHR_POST_BOUNDARY_LEN_def k_nhr_double_CRLF_length_def quoted_def)
qed

lemma multipart_fits:
  assumes "length bd = 12"
  shows "length (multipart_text bd parts) + 1
           \<le> (\<Sum>p \<leftarrow> parts. length (part_text p) + 19) + (NHR_POST_BOUNDARY_LEN + 4) + 4"
proof -
  have s: "length (concat (map (\<lambda>p. k_nhr_CRLF @ ''--'' @ bd @ k_nhr_CRLF @ part_text p) xs))
      \<le> (\<Sum>p \<leftarrow> xs. length (part_text p) + 19)" for xs
    by (induction xs) (auto simp: assms)
  show ?thesis
  proof (cases parts)
    case Nil
    then show ?thesis using assms by (simp add: multipart_text_def joined_def NHR_POST_BOUNDARY_LEN_def)
  next
    case (Cons x xs)
    with s [of xs] show ?thesis
      using assms by (simp add: multipart_text_def joined_def NHR_POST_BOUNDARY_LEN_def comp_def)
  qed
qed

definition multipart_headers :: "string \<Rightarrow> bytes \<Rightarrow> (string \<times> string) list" where
  "multipart_headers bd body = body_headers (''multipart/form-data; boundary='' @ bd) body"

lemma data_parameters_ok:
  assumes "map_holds (rq_http_headers r) hs" "rq_boundary r = Some (cstr bd)" "NUL \<notin> set bd" "length bd = 12"
    and "entries.content (rq_parameters r) = map part_record parts" "\<forall>p \<in> set parts. part_ok p"
    and "(\<Sum>p \<leftarrow> parts. length (part_text p) + 19) + 256 \<le> mc_limit mc"
    and "length (multipart_text bd parts) < 2 ^ 64"
  shows "\<exists>b r1. nhr_request_create_data_parameters_POST mc r = Inr (b, r1)
           \<and> body_block b (multipart_text bd parts)
           \<and> map_holds (rq_http_headers r1) (hs @ multipart_headers bd (multipart_text bd parts))
           \<and> same_target r r1"
proof -
  let ?t = "multipart_text bd parts"
  let ?n = "(\<Sum>p \<leftarrow> parts. length (part_text p) + 19) + (NHR_POST_BOUNDARY_LEN + 4) + 4"
  let ?ct = "''multipart/form-data; boundary='' @ bd"
  have lim: "256 \<le> mc_limit mc" "?n \<le> mc_limit mc" using assms(7) by (simp_all add: NHR_POST_BOUNDARY_LEN_def)
  have fits: "length ?t + 1 \<le> ?n" by (rule multipart_fits [OF assms(4)])
  have pe: "(case rq_parameters r of None \<Rightarrow> [] | Some es \<Rightarrow> es) = map part_record parts"
    using assms(5) by (simp add: entries.content_def)
  let ?j = "joined k_nhr_CRLF (map (\<lambda>p. ''--'' @ bd @ k_nhr_CRLF @ part_text p) parts)"
  obtain b1 where b1: "data_parameters_loop (rq_boundary r) (map part_record parts) True
        (Some (replicate ?n (mc_fill mc)), 0) = Inr b1" "wbuf_holds b1 ?j ?n"
    using wb.put_all_fits [OF wbuf_holds_new, of "multipart_ops bd True parts" ?n "mc_fill mc"] fits
      data_parameters_loop_ops [OF assms(6,3)] assms(2)
    by (auto simp: multipart_ops_text multipart_text_def)
  obtain b2 where b2: "buf_put (Print (k_nhr_CRLF @ ''--'' @ bd @ ''--'')) b1 = Inr b2" "wbuf_holds b2 ?t ?n"
    using print_ok [OF b1(2), of "k_nhr_CRLF @ ''--'' @ bd @ ''--''"] fits
    by (auto simp: multipart_text_def)
  obtain blk where blk: "buf_end b2 = Inr (Some blk, length ?t)" "take (length ?t + 1) blk = ?t @ [NUL]"
      "length blk = ?n"
    using buf_end_ok [OF b2(2)] fits by auto
  have "text_arg mc ?ct" using assms(3,4) lim(1) by (simp add: text_arg_def)
  then obtain r1 where r1: "rq_add_header_field mc r (Some (cstr k_nhr_content_type)) (Some (cstr ?ct)) = Inr r1"
      "map_holds (rq_http_headers r1) (hs @ [(k_nhr_content_type, ?ct)])" "same_target r r1"
    using add_header_keeps [OF assms(1) lim(1) text_arg_names(1) [OF lim(1)]] by blast
  obtain r2 where r2: "rq_add_header_field mc r1 (Some (cstr k_nhr_content_length))
        (Some (cstr (dec_digits (length ?t)))) = Inr r2"
      "map_holds (rq_http_headers r2) ((hs @ [(k_nhr_content_type, ?ct)]) @ [(k_nhr_content_length, dec_digits (length ?t))])"
      "same_target r1 r2"
    using add_header_keeps [OF r1(2) lim(1) text_arg_names(2) [OF lim(1)]
        text_arg_digits [OF assms(8) lim(1)]] by blast
  have l: "local_print (NHR_POST_BOUNDARY_LEN + 32) ?ct = Inr (cstr ?ct)"
      "local_print 24 (dec_digits (snd b2)) = Inr (cstr (dec_digits (length ?t)))"
    using assms(4) dec_digits_64 [OF assms(8)] wbuf_holds_snd [OF b2(2)]
    by (simp_all add: local_print_ok NHR_POST_BOUNDARY_LEN_def)
  have m: "nhr_malloc mc ?n = Inr (Some (replicate ?n (mc_fill mc)))"
    using lim(2) by (intro nhr_malloc_ok) simp_all
  have s: "str_arg (rq_boundary r) = Inr bd" using assms(2,3) by simp
  have "nhr_request_create_data_parameters_POST mc r = r_bind (buf_end b2) (\<lambda>b. Inr (b, r2))"
    unfolding nhr_request_create_data_parameters_POST_def pe Let_def
      data_parameters_length_eq [OF assms(6)] r_bind.simps m b1(1) s b2(1) l(1) r1(1) l(2) r2(1) ..
  moreover have "body_block (Some blk, length ?t) ?t"
    using blk(2,3) fits by (auto simp: body_block_def) (metis append_eq_conv_conj lessI less_imp_le_nat min.absorb1 take_take)
  ultimately show ?thesis
    using blk(1) r1(3) r2(2,3) by (auto simp: multipart_headers_def body_headers_def same_target_def)
qed

lemma multipart_message:
  assumes "rq_path r = Some (cstr path)" "NUL \<notin> set path" "rq_host r = Some (cstr host)" "NUL \<notin> set host"
    and "map_holds (rq_http_headers r) hs"
    and "rq_is_have_data_parameter r" "rq_boundary r = Some (cstr bd)" "NUL \<notin> set bd" "length bd = 12"
    and "entries.content (rq_parameters r) = map part_record parts" "\<forall>p \<in> set parts. part_ok p"
    and "(\<Sum>p \<leftarrow> parts. length (part_text p) + 19) + 256 \<le> mc_limit mc"
    and "body = multipart_text bd parts" "length body < 2 ^ 64"
    and "length (post_text r path host (hs @ multipart_headers bd body) body) + 256 \<le> mc_limit mc"
  shows "\<exists>blk r1. nhr_request_create_header_POST mc r
             = Inr ((Some blk, length (post_text r path host (hs @ multipart_headers bd body) body)), r1)
           \<and> take (length (post_text r path host (hs @ multipart_headers bd body) body) + 1) blk
             = post_text r path host (hs @ multipart_headers bd body) body @ [NUL]"
proof -
  from data_parameters_ok [OF assms(5,7-12), folded assms(13), OF assms(14)] obtain b r1 where
    b: "nhr_request_create_data_parameters_POST mc r = Inr (b, r1)" "body_block b body"
       "map_holds (rq_http_headers r1) (hs @ multipart_headers bd body)" "same_target r r1" by blast
  have "(if rq_is_have_data_parameter r then nhr_request_create_data_parameters_POST mc r
          else nhr_request_create_url_encoded_parameters_POST mc r) = Inr (b, r1)"
    using b(1) assms(6) by simp
  from post_message_from [OF assms(1-4) this b(2) _ _ _ b(3) assms(15)] b(4)
  show ?thesis by (auto simp: same_target_def)
qed

text \<open>
  C21: For a request with a data parameter, nhr_request_create_header_POST sizes both of its
  blocks large enough for every mix of string and data parameters (binary data included) and
  builds exactly the multipart message: every part behind the boundary with its disposition,
  the closing boundary, and a Content-Length equal to the number of bytes of the body.
\<close>

theorem post_multipart_message:
  assumes "rq_path r = Some (cstr path)" "NUL \<notin> set path" "rq_host r = Some (cstr host)" "NUL \<notin> set host"
    and "map_holds (rq_http_headers r) hs"
    and "rq_is_have_data_parameter r" "rq_boundary r = Some (cstr bd)" "NUL \<notin> set bd" "length bd = 12"
    and "entries.content (rq_parameters r) = map part_record parts" "\<forall>p \<in> set parts. part_ok p"
    and "(\<Sum>p \<leftarrow> parts. length (part_text p) + 19) + 256 \<le> mc_limit mc"
    and "body = multipart_text bd parts" "length body < 2 ^ 64"
    and "length (post_text r path host (hs @ multipart_headers bd body) body) + 256 \<le> mc_limit mc"
  shows "\<exists>blk r1. nhr_request_create_header_POST mc r
             = Inr ((Some blk, length (post_text r path host (hs @ multipart_headers bd body) body)), r1)
           \<and> take (length (post_text r path host (hs @ multipart_headers bd body) body) + 1) blk
             = post_text r path host (hs @ multipart_headers bd body) body @ [NUL]"
  by (rule multipart_message [OF assms])

definition example_upload :: nhr_request where
  "example_upload = new_request\<lparr>rq_port := 80, rq_path := Some (cstr ''/up''),
     rq_host := Some (cstr ''h.org''), rq_method := Some nhr_method_POST,
     rq_parameters := Some [data_record ''f'' ''a.bin'' [NUL, CHR 0xFF], string_record ''k'' ''v''],
     rq_is_have_data_parameter := True, rq_boundary := Some (cstr ''0123456789AB'')\<rparr>"

theorem post_multipart_message_witness:
  "\<exists>blk n r1. nhr_request_create_header_POST example_gz_mach example_upload = Inr ((Some blk, n), r1)
     \<and> n < 600"
proof -
  let ?parts = "[File_part ''f'' ''a.bin'' [NUL, CHR 0xFF], Text_part ''k'' ''v'']"
  let ?bd = "''0123456789AB''"
  have s: "rq_path example_upload = Some (cstr ''/up'')" "rq_host example_upload = Some (cstr ''h.org'')"
      "map_holds (rq_http_headers example_upload) []" "rq_is_have_data_parameter example_upload"
      "rq_boundary example_upload = Some (cstr ?bd)"
      "entries.content (rq_parameters example_upload) = map part_record ?parts"
    by (simp_all add: example_upload_def new_request_def map_holds_def entries.full_def
        entries.content_def fields_ok_def)
  define body where "body = multipart_text ?bd ?parts"
  have lb: "length body < 300"
    by (simp add: body_def multipart_text_def joined_def quoted_def)
  have "length (dec_digits (length body)) \<le> 20" using lb by (intro dec_digits_64) simp
  then have t: "length (post_text example_upload ''/up'' ''h.org'' ([] @ multipart_headers ?bd body) body) < 600"
    using lb host_text_length [of example_upload "''h.org''"]
    by (auto simp: post_text_def headers_text_def multipart_headers_def body_headers_def
        k_nhr_content_type_def k_nhr_content_length_def joined_def field_text_def)
  have p: "(\<Sum>p \<leftarrow> ?parts. length (part_text p) + 19) + 256 \<le> mc_limit example_gz_mach"
    by (simp add: quoted_def)
  have o: "\<forall>p \<in> set ?parts. part_ok p" by simp
  from post_multipart_message [OF s(1) _ s(2) _ s(3-5) _ _ s(6) o p body_def] t lb
  show ?thesis by auto
qed

end
