(* ===== verification/Nhr_Worker.thy ===== *)
theory Nhr_Worker
  imports Nhr_Methods
begin

text \<open>
  The worker thread of a request (nhr_request_private.c) as a state machine. The state of the
  system is the request, the program counter of the worker, what the client has done, and
  the answers the operating system will give: one script per system call (\<open>time\<close>, \<open>recv\<close>,
  \<open>send\<close>, \<open>getaddrinfo\<close>, \<open>socket\<close>, \<open>connect\<close>, \<open>setsockopt\<close> and \<open>fcntl\<close>), consumed call by call; a script that is used
  up is the fault \<open>OutOfFuel\<close>. The results of \<open>setsockopt\<close> and \<open>fcntl\<close>, which the code does not
  look at, show in \<open>errno\<close> alone, and for them a used up script stands for success. What the thread does to the outside is a log of events.
  \<open>errno\<close> is part of the state: a system call sets it only when it fails. The worker runs a
  handler in one step; the client's calls interleave with the steps, so that a cancel between
  the moment a command is read and the moment the handler stores the next one is seen.
\<close>

section \<open>The system\<close>

datatype recv_answer =
    Recv_data bytes      \<comment> \<open>a positive result\<close>
  | Recv_eof             \<comment> \<open>0: the peer has closed; \<open>errno\<close> keeps its value\<close>
  | Recv_fail int        \<comment> \<open>\<open>-1\<close> and \<open>errno\<close>\<close>

datatype send_answer =
    Sent nat             \<comment> \<open>the number of bytes taken\<close>
  | Send_fail int

datatype addr_answer =
    Addr_list "nat list" \<comment> \<open>0, and the list of addresses (NULL when empty)\<close>
  | Addr_fail int

datatype sock_answer = Sock int | Sock_fail int
datatype conn_answer = Conn_ok | Conn_fail int
datatype opt_answer = Opt_ok | Opt_fail int

datatype event =
    Ev_addrinfo | Ev_freeaddrinfo
  | Ev_socket int | Ev_connected int nat | Ev_close int
  | Ev_option int int int | Ev_nonblock int   \<comment> \<open>\<open>setsockopt\<close>, \<open>fcntl\<close>\<close>
  | Ev_sent bytes | Ev_usleep "32 word"
  | Ev_response "nhr_response option"   \<comment> \<open>\<open>on_recvd_response\<close>\<close>
  | Ev_error nhr_error_code             \<comment> \<open>\<open>on_error\<close>\<close>
  | Ev_deleted

datatype work_pc =
    Loop_test
  | Dispatch                    \<comment> \<open>before the first \<open>switch\<close>\<close>
  | Running nhr_command         \<comment> \<open>the first \<open>switch\<close> has read the command\<close>
  | Inform                      \<comment> \<open>before the second \<open>switch\<close>\<close>
  | Informing nhr_command       \<comment> \<open>the second \<open>switch\<close> has read the command\<close>
  | Sleeping
  | Exiting
  | Done
  | Crashed fault

datatype start_pc = Thread_made | Thread_stored | Started

record sys =
  sy_req :: nhr_request
  sy_pc :: work_pc
  sy_start :: start_pc
  sy_cancelled :: bool
  sy_errno :: int
  sy_clock :: "int list"
  sy_buffs :: "bytes list"      \<comment> \<open>what the local buffer of each call of nhr_request_recv holds before\<close>
  sy_recv :: "recv_answer list"
  sy_send :: "send_answer list"
  sy_addr :: "addr_answer list"
  sy_sock :: "sock_answer list"
  sy_conn :: "conn_answer list"
  sy_opts :: "opt_answer list"
  sy_log :: "event list"

definition EAGAIN :: int where "EAGAIN = 11"
definition EINPROGRESS :: int where "EINPROGRESS = 115"

definition NHR_CONNECT_RETRY_DELAY :: nat where "NHR_CONNECT_RETRY_DELAY = 200"
definition NHR_CONNECT_ATTEMPS :: nat where "NHR_CONNECT_ATTEMPS = 5"
definition NHR_WORK_THREAD_DELAY :: nat where "NHR_WORK_THREAD_DELAY = 5"
definition SO_ERROR :: int where "SO_ERROR = 4"
definition SO_KEEPALIVE :: int where "SO_KEEPALIVE = 9"
definition NHR_RECV_BUFF_SIZE :: nat where "NHR_RECV_BUFF_SIZE = 65536"

definition on_req :: "(nhr_request \<Rightarrow> nhr_request) \<Rightarrow> sys \<Rightarrow> sys" where
  "on_req f s = s\<lparr>sy_req := f (sy_req s)\<rparr>"

definition emit :: "event \<Rightarrow> sys \<Rightarrow> sys" where
  "emit e s = s\<lparr>sy_log := sy_log s @ [e]\<rparr>"

definition set_command :: "nhr_command \<Rightarrow> sys \<Rightarrow> sys" where
  "set_command c = on_req (\<lambda>r. nhr_request_set_command r c)"

definition set_error :: "nhr_error_code \<Rightarrow> sys \<Rightarrow> sys" where
  \<comment> \<open>\<open>r->error_code = e; nhr_request_set_command(r, NHR_COMMAND_INFORM_ERROR)\<close>\<close>
  "set_error e s = set_command NHR_COMMAND_INFORM_ERROR (on_req (\<lambda>r. r\<lparr>rq_error_code := e\<rparr>) s)"

definition nhr_thread_sleep :: "nat \<Rightarrow> event" where
  \<comment> \<open>the call that it makes\<close>
  "nhr_thread_sleep millisec = Ev_usleep (of_nat millisec * 1000)"

definition sys_option :: "event \<Rightarrow> sys \<Rightarrow> sys" where
  \<comment> \<open>\<open>setsockopt\<close> and \<open>fcntl\<close>: the result is not looked at, but \<open>errno\<close> is; without a script they succeed\<close>
  "sys_option e s =
     (let s = emit e s in
      case sy_opts s of
        [] \<Rightarrow> s
      | Opt_ok # rest \<Rightarrow> s\<lparr>sy_opts := rest\<rparr>
      | Opt_fail n # rest \<Rightarrow> s\<lparr>sy_opts := rest, sy_errno := n\<rparr>)"

definition nhr_request_set_option :: "int \<Rightarrow> int \<Rightarrow> int \<Rightarrow> sys \<Rightarrow> sys" where
  "nhr_request_set_option s option val = sys_option (Ev_option s option val)"

definition nhr_time :: "sys \<Rightarrow> (int \<times> sys) res" where
  "nhr_time s = (case sy_clock s of [] \<Rightarrow> Inl OutOfFuel | t # ts \<Rightarrow> Inr (t, s\<lparr>sy_clock := ts\<rparr>))"

definition touch :: "sys \<Rightarrow> sys res" where
  \<comment> \<open>\<open>r->last_time = time(NULL)\<close>\<close>
  "touch s = r_bind (nhr_time s) (\<lambda>(now, s). Inr (on_req (\<lambda>r. r\<lparr>rq_last_time := now\<rparr>) s))"

definition sys_close :: "sys \<Rightarrow> sys" where
  \<comment> \<open>nhr_request_close, with the system call\<close>
  "sys_close s =
     (if rq_socket (sy_req s) \<noteq> NHR_INVALID_SOCKET
      then on_req nhr_request_close (emit (Ev_close (rq_socket (sy_req s))) s)
      else s)"

definition nhr_request_check_timeout :: "sys \<Rightarrow> (bool \<times> sys) res" where
  "nhr_request_check_timeout s =
     r_bind (nhr_time s) (\<lambda>(now, s).
     if now - rq_last_time (sy_req s) < rq_timeout (sy_req s) then Inr (True, s)
     else Inr (False, set_error nhr_error_code_timeout s))"

section \<open>Receiving\<close>

fun recv_loop :: "'z gz_mach \<Rightarrow> recv_answer list \<Rightarrow> bytes \<Rightarrow> sys \<Rightarrow> sys res" where
  "recv_loop mc [] buff s = Inl OutOfFuel"
| "recv_loop mc (Recv_data d # rest) buff s =
     (let buff = d @ drop (length d) buff in
      r_bind (touch s) (\<lambda>s.
      r_bind (case rq_response (sy_req s) of
                Some rs \<Rightarrow> nhr_response_append mc rs buff (of_nat (length d))
              | None \<Rightarrow> nhr_response_create mc buff (of_nat (length d))) (\<lambda>rs.
      recv_loop mc rest buff (on_req (\<lambda>r. r\<lparr>rq_response := Some rs\<rparr>) s))))"
| "recv_loop mc (Recv_eof # rest) buff s = Inr (s\<lparr>sy_recv := rest\<rparr>)"
| "recv_loop mc (Recv_fail e # rest) buff s = Inr (s\<lparr>sy_recv := rest, sy_errno := e\<rparr>)"

definition nhr_request_recv :: "'z gz_mach \<Rightarrow> sys \<Rightarrow> (bool \<times> sys) res" where
  "nhr_request_recv mc s =
     (case sy_buffs s of
        [] \<Rightarrow> Inl OutOfFuel
      | buff # buffs \<Rightarrow>
          r_bind (recv_loop mc (sy_recv s) buff (s\<lparr>sy_buffs := buffs\<rparr>)) (\<lambda>s.
          if sy_errno s \<noteq> EAGAIN \<and> sy_errno s \<noteq> EINPROGRESS then Inr (False, sys_close s)
          else Inr (True, s)))"

definition nhr_request_wait_raw_response :: "'z gz_mach \<Rightarrow> sys \<Rightarrow> sys res" where
  \<comment> \<open>the last branch of the code, for a NULL request, cannot be taken\<close>
  "nhr_request_wait_raw_response mc s =
     r_bind (nhr_request_recv mc s) (\<lambda>(b, s).
     if b
     then let is_finished = (case rq_response (sy_req s) of None \<Rightarrow> False | Some rs \<Rightarrow> rs_is_finished rs);
              s = (if is_finished then set_command NHR_COMMAND_INFORM_RESPONSE s else s) in
          r_bind (nhr_request_check_timeout s) (\<lambda>(_, s). Inr s)
     else Inr (set_command NHR_COMMAND_INFORM_RESPONSE s))"

definition nhr_request_start_waiting_raw_response :: "sys \<Rightarrow> sys res" where
  "nhr_request_start_waiting_raw_response s =
     r_bind (touch s) (\<lambda>s. Inr (set_command NHR_COMMAND_WAIT_RAW_RESPONSE s))"

section \<open>Sending\<close>

definition nhr_request_send_buffer :: "sys \<Rightarrow> bytes option \<Rightarrow> nat \<Rightarrow> (bool \<times> sys) res" where
  "nhr_request_send_buffer s data data_size =
     (let s = on_req (\<lambda>r. r\<lparr>rq_error_code := nhr_error_code_none\<rparr>) s in
      r_bind (blk_read data data_size) (\<lambda>d.
      case sy_send s of
        [] \<Rightarrow> Inl OutOfFuel
      | Sent n # rest \<Rightarrow>
          let s = emit (Ev_sent (take n d)) (s\<lparr>sy_send := rest\<rparr>) in
          if n > 0 then Inr (True, s)
          else if sy_errno s > 0 then Inr (False, s) else Inr (True, s)
      | Send_fail e # rest \<Rightarrow>
          let s = s\<lparr>sy_send := rest, sy_errno := e\<rparr> in
          if sy_errno s > 0 then Inr (False, s) else Inr (True, s)))"

definition nhr_request_send_raw_request :: "'z gz_mach \<Rightarrow> sys \<Rightarrow> sys res" where
  "nhr_request_send_raw_request mc s =
     r_bind (case rq_method (sy_req s) of
               Some nhr_method_GET \<Rightarrow>
                 r_bind (nhr_request_create_header_GET mc (sy_req s)) (\<lambda>header. Inr (header, sy_req s))
             | Some nhr_method_POST \<Rightarrow> nhr_request_create_header_POST mc (sy_req s)
             | None \<Rightarrow> Inl AssertFailed) (\<lambda>(header, r).
     r_bind (nhr_request_send_buffer (on_req (\<lambda>_. r) s) (fst header) (snd header)) (\<lambda>(sent, s).
     if sent then Inr (set_command NHR_COMMAND_START_WAITING_RAW_RESPONSE s)
     else r_bind (nhr_request_check_timeout (sys_close s)) (\<lambda>(in_time, s).
          Inr (if in_time then set_error nhr_error_code_failed_connect_to_host s else s))))"

section \<open>Connecting\<close>

fun getaddr_loop :: "nat \<Rightarrow> sys \<Rightarrow> (nat list \<times> sys) res" where
  \<comment> \<open>the number of attempts left; \<open>[]\<close> is NULL\<close>
  "getaddr_loop 0 s = Inr ([], set_error nhr_error_code_failed_connect_to_host s)"
| "getaddr_loop (Suc n) s =
     (case sy_addr s of
        [] \<Rightarrow> Inl OutOfFuel
      | Addr_list (p # ps) # rest \<Rightarrow> Inr (p # ps, emit Ev_addrinfo (s\<lparr>sy_addr := rest\<rparr>))
      | _ # rest \<Rightarrow> getaddr_loop n (emit (nhr_thread_sleep NHR_CONNECT_RETRY_DELAY) (s\<lparr>sy_addr := rest\<rparr>)))"

definition nhr_request_connect_getaddr_info :: "sys \<Rightarrow> (nat list \<times> sys) res" where
  \<comment> \<open>\<open>portstr\<close> has room for 12 characters, the port has at most 5 digits\<close>
  "nhr_request_connect_getaddr_info s =
     r_bind (local_print 12 (dec_digits (unat (rq_port (sy_req s))))) (\<lambda>portstr.
     getaddr_loop (NHR_CONNECT_ATTEMPS - 1) s)"

definition nhr_socket :: "sys \<Rightarrow> (int \<times> sys) res" where
  "nhr_socket s =
     (case sy_sock s of
        [] \<Rightarrow> Inl OutOfFuel
      | Sock fd # rest \<Rightarrow> Inr (fd, emit (Ev_socket fd) (s\<lparr>sy_sock := rest\<rparr>))
      | Sock_fail e # rest \<Rightarrow> Inr (NHR_INVALID_SOCKET, s\<lparr>sy_sock := rest, sy_errno := e\<rparr>))"

definition try_connect :: "int \<Rightarrow> nat \<Rightarrow> sys \<Rightarrow> (bool \<times> sys) res" where
  \<comment> \<open>the part under \<open>if (sock != NHR_INVALID_SOCKET)\<close>\<close>
  "try_connect sock p s =
     (let s = nhr_request_set_option sock SO_ERROR 1 s;
          s = nhr_request_set_option sock SO_KEEPALIVE 1 s in
      case sy_conn s of
        [] \<Rightarrow> Inl OutOfFuel
      | Conn_ok # rest \<Rightarrow>
          let s = on_req (\<lambda>r. r\<lparr>rq_socket := sock\<rparr>) (emit (Ev_connected sock p) (s\<lparr>sy_conn := rest\<rparr>)) in
          Inr (True, sys_option (Ev_nonblock sock) s)
      | Conn_fail e # rest \<Rightarrow> Inr (False, emit (Ev_close sock) (s\<lparr>sy_conn := rest, sy_errno := e\<rparr>)))"

fun connect_each :: "nat list \<Rightarrow> int \<Rightarrow> sys \<Rightarrow> (int option \<times> sys) res" where
  \<comment> \<open>the \<open>for\<close> loop: the value of \<open>sock\<close> behind it, \<open>None\<close> for the return inside it\<close>
  "connect_each [] sock s = Inr (Some sock, s)"
| "connect_each (p # ps) sock s =
     r_bind (touch s) (\<lambda>s.
     r_bind (nhr_socket s) (\<lambda>(sock, s).
     r_bind (if sock \<noteq> NHR_INVALID_SOCKET then try_connect sock p s else Inr (False, s)) (\<lambda>(connected, s).
     if connected then Inr (Some sock, s)
     else r_bind (nhr_request_check_timeout s) (\<lambda>(in_time, s).
          if in_time then connect_each ps sock s else Inr (None, s)))))"

fun connect_tries :: "nat \<Rightarrow> nat list \<Rightarrow> int \<Rightarrow> sys \<Rightarrow> (bool \<times> sys) res" where
  \<comment> \<open>the \<open>while\<close> loop; \<open>False\<close> for the return inside it\<close>
  "connect_tries 0 ps sock s = Inr (True, s)"
| "connect_tries (Suc n) ps sock s =
     (if sock \<noteq> NHR_INVALID_SOCKET then Inr (True, s)
      else r_bind (connect_each ps sock s) (\<lambda>(ret, s).
           case ret of
             None \<Rightarrow> Inr (False, s)
           | Some sock \<Rightarrow>
               connect_tries n ps sock
                 (if sock = NHR_INVALID_SOCKET then emit (nhr_thread_sleep NHR_CONNECT_RETRY_DELAY) s else s)))"

definition nhr_request_connect_to_host :: "sys \<Rightarrow> sys res" where
  "nhr_request_connect_to_host s =
     r_bind (touch s) (\<lambda>s.
     r_bind (nhr_request_connect_getaddr_info s) (\<lambda>(result, s).
     r_bind (nhr_request_check_timeout s) (\<lambda>(in_time, s).
     if \<not> in_time \<or> result = [] then Inr s
     else r_bind (connect_tries (NHR_CONNECT_ATTEMPS - 1) result NHR_INVALID_SOCKET s) (\<lambda>(go_on, s).
          if \<not> go_on then Inr s
          else let s = emit Ev_freeaddrinfo s in
               if rq_socket (sy_req s) = NHR_INVALID_SOCKET
               then Inr (set_error nhr_error_code_failed_connect_to_host s)
               else Inr (set_command NHR_COMMAND_SEND_RAW_REQUEST s)))))"

section \<open>The thread\<close>

definition run_handler :: "'z gz_mach \<Rightarrow> nhr_command \<Rightarrow> sys \<Rightarrow> sys res" where
  "run_handler mc c s =
     (case c of
        NHR_COMMAND_CONNECT_TO_HOST \<Rightarrow> nhr_request_connect_to_host s
      | NHR_COMMAND_SEND_RAW_REQUEST \<Rightarrow> nhr_request_send_raw_request mc s
      | NHR_COMMAND_START_WAITING_RAW_RESPONSE \<Rightarrow> nhr_request_start_waiting_raw_response s
      | NHR_COMMAND_WAIT_RAW_RESPONSE \<Rightarrow> nhr_request_wait_raw_response mc s
      | _ \<Rightarrow> Inr s)"

definition run_inform :: "nhr_command \<Rightarrow> sys \<Rightarrow> sys" where
  "run_inform c s =
     (case c of
        NHR_COMMAND_INFORM_RESPONSE \<Rightarrow>
          let s = set_command NHR_COMMAND_END s in
          if rq_on_recvd_response (sy_req s) \<noteq> None
          then emit (Ev_response (rq_response (sy_req s))) s else s
      | NHR_COMMAND_INFORM_ERROR \<Rightarrow>
          let s = set_command NHR_COMMAND_END s in
          if rq_on_error (sy_req s) \<noteq> None
          then emit (Ev_error (rq_error_code (sy_req s))) s else s
      | _ \<Rightarrow> s)"

definition nhr_request_delete :: "sys \<Rightarrow> sys" where
  \<comment> \<open>every block the request owns is given back, then the request itself\<close>
  "nhr_request_delete s =
     (let s = sys_close s;
          s = on_req (\<lambda>r. r\<lparr>rq_scheme := None, rq_host := None, rq_path := None\<rparr>) s;
          s = on_req (\<lambda>r. r\<lparr>rq_http_headers := None, rq_parameters := None\<rparr>) s;
          s = on_req (\<lambda>r. r\<lparr>rq_response := None\<rparr>) s;
          s = on_req (\<lambda>r. r\<lparr>rq_boundary := None\<rparr>) s
      in emit Ev_deleted s)"

definition worker_next :: "'z gz_mach \<Rightarrow> sys \<Rightarrow> sys option" where
  \<comment> \<open>nhr_request_work_th_func, one step\<close>
  "worker_next mc s =
     (case sy_pc s of
        Loop_test \<Rightarrow>
          Some (s\<lparr>sy_pc := (if nhr_request_get_command (sy_req s) < NHR_COMMAND_END then Dispatch else Exiting)\<rparr>)
      | Dispatch \<Rightarrow> Some (s\<lparr>sy_pc := Running (nhr_request_get_command (sy_req s))\<rparr>)
      | Running c \<Rightarrow>
          Some (case run_handler mc c s of
                  Inl f \<Rightarrow> s\<lparr>sy_pc := Crashed f\<rparr>
                | Inr s' \<Rightarrow> s'\<lparr>sy_pc := Inform\<rparr>)
      | Inform \<Rightarrow> Some (s\<lparr>sy_pc := Informing (nhr_request_get_command (sy_req s))\<rparr>)
      | Informing c \<Rightarrow> Some ((run_inform c s)\<lparr>sy_pc := Sleeping\<rparr>)
      | Sleeping \<Rightarrow> Some ((emit (nhr_thread_sleep NHR_WORK_THREAD_DELAY) s)\<lparr>sy_pc := Loop_test\<rparr>)
      | Exiting \<Rightarrow>
          Some ((nhr_request_delete (sys_close (on_req (\<lambda>r. r\<lparr>rq_work_thread := None\<rparr>) s)))\<lparr>sy_pc := Done\<rparr>)
      | Done \<Rightarrow> None
      | Crashed f \<Rightarrow> None)"

text \<open>
  The rest of nhr_request_create_start_work_thread after the thread exists, and
  nhr_request_cancel, run in the thread of the client. By the interface a client cancels a
  request it has sent, at most once, and not after a callback.
\<close>

definition informed :: "sys \<Rightarrow> bool" where
  "informed s \<longleftrightarrow> (\<exists>e \<in> set (sy_log s). case e of Ev_response _ \<Rightarrow> True | Ev_error _ \<Rightarrow> True | _ \<Rightarrow> False)"

inductive sys_step :: "'z gz_mach \<Rightarrow> sys \<Rightarrow> sys \<Rightarrow> bool" for mc where
  worker: "worker_next mc s = Some s' \<Longrightarrow> sys_step mc s s'"
| store_thread: "sy_start s = Thread_made \<Longrightarrow>
     sys_step mc s ((on_req (\<lambda>r. r\<lparr>rq_work_thread := Some th\<rparr>) s)\<lparr>sy_start := Thread_stored\<rparr>)"
| start: "sy_start s = Thread_stored \<Longrightarrow>
     sys_step mc s ((set_command NHR_COMMAND_CONNECT_TO_HOST s)\<lparr>sy_start := Started\<rparr>)"
| cancel: "sy_start s = Started \<Longrightarrow> \<not> sy_cancelled s \<Longrightarrow> \<not> informed s \<Longrightarrow>
     sy_pc s \<noteq> Done \<Longrightarrow> nhr_request_cancel (Some (sy_req s)) = Some r \<Longrightarrow>
     sys_step mc s (s\<lparr>sy_req := r, sy_cancelled := True\<rparr>)"

definition sys_init :: "sys \<Rightarrow> bool" where
  \<comment> \<open>nhr_thread_create has just returned inside nhr_request_send\<close>
  "sys_init s \<longleftrightarrow> sy_pc s = Loop_test \<and> sy_start s = Thread_made \<and> \<not> sy_cancelled s \<and> sy_log s = []
     \<and> rq_command (sy_req s) = NHR_COMMAND_NONE \<and> rq_socket (sy_req s) = NHR_INVALID_SOCKET
     \<and> rq_error_code (sy_req s) = nhr_error_code_none \<and> rq_response (sy_req s) = None
     \<and> rq_work_thread (sy_req s) = None"

end
