(* ===== verification/Nhr_Worker_Correct.thy ===== *)
theory Nhr_Worker_Correct
  imports Nhr_Worker Nhr_Methods_Correct
begin

text \<open>
  What the worker thread guarantees. A handler is \<open>quiet\<close>: it changes the request and talks to
  the operating system, but calls no callback, deletes nothing and loses no socket. From that
  and the step relation follow, by an invariant over all reachable states and so over every
  interleaving with the client: at most one callback, nothing but closing and deleting after
  it, an error code where an error is reported, and every socket closed when the thread ends.
\<close>

section \<open>Connecting one socket\<close>

text \<open>
  The results of \<open>setsockopt\<close> and \<open>fcntl\<close> are not looked at, so they show in \<open>errno\<close> alone.
\<close>

fun errno_after :: "opt_answer list \<Rightarrow> int \<Rightarrow> int" where
  "errno_after [] n = n"
| "errno_after (Opt_ok # rest) n = errno_after rest n"
| "errno_after (Opt_fail m # rest) n = errno_after rest m"

lemma sys_option_eq:
  "sys_option e s = s\<lparr>sy_log := sy_log s @ [e], sy_opts := drop 1 (sy_opts s),
     sy_errno := errno_after (take 1 (sy_opts s)) (sy_errno s)\<rparr>"
  by (cases s) (simp add: sys_option_def emit_def Let_def split: list.splits opt_answer.splits)

lemma errno_after_append [simp]: "errno_after (os @ os') n = errno_after os' (errno_after os n)"
  by (induction os n rule: errno_after.induct) simp_all

lemma errno_after_take:
  "errno_after (take k (drop m os)) (errno_after (take m os) n) = errno_after (take (m + k) os) n"
  by (simp only: take_add errno_after_append)

lemma try_connect_eq:
  "try_connect fd p s =
     (let t = s\<lparr>sy_log := sy_log s @ [Ev_option fd SO_ERROR 1, Ev_option fd SO_KEEPALIVE 1]\<rparr> in
      case sy_conn s of
        [] \<Rightarrow> Inl OutOfFuel
      | Conn_ok # rest \<Rightarrow>
          Inr (True, t\<lparr>sy_req := (sy_req s)\<lparr>rq_socket := fd\<rparr>, sy_conn := rest, sy_opts := drop 3 (sy_opts s),
            sy_errno := errno_after (take 3 (sy_opts s)) (sy_errno s),
            sy_log := sy_log t @ [Ev_connected fd p, Ev_nonblock fd]\<rparr>)
      | Conn_fail e # rest \<Rightarrow>
          Inr (False, t\<lparr>sy_conn := rest, sy_opts := drop 2 (sy_opts s), sy_errno := e,
            sy_log := sy_log t @ [Ev_close fd]\<rparr>))"
  using errno_after_take [of 1 1 "sy_opts s" "sy_errno s"] errno_after_take [of 1 2 "sy_opts s" "sy_errno s"]
  by (cases s)
     (simp add: try_connect_def nhr_request_set_option_def sys_option_eq emit_def on_req_def Let_def
        numeral_2_eq_2 numeral_3_eq_3 drop_Suc take_Suc tl_drop [symmetric] split: list.splits conn_answer.splits)

section \<open>Quiet steps\<close>

fun quiet_event :: "event \<Rightarrow> bool" where
  "quiet_event (Ev_response _) = False"
| "quiet_event (Ev_error _) = False"
| "quiet_event Ev_deleted = False"
| "quiet_event _ = True"

fun opens :: "int \<Rightarrow> event \<Rightarrow> int" where
  "opens fd (Ev_socket fd') = (if fd = fd' then 1 else 0)"
| "opens fd (Ev_close fd') = (if fd = fd' then -1 else 0)"
| "opens fd _ = 0"

definition unaccounted :: "sys \<Rightarrow> int \<Rightarrow> int" where
  \<comment> \<open>sockets opened, less sockets closed, less the socket of the request\<close>
  "unaccounted s fd = (\<Sum>e \<leftarrow> sy_log s. opens fd e)
     - (if rq_socket (sy_req s) = fd \<and> fd \<noteq> NHR_INVALID_SOCKET then 1 else 0)"

definition quiet :: "sys \<Rightarrow> sys \<Rightarrow> bool" where
  "quiet s s' \<longleftrightarrow> sy_start s' = sy_start s \<and> sy_cancelled s' = sy_cancelled s
     \<and> rq_work_thread (sy_req s') = rq_work_thread (sy_req s)
     \<and> rq_on_recvd_response (sy_req s') = rq_on_recvd_response (sy_req s)
     \<and> rq_on_error (sy_req s') = rq_on_error (sy_req s)
     \<and> (\<exists>es. sy_log s' = sy_log s @ es \<and> (\<forall>e \<in> set es. quiet_event e))
     \<and> (\<forall>fd. unaccounted s' fd = unaccounted s fd)
     \<and> set (sy_sock s') \<subseteq> set (sy_sock s)"

lemma quiet_refl [simp]: "quiet s s"
  by (simp add: quiet_def)

lemma quiet_trans [trans]: "quiet s s' \<Longrightarrow> quiet s' s'' \<Longrightarrow> quiet s s''"
  unfolding quiet_def by fastforce

definition keeps_owner :: "(nhr_request \<Rightarrow> nhr_request) \<Rightarrow> bool" where
  "keeps_owner f \<longleftrightarrow> (\<forall>r. rq_work_thread (f r) = rq_work_thread r \<and> rq_socket (f r) = rq_socket r
     \<and> rq_on_recvd_response (f r) = rq_on_recvd_response r \<and> rq_on_error (f r) = rq_on_error r)"

lemma quiet_on_req: "keeps_owner f \<Longrightarrow> quiet s (on_req f s)"
  by (simp add: quiet_def on_req_def keeps_owner_def unaccounted_def)

lemma quiet_emit: "quiet_event e \<Longrightarrow> (\<And>fd. opens fd e = 0) \<Longrightarrow> quiet s (emit e s)"
  by (simp add: quiet_def emit_def unaccounted_def)

lemma quiet_sleep [simp]: "quiet s (emit (nhr_thread_sleep n) s)"
  by (rule quiet_emit) (simp_all add: nhr_thread_sleep_def)

lemma quiet_script:
  "set xs \<subseteq> set (sy_sock s) \<Longrightarrow>
     quiet s (s\<lparr>sy_errno := n, sy_clock := cs, sy_buffs := bs, sy_recv := rs, sy_send := ss,
                sy_addr := as, sy_sock := xs, sy_conn := cn\<rparr>)"
  by (simp add: quiet_def unaccounted_def)

lemma sys_quiet_fields:
  "quiet s (s\<lparr>sy_clock := cs\<rparr>)" "quiet s (s\<lparr>sy_buffs := bs\<rparr>)" "quiet s (s\<lparr>sy_recv := rs\<rparr>)"
  "quiet s (s\<lparr>sy_recv := rs, sy_errno := n\<rparr>)" "quiet s (s\<lparr>sy_send := ss\<rparr>)"
  "quiet s (s\<lparr>sy_send := ss, sy_errno := n\<rparr>)" "quiet s (s\<lparr>sy_addr := as\<rparr>)"
  by (simp_all add: quiet_def unaccounted_def)

lemma quiet_set_command [simp]: "quiet s (set_command c s)"
  unfolding set_command_def
  by (rule quiet_on_req) (simp add: keeps_owner_def nhr_request_set_command_def)

lemma quiet_set_error [simp]: "quiet s (set_error e s)"
  unfolding set_error_def
  by (rule quiet_trans [OF quiet_on_req quiet_set_command]) (simp add: keeps_owner_def)

lemma quiet_sys_close [simp]: "quiet s (sys_close s)"
  by (auto simp: sys_close_def quiet_def unaccounted_def on_req_def emit_def nhr_request_close_def)

lemma quiet_time: "nhr_time s = Inr (t, s') \<Longrightarrow> quiet s s'"
  by (auto simp: nhr_time_def sys_quiet_fields split: list.splits)

lemma quiet_touch: "touch s = Inr s' \<Longrightarrow> quiet s s'"
  unfolding touch_def
  by (auto simp: r_bind_Inr_conv keeps_owner_def intro!: quiet_trans [OF quiet_time quiet_on_req])

lemma quiet_check_timeout: "nhr_request_check_timeout s = Inr (b, s') \<Longrightarrow> quiet s s'"
  unfolding nhr_request_check_timeout_def
  by (auto simp: r_bind_Inr_conv intro: quiet_trans [OF quiet_time] quiet_time split: if_splits)

section \<open>The handlers are quiet\<close>

lemma quiet_recv_loop: "recv_loop mc rs buff s = Inr s' \<Longrightarrow> quiet s s'"
proof (induction mc rs buff s rule: recv_loop.induct)
  case (2 mc d rest buff s)
  then obtain s1 x where s1: "touch s = Inr s1"
      "(case rq_response (sy_req s1) of
          Some rs \<Rightarrow> nhr_response_append mc rs (d @ drop (length d) buff) (of_nat (length d))
        | None \<Rightarrow> nhr_response_create mc (d @ drop (length d) buff) (of_nat (length d))) = Inr x"
      "recv_loop mc rest (d @ drop (length d) buff) (on_req (\<lambda>r. r\<lparr>rq_response := Some x\<rparr>) s1) = Inr s'"
    by (auto simp: r_bind_Inr_conv Let_def)
  have "quiet s1 (on_req (\<lambda>r. r\<lparr>rq_response := Some x\<rparr>) s1)"
    by (rule quiet_on_req) (simp add: keeps_owner_def)
  moreover have "quiet (on_req (\<lambda>r. r\<lparr>rq_response := Some x\<rparr>) s1) s'"
    by (rule 2(1) [OF refl s1])
  ultimately show ?case using quiet_touch [OF s1(1)] quiet_trans by blast
qed (auto simp: sys_quiet_fields)

lemma quiet_recv: "nhr_request_recv mc s = Inr (b, s') \<Longrightarrow> quiet s s'"
  unfolding nhr_request_recv_def
  by (auto simp: r_bind_Inr_conv split: list.splits if_splits
      intro: quiet_trans [OF sys_quiet_fields(2) quiet_recv_loop]
        quiet_trans [OF quiet_trans [OF sys_quiet_fields(2) quiet_recv_loop] quiet_sys_close])

lemma quiet_wait: "nhr_request_wait_raw_response mc s = Inr s' \<Longrightarrow> quiet s s'"
  unfolding nhr_request_wait_raw_response_def Let_def
  by (auto simp: r_bind_Inr_conv split: if_splits
      intro: quiet_trans [OF quiet_recv] quiet_check_timeout
        quiet_trans [OF quiet_recv quiet_trans [OF quiet_set_command quiet_check_timeout]])

lemma quiet_start_waiting: "nhr_request_start_waiting_raw_response s = Inr s' \<Longrightarrow> quiet s s'"
  unfolding nhr_request_start_waiting_raw_response_def
  by (auto simp: r_bind_Inr_conv intro: quiet_trans [OF quiet_touch quiet_set_command])

lemma quiet_send_buffer:
  assumes "nhr_request_send_buffer s data n = Inr (b, s')"
  shows "quiet s s'"
proof -
  let ?s = "on_req (\<lambda>r. r\<lparr>rq_error_code := nhr_error_code_none\<rparr>) s"
  have q: "quiet s ?s" by (rule quiet_on_req) (simp add: keeps_owner_def)
  obtain d where d: "blk_read data n = Inr d"
    using assms by (auto simp: nhr_request_send_buffer_def r_bind_Inr_conv Let_def)
  have "quiet ?s s'"
  proof (cases "sy_send ?s")
    case Nil
    with assms d show ?thesis by (simp add: nhr_request_send_buffer_def Let_def)
  next
    case (Cons a rest)
    have "quiet ?s (emit (Ev_sent x) (?s\<lparr>sy_send := rest\<rparr>))" for x
      by (rule quiet_trans [OF sys_quiet_fields(5) quiet_emit]) simp_all
    with Cons assms d show ?thesis
      by (cases a) (auto simp: nhr_request_send_buffer_def Let_def sys_quiet_fields split: if_splits)
  qed
  with q show ?thesis by (rule quiet_trans)
qed

definition only_headers :: "nhr_request \<Rightarrow> nhr_request \<Rightarrow> bool" where
  "only_headers r r' \<longleftrightarrow>
     (\<exists>h g d. r' = r\<lparr>rq_http_headers := h, rq_is_gziped := g, rq_is_deflated := d\<rparr>)"

lemma only_headers_upd [simp]:
  "only_headers r r" "only_headers r (r\<lparr>rq_http_headers := h\<rparr>)"
  "only_headers r (r\<lparr>rq_is_gziped := b\<rparr>)" "only_headers r (r\<lparr>rq_is_deflated := b\<rparr>)"
  by (cases r; simp add: only_headers_def)+

lemma only_headers_trans [trans]: "only_headers r r' \<Longrightarrow> only_headers r' r'' \<Longrightarrow> only_headers r r''"
  unfolding only_headers_def by (elim exE) (simp, blast)

lemma add_header_field_only:
  assumes "rq_add_header_field mc r k v = Inr r'"
  shows "only_headers r r'"
proof -
  let ?set = "\<lambda>es s r. let r = r\<lparr>rq_http_headers := Some es\<rparr>;
              r = (if s = k_nhr_gzip then r\<lparr>rq_is_gziped := True\<rparr> else r);
              r = (if s = k_nhr_deflate then r\<lparr>rq_is_deflated := True\<rparr> else r) in r"
  have "only_headers r (?set es s r)" for es s
  proof -
    have "only_headers r (r\<lparr>rq_http_headers := Some es\<rparr>)" by simp
    also have "only_headers (r\<lparr>rq_http_headers := Some es\<rparr>)
      (if s = k_nhr_gzip then r\<lparr>rq_http_headers := Some es\<rparr>\<lparr>rq_is_gziped := True\<rparr>
       else r\<lparr>rq_http_headers := Some es\<rparr>)" (is "only_headers _ ?r") by simp
    also have "only_headers ?r (if s = k_nhr_deflate then ?r\<lparr>rq_is_deflated := True\<rparr> else ?r)"
      by simp
    finally show ?thesis by (simp add: Let_def)
  qed
  moreover have "r' = r \<or> (\<exists>es s. Inr r' = (Inr (?set es s r) :: nhr_request res))"
  proof -
    obtain n m where "(if n = 0 \<or> m = (0::nat) then Inr r
       else r_bind (string_entry mc (rq_http_headers r) k n v m) (\<lambda>es.
          r_bind (c_string (blk_bytes v)) (\<lambda>s. Inr (?set es s r)))) = Inr r'"
      using assms unfolding rq_add_header_field_def Let_def by (elim r_bindE) blast
    then show ?thesis
    proof (cases "n = 0 \<or> m = 0")
      case False
      then have "r_bind (string_entry mc (rq_http_headers r) k n v m) (\<lambda>es.
          r_bind (c_string (blk_bytes v)) (\<lambda>s. Inr (?set es s r))) = Inr r'"
        using \<open>(if n = 0 \<or> m = 0 then _ else _) = Inr r'\<close> by (simp only: if_False)
      then show ?thesis by (elim r_bindE) metis
    qed simp
  qed
  ultimately show ?thesis by auto
qed

lemma create_url_encoded_only:
  "nhr_request_create_url_encoded_parameters_POST mc r = Inr (b, r') \<Longrightarrow> only_headers r r'"
  unfolding nhr_request_create_url_encoded_parameters_POST_def
  by (auto simp: r_bind_Inr_conv split: if_splits
      intro: only_headers_trans [OF add_header_field_only add_header_field_only])

lemma create_data_only:
  "nhr_request_create_data_parameters_POST mc r = Inr (b, r') \<Longrightarrow> only_headers r r'"
  unfolding nhr_request_create_data_parameters_POST_def Let_def
  by (auto simp: r_bind_Inr_conv intro: only_headers_trans [OF add_header_field_only add_header_field_only])

lemma create_header_POST_only:
  "nhr_request_create_header_POST mc r = Inr (b, r') \<Longrightarrow> only_headers r r'"
  unfolding nhr_request_create_header_POST_def Let_def
  by (auto simp: r_bind_Inr_conv split: if_splits dest: create_url_encoded_only create_data_only)

lemma only_headers_sel:
  assumes "only_headers r r'"
  shows "rq_work_thread r' = rq_work_thread r" "rq_socket r' = rq_socket r" "rq_command r' = rq_command r"
    "rq_on_recvd_response r' = rq_on_recvd_response r" "rq_on_error r' = rq_on_error r"
    "rq_error_code r' = rq_error_code r" "rq_response r' = rq_response r"
    "rq_timeout r' = rq_timeout r" "rq_last_time r' = rq_last_time r"
  using assms by (auto simp: only_headers_def)

definition create_header :: "'z gz_mach \<Rightarrow> nhr_request \<Rightarrow> (wbuf \<times> nhr_request) res" where
  "create_header mc r =
     (case rq_method r of
        Some nhr_method_GET \<Rightarrow> r_bind (nhr_request_create_header_GET mc r) (\<lambda>header. Inr (header, r))
      | Some nhr_method_POST \<Rightarrow> nhr_request_create_header_POST mc r
      | None \<Rightarrow> Inl AssertFailed)"

lemma create_header_only: "create_header mc r = Inr (b, r') \<Longrightarrow> only_headers r r'"
  unfolding create_header_def
  by (auto simp: r_bind_Inr_conv dest: create_header_POST_only split: option.splits nhr_method.splits)

lemma send_raw_request_eq:
  "nhr_request_send_raw_request mc s =
     r_bind (create_header mc (sy_req s)) (\<lambda>(header, r).
     r_bind (nhr_request_send_buffer (on_req (\<lambda>_. r) s) (fst header) (snd header)) (\<lambda>(sent, s).
     if sent then Inr (set_command NHR_COMMAND_START_WAITING_RAW_RESPONSE s)
     else r_bind (nhr_request_check_timeout (sys_close s)) (\<lambda>(in_time, s).
          Inr (if in_time then set_error nhr_error_code_failed_connect_to_host s else s))))"
  by (simp add: nhr_request_send_raw_request_def create_header_def)

lemma quiet_only_headers: "only_headers (sy_req s) r \<Longrightarrow> quiet s (on_req (\<lambda>_. r) s)"
  by (simp add: quiet_def on_req_def unaccounted_def only_headers_sel)

lemma quiet_send:
  assumes "nhr_request_send_raw_request mc s = Inr s'"
  shows "quiet s s'"
proof -
  obtain h r sent s1 where 1: "create_header mc (sy_req s) = Inr (h, r)"
      "nhr_request_send_buffer (on_req (\<lambda>_. r) s) (fst h) (snd h) = Inr (sent, s1)"
      "(if sent then Inr (set_command NHR_COMMAND_START_WAITING_RAW_RESPONSE s1)
     else r_bind (nhr_request_check_timeout (sys_close s1)) (\<lambda>(in_time, s).
          Inr (if in_time then set_error nhr_error_code_failed_connect_to_host s else s))) = Inr s'"
    using assms unfolding send_raw_request_eq by (auto simp: r_bind_Inr_conv)
  have q: "quiet s s1"
    using quiet_only_headers [OF create_header_only [OF 1(1)]] quiet_send_buffer [OF 1(2)] quiet_trans by blast
  show ?thesis
  proof (cases sent)
    case True
    with 1(3) q show ?thesis by (auto intro: quiet_trans)
  next
    case False
    with 1(3) obtain t s2 where s2: "nhr_request_check_timeout (sys_close s1) = Inr (t, s2)"
        "s' = (if t then set_error nhr_error_code_failed_connect_to_host s2 else s2)"
      by (auto simp: r_bind_Inr_conv)
    have "quiet s s2" using q quiet_sys_close quiet_check_timeout [OF s2(1)] quiet_trans by blast
    then show ?thesis using s2(2) quiet_set_error quiet_trans by (metis (full_types))
  qed
qed

definition socks_ok :: "sys \<Rightarrow> bool" where
  "socks_ok s \<longleftrightarrow> (\<forall>fd. Sock fd \<in> set (sy_sock s) \<longrightarrow> fd \<noteq> NHR_INVALID_SOCKET)"

lemma quiet_socks_ok: "quiet s s' \<Longrightarrow> socks_ok s \<Longrightarrow> socks_ok s'"
  by (auto simp: quiet_def socks_ok_def)

lemma quiet_getaddr_loop: "getaddr_loop n s = Inr (ps, s') \<Longrightarrow> quiet s s'"
proof (induction n s rule: getaddr_loop.induct)
  case (1 s)
  then show ?case by auto
next
  case (2 n s)
  show ?case
  proof (cases "sy_addr s")
    case Nil
    with 2 show ?thesis by simp
  next
    case (Cons a rest)
    have q: "quiet s (emit (nhr_thread_sleep NHR_CONNECT_RETRY_DELAY) (s\<lparr>sy_addr := rest\<rparr>))"
        "quiet s (emit Ev_addrinfo (s\<lparr>sy_addr := rest\<rparr>))"
      by (rule quiet_trans [OF sys_quiet_fields(7) quiet_sleep], rule quiet_trans [OF sys_quiet_fields(7) quiet_emit]) simp_all
    have "(\<exists>p qs. a = Addr_list (p # qs)) \<or> a = Addr_list [] \<or> (\<exists>e. a = Addr_fail e)"
      by (cases a) (auto simp: neq_Nil_conv)
    then show ?thesis
    proof (elim disjE exE)
      fix p qs assume "a = Addr_list (p # qs)"
      with Cons 2 q(2) show ?thesis by simp
    next
      assume a: "a = Addr_list []"
      then have "getaddr_loop n (emit (nhr_thread_sleep NHR_CONNECT_RETRY_DELAY) (s\<lparr>sy_addr := rest\<rparr>)) = Inr (ps, s')"
        using Cons 2 by simp
      with 2(1) [OF Cons] a q(1) quiet_trans show ?thesis by (metis (no_types))
    next
      fix e assume a: "a = Addr_fail e"
      then have "getaddr_loop n (emit (nhr_thread_sleep NHR_CONNECT_RETRY_DELAY) (s\<lparr>sy_addr := rest\<rparr>)) = Inr (ps, s')"
        using Cons 2 by simp
      with 2(2) [OF Cons] a q(1) quiet_trans show ?thesis by (metis (no_types))
    qed
  qed
qed

definition no_socket :: "sys \<Rightarrow> bool" where
  "no_socket s \<longleftrightarrow> rq_socket (sy_req s) = NHR_INVALID_SOCKET"

lemma no_socket_simps [simp]:
  "no_socket (set_command c s) = no_socket s" "no_socket (set_error e s) = no_socket s"
  "no_socket (emit ev s) = no_socket s"
  by (simp_all add: no_socket_def set_command_def set_error_def on_req_def emit_def nhr_request_set_command_def)

lemma no_socket_touch: "touch s = Inr s' \<Longrightarrow> no_socket s' = no_socket s"
  by (auto simp: touch_def nhr_time_def r_bind_Inr_conv no_socket_def on_req_def split: list.splits)

lemma no_socket_check: "nhr_request_check_timeout s = Inr (b, s') \<Longrightarrow> no_socket s' = no_socket s"
  by (auto simp: nhr_request_check_timeout_def nhr_time_def r_bind_Inr_conv no_socket_def set_error_def
      set_command_def on_req_def nhr_request_set_command_def split: list.splits if_splits)

text \<open>A socket that is made is either connected and kept, or closed.\<close>

lemma socket_connect:
  assumes "nhr_socket s = Inr (sock, s1)"
    and "(if sock \<noteq> NHR_INVALID_SOCKET then try_connect sock p s1 else Inr (False, s1)) = Inr (b, s2)"
    and "no_socket s" "socks_ok s"
  shows "quiet s s2 \<and> no_socket s2 = (\<not> b)"
proof -
  obtain a rest where a: "sy_sock s = a # rest"
    using assms(1) by (cases "sy_sock s") (auto simp: nhr_socket_def)
  show ?thesis
  proof (cases a)
    case (Sock fd)
    with a assms(4) have fd: "fd \<noteq> NHR_INVALID_SOCKET" by (auto simp: socks_ok_def)
    have s1: "sock = fd" "s1 = emit (Ev_socket fd) (s\<lparr>sy_sock := rest\<rparr>)"
      using assms(1) a Sock by (auto simp: nhr_socket_def)
    then have t: "try_connect fd p s1 = Inr (b, s2)" using assms(2) fd by simp
    obtain c cs where c: "sy_conn s1 = c # cs"
      using t by (cases "sy_conn s1") (auto simp: try_connect_eq)
    show ?thesis
      using t c s1 fd assms(3) a
      by (cases c) (auto simp: try_connect_eq quiet_def unaccounted_def emit_def on_req_def no_socket_def)
  next
    case (Sock_fail e)
    then have "sock = NHR_INVALID_SOCKET" "s1 = s\<lparr>sy_sock := rest, sy_errno := e\<rparr>"
      using assms(1) a by (auto simp: nhr_socket_def)
    then show ?thesis using assms(2,3) a by (auto simp: quiet_def unaccounted_def no_socket_def)
  qed
qed

lemma connect_each_quiet:
  "connect_each ps sock s = Inr (ret, s') \<Longrightarrow> no_socket s \<Longrightarrow> socks_ok s \<Longrightarrow>
     quiet s s' \<and> (ret = None \<longrightarrow> no_socket s')
     \<and> (no_socket s' \<or> (\<exists>fd. ret = Some fd \<and> fd \<noteq> NHR_INVALID_SOCKET))"
proof (induction ps sock s arbitrary: s' ret rule: connect_each.induct)
  case (1 sock s)
  then show ?case by auto
next
  case (2 p ps sock s)
  obtain s1 where s1: "touch s = Inr s1" using 2(2) by (auto simp: r_bind_Inr_conv)
  obtain fd s2 where s2: "nhr_socket s1 = Inr (fd, s2)" using 2(2) s1 by (auto simp: r_bind_Inr_conv)
  obtain b s3 where s3: "(if fd \<noteq> NHR_INVALID_SOCKET then try_connect fd p s2 else Inr (False, s2)) = Inr (b, s3)"
    using 2(2) s1 s2 by (fastforce simp: r_bind_Inr_conv)
  have rest: "(if b then Inr (Some fd, s3)
     else r_bind (nhr_request_check_timeout s3) (\<lambda>(in_time, s).
          if in_time then connect_each ps fd s else Inr (None, s))) = Inr (ret, s')"
    using 2(2) s1 s2 s3 by simp
  have q1: "quiet s s1" "no_socket s1" "socks_ok s1"
    using quiet_touch [OF s1] no_socket_touch [OF s1] 2(3,4) quiet_socks_ok by auto
  have q3: "quiet s s3" "no_socket s3 = (\<not> b)" "socks_ok s3"
    using socket_connect [OF s2 s3 q1(2,3)] q1 quiet_trans quiet_socks_ok by blast+
  show ?case
  proof (cases b)
    case True
    then have "fd \<noteq> NHR_INVALID_SOCKET" using s3 by (auto split: if_splits)
    with True rest q3 show ?thesis by auto
  next
    case False
    then obtain t s4 where s4: "nhr_request_check_timeout s3 = Inr (t, s4)"
        "(if t then connect_each ps fd s4 else Inr (None, s4)) = Inr (ret, s')"
      using rest by (auto simp: r_bind_Inr_conv)
    have q4: "quiet s s4" "no_socket s4" "socks_ok s4"
      using quiet_check_timeout [OF s4(1)] no_socket_check [OF s4(1)] q3 False quiet_trans quiet_socks_ok
      by blast+
    show ?thesis
    proof (cases t)
      case True
      with s4(2) have "connect_each ps fd s4 = Inr (ret, s')" by simp
      from 2(1) [OF s1 s2 _ s3 _ False s4(1) _ True this q4(2,3)] q4(1) show ?thesis
        using quiet_trans by auto
    next
      case False
      with s4(2) q4 show ?thesis by auto
    qed
  qed
qed

lemma connect_tries_quiet:
  "connect_tries n ps sock s = Inr (b, s') \<Longrightarrow> no_socket s \<or> sock \<noteq> NHR_INVALID_SOCKET \<Longrightarrow> socks_ok s \<Longrightarrow>
     quiet s s' \<and> (\<not> b \<longrightarrow> no_socket s')"
proof (induction n ps sock s rule: connect_tries.induct)
  case (1 ps sock s)
  then show ?case by auto
next
  case (2 n ps sock s)
  show ?case
  proof (cases "sock = NHR_INVALID_SOCKET")
    case False
    with 2(2) show ?thesis by auto
  next
    case True
    then have ns: "no_socket s" using 2(3) by simp
    obtain ret s1 where s1: "connect_each ps sock s = Inr (ret, s1)"
      using 2(2) True by (auto simp: r_bind_Inr_conv)
    note q = connect_each_quiet [OF s1 ns 2(4)]
    show ?thesis
    proof (cases ret)
      case None
      with 2(2) True s1 q show ?thesis by auto
    next
      case (Some fd)
      let ?s = "if fd = NHR_INVALID_SOCKET then emit (nhr_thread_sleep NHR_CONNECT_RETRY_DELAY) s1 else s1"
      have c: "connect_tries n ps fd ?s = Inr (b, s')" using 2(2) True s1 Some by simp
      have qs: "quiet s1 ?s" by (auto intro: quiet_emit)
      have "no_socket ?s \<or> fd \<noteq> NHR_INVALID_SOCKET" using q Some by auto
      moreover have "socks_ok ?s" using q qs 2(4) quiet_socks_ok by blast
      ultimately have "quiet ?s s' \<and> (\<not> b \<longrightarrow> no_socket s')"
        using 2(1) [OF _ s1 refl Some c] True by simp
      then show ?thesis using q qs quiet_trans by blast
    qed
  qed
qed

section \<open>Which command a handler leaves\<close>

definition cmd :: "sys \<Rightarrow> nhr_command" where
  "cmd s = rq_command (sy_req s)"

definition err :: "sys \<Rightarrow> nhr_error_code" where
  "err s = rq_error_code (sy_req s)"

definition err_ok :: "sys \<Rightarrow> bool" where
  "err_ok s \<longleftrightarrow> (cmd s = NHR_COMMAND_INFORM_ERROR \<longrightarrow> err s \<noteq> nhr_error_code_none)"

lemma cmd_err_simps [simp]:
  "cmd (set_command c s) = c" "err (set_command c s) = err s"
  "cmd (set_error e s) = NHR_COMMAND_INFORM_ERROR" "err (set_error e s) = e"
  "cmd (emit ev s) = cmd s" "err (emit ev s) = err s"
  "cmd (sys_close s) = cmd s" "err (sys_close s) = err s"
  by (simp_all add: cmd_def err_def set_command_def set_error_def on_req_def emit_def sys_close_def
      nhr_request_set_command_def nhr_request_close_def)

lemma cmd_touch: "touch s = Inr s' \<Longrightarrow> cmd s' = cmd s \<and> err s' = err s"
  by (auto simp: touch_def nhr_time_def r_bind_Inr_conv cmd_def err_def on_req_def split: list.splits)

lemma cmd_check_timeout:
  "nhr_request_check_timeout s = Inr (b, s') \<Longrightarrow>
     (if b then cmd s' = cmd s \<and> err s' = err s
      else cmd s' = NHR_COMMAND_INFORM_ERROR \<and> err s' = nhr_error_code_timeout)"
  by (auto simp: nhr_request_check_timeout_def nhr_time_def r_bind_Inr_conv cmd_def err_def on_req_def
      set_error_def set_command_def nhr_request_set_command_def split: list.splits if_splits)

lemma cmd_recv_loop: "recv_loop mc rs buff s = Inr s' \<Longrightarrow> cmd s' = cmd s \<and> err s' = err s"
proof (induction mc rs buff s rule: recv_loop.induct)
  case (2 mc d rest buff s)
  then obtain s1 x where s1: "touch s = Inr s1"
      "(case rq_response (sy_req s1) of
          Some rs \<Rightarrow> nhr_response_append mc rs (d @ drop (length d) buff) (of_nat (length d))
        | None \<Rightarrow> nhr_response_create mc (d @ drop (length d) buff) (of_nat (length d))) = Inr x"
      "recv_loop mc rest (d @ drop (length d) buff) (on_req (\<lambda>r. r\<lparr>rq_response := Some x\<rparr>) s1) = Inr s'"
    by (auto simp: r_bind_Inr_conv Let_def)
  from 2(1) [OF refl s1] cmd_touch [OF s1(1)] show ?case by (simp add: cmd_def err_def on_req_def)
qed (auto simp: cmd_def err_def)

lemma cmd_recv: "nhr_request_recv mc s = Inr (b, s') \<Longrightarrow> cmd s' = cmd s \<and> err s' = err s"
  by (auto simp: nhr_request_recv_def r_bind_Inr_conv split: list.splits if_splits dest!: cmd_recv_loop)
     (simp_all add: cmd_def err_def)

lemma cmd_wait:
  assumes "nhr_request_wait_raw_response mc s = Inr s'"
  shows "cmd s' = cmd s \<and> err s' = err s \<or> cmd s' = NHR_COMMAND_INFORM_RESPONSE
    \<or> cmd s' = NHR_COMMAND_INFORM_ERROR \<and> err s' = nhr_error_code_timeout"
proof -
  obtain b s1 where s1: "nhr_request_recv mc s = Inr (b, s1)"
    using assms by (auto simp: nhr_request_wait_raw_response_def r_bind_Inr_conv)
  note c = cmd_recv [OF s1]
  show ?thesis
  proof (cases b)
    case False
    with assms s1 show ?thesis by (auto simp: nhr_request_wait_raw_response_def)
  next
    case True
    with assms s1 obtain s2 t where s2: "s2 = s1 \<or> s2 = set_command NHR_COMMAND_INFORM_RESPONSE s1"
        "nhr_request_check_timeout s2 = Inr (t, s')"
      by (fastforce simp: nhr_request_wait_raw_response_def r_bind_Inr_conv Let_def split: if_splits)
    with cmd_check_timeout [OF s2(2)] c show ?thesis by (cases t) auto
  qed
qed

lemma cmd_send:
  assumes "nhr_request_send_raw_request mc s = Inr s'"
  shows "cmd s' = NHR_COMMAND_START_WAITING_RAW_RESPONSE
    \<or> cmd s' = NHR_COMMAND_INFORM_ERROR \<and> err s' \<noteq> nhr_error_code_none"
proof -
  obtain h r sent s1 where 1: "create_header mc (sy_req s) = Inr (h, r)"
      "nhr_request_send_buffer (on_req (\<lambda>_. r) s) (fst h) (snd h) = Inr (sent, s1)"
      "(if sent then Inr (set_command NHR_COMMAND_START_WAITING_RAW_RESPONSE s1)
     else r_bind (nhr_request_check_timeout (sys_close s1)) (\<lambda>(in_time, s).
          Inr (if in_time then set_error nhr_error_code_failed_connect_to_host s else s))) = Inr s'"
    using assms unfolding send_raw_request_eq by (auto simp: r_bind_Inr_conv)
  show ?thesis
  proof (cases sent)
    case True
    with 1(3) show ?thesis by auto
  next
    case False
    with 1(3) obtain t s2 where s2: "nhr_request_check_timeout (sys_close s1) = Inr (t, s2)"
        "s' = (if t then set_error nhr_error_code_failed_connect_to_host s2 else s2)"
      by (auto simp: r_bind_Inr_conv)
    with cmd_check_timeout [OF s2(1)] show ?thesis by (cases t) auto
  qed
qed

lemma getaddr_loop_out:
  "getaddr_loop n s = Inr (ps, s') \<Longrightarrow> no_socket s' = no_socket s \<and>
     (ps = [] \<longrightarrow> cmd s' = NHR_COMMAND_INFORM_ERROR \<and> err s' = nhr_error_code_failed_connect_to_host)"
proof (induction n s rule: getaddr_loop.induct)
  case (2 n s)
  show ?case
  proof (cases "sy_addr s")
    case (Cons a rest)
    have n: "no_socket (s\<lparr>sy_addr := rest\<rparr>) = no_socket s" by (simp add: no_socket_def)
    show ?thesis
    proof (cases a)
      case (Addr_list qs)
      then show ?thesis using 2 Cons n by (cases qs) auto
    next
      case (Addr_fail e)
      then show ?thesis using 2 Cons n by auto
    qed
  qed (use 2 in simp)
qed auto

lemma connect_each_timeout:
  "connect_each ps sock s = Inr (None, s') \<Longrightarrow>
     cmd s' = NHR_COMMAND_INFORM_ERROR \<and> err s' = nhr_error_code_timeout"
proof (induction ps sock s arbitrary: s' rule: connect_each.induct)
  case (2 p ps sock s)
  obtain s1 where s1: "touch s = Inr s1" using 2(2) by (auto simp: r_bind_Inr_conv)
  obtain fd s2 where s2: "nhr_socket s1 = Inr (fd, s2)" using 2(2) s1 by (auto simp: r_bind_Inr_conv)
  obtain b s3 where s3: "(if fd \<noteq> NHR_INVALID_SOCKET then try_connect fd p s2 else Inr (False, s2)) = Inr (b, s3)"
    using 2(2) s1 s2 by (fastforce simp: r_bind_Inr_conv)
  have b: "\<not> b" using 2(2) s1 s2 s3 by auto
  then obtain t s4 where s4: "nhr_request_check_timeout s3 = Inr (t, s4)"
      "(if t then connect_each ps fd s4 else Inr (None, s4)) = Inr (None, s')"
    using 2(2) s1 s2 s3 by (auto simp: r_bind_Inr_conv)
  show ?case
  proof (cases t)
    case True
    with s4(2) have "connect_each ps fd s4 = Inr (None, s')" by simp
    from 2(1) [OF s1 s2 _ s3 _ b s4(1) _ True this] show ?thesis by simp
  next
    case False
    with s4(2) cmd_check_timeout [OF s4(1)] show ?thesis by auto
  qed
qed simp

lemma connect_tries_timeout:
  "connect_tries n ps sock s = Inr (False, s') \<Longrightarrow>
     cmd s' = NHR_COMMAND_INFORM_ERROR \<and> err s' = nhr_error_code_timeout"
proof (induction n ps sock s rule: connect_tries.induct)
  case (2 n ps sock s)
  then have sock: "sock = NHR_INVALID_SOCKET" by (auto split: if_splits)
  obtain ret s1 where s1: "connect_each ps sock s = Inr (ret, s1)"
    using 2(2) sock by (auto simp: r_bind_Inr_conv)
  show ?case
  proof (cases ret)
    case None
    with 2(2) sock s1 have "s1 = s'" by simp
    with connect_each_timeout s1 None show ?thesis by blast
  next
    case (Some fd)
    have "connect_tries n ps fd (if fd = NHR_INVALID_SOCKET then emit (nhr_thread_sleep NHR_CONNECT_RETRY_DELAY) s1 else s1)
        = Inr (False, s')"
      using 2(2) sock s1 Some by simp
    from 2(1) [OF _ s1 refl Some this] sock show ?thesis by simp
  qed
qed simp

lemma connect_host_out:
  assumes "nhr_request_connect_to_host s = Inr s'" "no_socket s" "socks_ok s"
  shows "quiet s s' \<and> (cmd s' = NHR_COMMAND_SEND_RAW_REQUEST
     \<or> cmd s' = NHR_COMMAND_INFORM_ERROR \<and> err s' \<noteq> nhr_error_code_none)"
proof -
  obtain s1 where s1: "touch s = Inr s1"
    using assms(1) by (auto simp: nhr_request_connect_to_host_def r_bind_Inr_conv)
  obtain ps s2 where s2: "nhr_request_connect_getaddr_info s1 = Inr (ps, s2)"
    using assms(1) s1 by (auto simp: nhr_request_connect_to_host_def r_bind_Inr_conv)
  then have g: "getaddr_loop (NHR_CONNECT_ATTEMPS - 1) s1 = Inr (ps, s2)"
    by (auto simp: nhr_request_connect_getaddr_info_def r_bind_Inr_conv)
  obtain t s3 where s3: "nhr_request_check_timeout s2 = Inr (t, s3)"
    using assms(1) s1 s2 by (auto simp: nhr_request_connect_to_host_def r_bind_Inr_conv)
  have q3: "quiet s s3" "no_socket s3" "socks_ok s3"
    using quiet_touch [OF s1] quiet_getaddr_loop [OF g] quiet_check_timeout [OF s3]
      no_socket_touch [OF s1] getaddr_loop_out [OF g] no_socket_check [OF s3] assms(2,3)
      quiet_trans quiet_socks_ok by blast+
  show ?thesis
  proof (cases "\<not> t \<or> ps = []")
    case True
    then have "s' = s3" using assms(1) s1 s2 s3 by (auto simp: nhr_request_connect_to_host_def)
    moreover have "cmd s3 = NHR_COMMAND_INFORM_ERROR \<and> err s3 \<noteq> nhr_error_code_none"
      using True cmd_check_timeout [OF s3] getaddr_loop_out [OF g] by (cases t) auto
    ultimately show ?thesis using q3 by simp
  next
    case False
    let ?fin = "\<lambda>s. let s = emit Ev_freeaddrinfo s in
               if rq_socket (sy_req s) = NHR_INVALID_SOCKET
               then Inr (set_error nhr_error_code_failed_connect_to_host s)
               else Inr (set_command NHR_COMMAND_SEND_RAW_REQUEST s)"
    have "r_bind (connect_tries (NHR_CONNECT_ATTEMPS - 1) ps NHR_INVALID_SOCKET s3)
        (\<lambda>(go_on, s). if \<not> go_on then Inr s else ?fin s) = (Inr s' :: sys res)"
      using assms(1) False by (simp add: nhr_request_connect_to_host_def s1 s2 s3)
    then obtain x where x: "connect_tries (NHR_CONNECT_ATTEMPS - 1) ps NHR_INVALID_SOCKET s3 = Inr x"
        "(case x of (go_on, s) \<Rightarrow> if \<not> go_on then Inr s else ?fin s) = (Inr s' :: sys res)"
      by (rule r_bindE)
    obtain b s4 where "x = (b, s4)" by (cases x)
    with x have s4: "connect_tries (NHR_CONNECT_ATTEMPS - 1) ps NHR_INVALID_SOCKET s3 = Inr (b, s4)"
        "(if \<not> b then Inr s4 else ?fin s4) = (Inr s' :: sys res)" by simp_all
    have q4: "quiet s s4" using connect_tries_quiet [OF s4(1)] q3 quiet_trans by blast
    show ?thesis
    proof (cases b)
      case True
      have "quiet s (emit Ev_freeaddrinfo s4)" by (rule quiet_trans [OF q4 quiet_emit]) simp_all
      then show ?thesis using s4(2) True
        by (auto simp: Let_def split: if_splits intro: quiet_trans)
    next
      case False
      with s4 connect_tries_timeout [of _ ps _ s3 s4] q4 show ?thesis by auto
    qed
  qed
qed

lemma handler_out:
  assumes "run_handler mc c s = Inr s'" "socks_ok s" "err_ok s"
    and "c = NHR_COMMAND_CONNECT_TO_HOST \<Longrightarrow> no_socket s"
  shows "quiet s s'" "err_ok s'"
    "cmd s' = NHR_COMMAND_CONNECT_TO_HOST \<Longrightarrow>
       cmd s = NHR_COMMAND_CONNECT_TO_HOST \<and> c \<noteq> NHR_COMMAND_CONNECT_TO_HOST"
    "cmd s' = NHR_COMMAND_END \<Longrightarrow> cmd s = NHR_COMMAND_END"
proof -
  have "quiet s s' \<and> err_ok s' \<and> (cmd s' = NHR_COMMAND_CONNECT_TO_HOST \<longrightarrow>
       cmd s = NHR_COMMAND_CONNECT_TO_HOST \<and> c \<noteq> NHR_COMMAND_CONNECT_TO_HOST)
     \<and> (cmd s' = NHR_COMMAND_END \<longrightarrow> cmd s = NHR_COMMAND_END)"
  proof (cases c)
    case NHR_COMMAND_CONNECT_TO_HOST
    with assms connect_host_out [of s s'] show ?thesis by (auto simp: run_handler_def err_ok_def)
  next
    case NHR_COMMAND_SEND_RAW_REQUEST
    with assms(1) quiet_send [of mc s s'] cmd_send [of mc s s'] show ?thesis
      by (auto simp: run_handler_def err_ok_def)
  next
    case NHR_COMMAND_START_WAITING_RAW_RESPONSE
    then have "nhr_request_start_waiting_raw_response s = Inr s'" using assms(1) by (simp add: run_handler_def)
    with quiet_start_waiting [OF this] show ?thesis
      by (auto simp: nhr_request_start_waiting_raw_response_def r_bind_Inr_conv err_ok_def)
  next
    case NHR_COMMAND_WAIT_RAW_RESPONSE
    with assms(1,3) quiet_wait [of mc s s'] cmd_wait [of mc s s'] show ?thesis
      by (auto simp: run_handler_def err_ok_def)
  qed (use assms in \<open>auto simp: run_handler_def\<close>)
  then show "quiet s s'" "err_ok s'"
    "cmd s' = NHR_COMMAND_CONNECT_TO_HOST \<Longrightarrow>
       cmd s = NHR_COMMAND_CONNECT_TO_HOST \<and> c \<noteq> NHR_COMMAND_CONNECT_TO_HOST"
    "cmd s' = NHR_COMMAND_END \<Longrightarrow> cmd s = NHR_COMMAND_END" by auto
qed

lemma handler_none: "run_handler mc NHR_COMMAND_NONE s = Inr s" "run_handler mc NHR_COMMAND_END s = Inr s"
  by (simp_all add: run_handler_def)

end
