(* ===== verification/Nhr_Worker_Safety.thy ===== *)
theory Nhr_Worker_Safety
  imports Nhr_Worker_Correct
begin

text \<open>
  The safety of the worker thread over every reachable state, that is over every interleaving
  of the worker's steps with the client that starts and cancels it: the shape of the log, the
  error code behind an error callback, and the sockets. The invariant \<open>winv\<close> is proved
  step by step and lifted to the reachable states by the locale \<open>step_system\<close>.
\<close>

section \<open>The shape of a log\<close>

fun callback_event :: "event \<Rightarrow> bool" where
  "callback_event (Ev_response _) = True"
| "callback_event (Ev_error _) = True"
| "callback_event _ = False"

fun wind_up :: "event \<Rightarrow> bool" where
  "wind_up (Ev_usleep _) = True"
| "wind_up (Ev_close _) = True"
| "wind_up _ = False"

fun coded :: "event \<Rightarrow> bool" where
  "coded (Ev_error e) = (e \<noteq> nhr_error_code_none)"
| "coded _ = True"

definition log_shape :: "event list \<Rightarrow> event list \<Rightarrow> event list \<Rightarrow> event list \<Rightarrow> bool" where
  \<comment> \<open>work, at most one callback, winding up, deletion\<close>
  "log_shape q cb w del \<longleftrightarrow> list_all quiet_event q
     \<and> list_all (\<lambda>e. callback_event e \<and> coded e) cb \<and> length cb \<le> 1
     \<and> list_all wind_up w \<and> (del = [] \<or> del = [Ev_deleted])"

definition log_ok :: "event list \<Rightarrow> bool" where
  "log_ok es \<longleftrightarrow> (\<exists>q cb w del. es = q @ cb @ w @ del \<and> log_shape q cb w del)"

lemma wind_up_quiet: "wind_up e \<Longrightarrow> quiet_event e"
  by (cases e) auto

lemma callback_not_quiet: "callback_event e \<Longrightarrow> \<not> quiet_event e"
  by (cases e) auto

lemma quiet_event_iff: "quiet_event e \<longleftrightarrow> \<not> callback_event e \<and> e \<noteq> Ev_deleted"
  by (cases e) auto

lemma log_ok_quiet: "list_all quiet_event es \<Longrightarrow> log_ok es"
  unfolding log_ok_def log_shape_def
  by (rule exI [of _ es], rule exI [of _ "[]"], rule exI [of _ "[]"], rule exI [of _ "[]"]) simp

lemma log_ok_callback:
  "list_all quiet_event es \<Longrightarrow> callback_event e \<Longrightarrow> coded e \<Longrightarrow> log_ok (es @ [e])"
  unfolding log_ok_def log_shape_def
  by (rule exI [of _ es], rule exI [of _ "[e]"], rule exI [of _ "[]"], rule exI [of _ "[]"]) simp

lemma log_ok_open:
  assumes "log_ok es" "Ev_deleted \<notin> set es"
  obtains q cb w where "es = q @ cb @ w" "log_shape q cb w []"
  using assms by (auto simp: log_ok_def log_shape_def)

lemma log_ok_wind_up:
  assumes "log_ok es" "Ev_deleted \<notin> set es" "wind_up e"
  shows "log_ok (es @ [e])"
proof -
  obtain q cb w where "es = q @ cb @ w" "log_shape q cb w []"
    using assms(1,2) by (rule log_ok_open)
  then have "es @ [e] = q @ cb @ (w @ [e]) @ []" "log_shape q cb (w @ [e]) []"
    using assms(3) by (simp_all add: log_shape_def)
  then show ?thesis unfolding log_ok_def by blast
qed

lemma log_ok_deleted:
  assumes "log_ok es" "Ev_deleted \<notin> set es"
  shows "log_ok (es @ [Ev_deleted])"
proof -
  obtain q cb w where "es = q @ cb @ w" "log_shape q cb w []"
    using assms by (rule log_ok_open)
  then have "es @ [Ev_deleted] = q @ cb @ w @ [Ev_deleted]" "log_shape q cb w [Ev_deleted]"
    by (simp_all add: log_shape_def)
  then show ?thesis unfolding log_ok_def by blast
qed

lemma informed_iff: "informed s \<longleftrightarrow> (\<exists>e \<in> set (sy_log s). callback_event e)"
  unfolding informed_def
  by (rule bex_cong [OF refl]) (simp split: event.split)

lemma quiet_log:
  assumes "\<not> informed s" "Ev_deleted \<notin> set (sy_log s)"
  shows "list_all quiet_event (sy_log s)"
  using assms by (auto simp: informed_iff quiet_event_iff list_all_iff)

section \<open>The invariant\<close>

definition callbacks_set :: "sys \<Rightarrow> bool" where
  "callbacks_set s \<longleftrightarrow> rq_on_recvd_response (sy_req s) \<noteq> None \<and> rq_on_error (sy_req s) \<noteq> None"

definition log_inv :: "sys \<Rightarrow> bool" where
  "log_inv s \<longleftrightarrow> log_ok (sy_log s) \<and> (Ev_deleted \<in> set (sy_log s) \<longleftrightarrow> sy_pc s = Done)
     \<and> (informed s \<longrightarrow> cmd s = NHR_COMMAND_END \<and> sy_pc s \<in> {Sleeping, Loop_test, Exiting, Done})
     \<and> (callbacks_set s \<and> cmd s = NHR_COMMAND_END \<longrightarrow> informed s \<or> sy_cancelled s)
     \<and> (sy_pc s \<in> {Exiting, Done} \<longrightarrow> cmd s = NHR_COMMAND_END)"

definition command_inv :: "sys \<Rightarrow> bool" where
  "command_inv s \<longleftrightarrow> err_ok s
     \<and> (sy_pc s = Informing NHR_COMMAND_INFORM_ERROR \<longrightarrow> err s \<noteq> nhr_error_code_none)
     \<and> (\<forall>c. sy_pc s = Running c \<and> cmd s = NHR_COMMAND_CONNECT_TO_HOST \<longrightarrow>
            c = NHR_COMMAND_NONE \<or> c = NHR_COMMAND_CONNECT_TO_HOST)"

definition start_inv :: "sys \<Rightarrow> bool" where
  "start_inv s \<longleftrightarrow> sy_start s \<noteq> Started \<longrightarrow> cmd s = NHR_COMMAND_NONE \<and> \<not> sy_cancelled s \<and> no_socket s
     \<and> sy_pc s \<in> {Loop_test, Dispatch, Running NHR_COMMAND_NONE, Inform, Informing NHR_COMMAND_NONE, Sleeping}"

definition socket_inv :: "sys \<Rightarrow> bool" where
  "socket_inv s \<longleftrightarrow> socks_ok s \<and> (\<forall>fd. unaccounted s fd = 0)
     \<and> (sy_pc s = Done \<or> cmd s = NHR_COMMAND_CONNECT_TO_HOST
        \<or> sy_pc s = Running NHR_COMMAND_CONNECT_TO_HOST \<longrightarrow> no_socket s)"

definition winv :: "sys \<Rightarrow> bool" where
  "winv s \<longleftrightarrow> log_inv s \<and> command_inv s \<and> start_inv s \<and> socket_inv s"

lemma field_simps_sys [simp]:
  "cmd (s\<lparr>sy_pc := p\<rparr>) = cmd s" "err (s\<lparr>sy_pc := p\<rparr>) = err s" "err_ok (s\<lparr>sy_pc := p\<rparr>) = err_ok s"
  "no_socket (s\<lparr>sy_pc := p\<rparr>) = no_socket s" "socks_ok (s\<lparr>sy_pc := p\<rparr>) = socks_ok s"
  "unaccounted (s\<lparr>sy_pc := p\<rparr>) fd = unaccounted s fd" "informed (s\<lparr>sy_pc := p\<rparr>) = informed s"
  "callbacks_set (s\<lparr>sy_pc := p\<rparr>) = callbacks_set s"
  "cmd (s\<lparr>sy_start := q\<rparr>) = cmd s" "err (s\<lparr>sy_start := q\<rparr>) = err s" "err_ok (s\<lparr>sy_start := q\<rparr>) = err_ok s"
  "no_socket (s\<lparr>sy_start := q\<rparr>) = no_socket s" "socks_ok (s\<lparr>sy_start := q\<rparr>) = socks_ok s"
  "unaccounted (s\<lparr>sy_start := q\<rparr>) fd = unaccounted s fd" "informed (s\<lparr>sy_start := q\<rparr>) = informed s"
  "callbacks_set (s\<lparr>sy_start := q\<rparr>) = callbacks_set s"
  by (simp_all add: cmd_def err_def err_ok_def no_socket_def socks_ok_def unaccounted_def informed_def
      callbacks_set_def)

lemmas winv_defs = winv_def log_inv_def command_inv_def start_inv_def socket_inv_def

lemma winv_init: "sys_init s \<and> socks_ok s \<Longrightarrow> winv s"
  by (simp add: winv_defs sys_init_def cmd_def err_def err_ok_def no_socket_def unaccounted_def informed_def
      log_ok_quiet)

section \<open>Every step keeps the invariant\<close>

lemma quiet_informed:
  assumes "quiet s s'"
  shows "informed s' = informed s" "Ev_deleted \<in> set (sy_log s') \<longleftrightarrow> Ev_deleted \<in> set (sy_log s)"
    "callbacks_set s' = callbacks_set s" "sy_start s' = sy_start s" "sy_cancelled s' = sy_cancelled s"
    "unaccounted s' fd = unaccounted s fd"
    "list_all quiet_event (sy_log s) \<Longrightarrow> list_all quiet_event (sy_log s')"
proof -
  obtain es where "sy_log s' = sy_log s @ es" "\<forall>e \<in> set es. quiet_event e"
    using assms by (auto simp: quiet_def)
  then show "informed s' = informed s" "Ev_deleted \<in> set (sy_log s') \<longleftrightarrow> Ev_deleted \<in> set (sy_log s)"
    "list_all quiet_event (sy_log s) \<Longrightarrow> list_all quiet_event (sy_log s')"
    by (auto simp: informed_iff quiet_event_iff list_all_iff)
  show "callbacks_set s' = callbacks_set s" "sy_start s' = sy_start s" "sy_cancelled s' = sy_cancelled s"
    "unaccounted s' fd = unaccounted s fd"
    using assms by (auto simp: quiet_def callbacks_set_def)
qed

lemma winv_move:
  assumes s: "winv s" "sy_pc s \<notin> {Exiting, Done}"
    and p: "p \<in> {Loop_test, Dispatch, Inform, Sleeping, Running (cmd s), Informing (cmd s)}
      \<or> p = Exiting \<and> cmd s = NHR_COMMAND_END"
    and i: "informed s \<Longrightarrow> p \<in> {Sleeping, Loop_test, Exiting}"
  shows "winv (s\<lparr>sy_pc := p\<rparr>)"
proof -
  have d: "p \<noteq> Done" using p by auto
  have "log_inv (s\<lparr>sy_pc := p\<rparr>)"
    using s p i d unfolding winv_def log_inv_def by auto
  moreover have "command_inv (s\<lparr>sy_pc := p\<rparr>)"
  proof -
    have "err_ok s" using s(1) by (simp add: winv_def command_inv_def)
    then show ?thesis using p by (auto simp: command_inv_def err_ok_def)
  qed
  moreover have "start_inv (s\<lparr>sy_pc := p\<rparr>)"
    using s(1) p unfolding winv_def start_inv_def by auto
  moreover have "socket_inv (s\<lparr>sy_pc := p\<rparr>)"
    using s(1) p d unfolding winv_def socket_inv_def by auto
  ultimately show ?thesis by (simp add: winv_def)
qed

lemma winv_handler:
  assumes "winv s" "sy_pc s = Running c"
  shows "winv (case run_handler mc c s of Inl f \<Rightarrow> s\<lparr>sy_pc := Crashed f\<rparr> | Inr s' \<Rightarrow> s'\<lparr>sy_pc := Inform\<rparr>)"
proof -
  have ns: "sy_start s \<noteq> Started \<Longrightarrow> c = NHR_COMMAND_NONE" using assms by (simp add: winv_def start_inv_def)
  have ni: "\<not> informed s" "Ev_deleted \<notin> set (sy_log s)"
    using assms unfolding winv_def log_inv_def by auto
  show ?thesis
  proof (cases "run_handler mc c s")
    case (Inl f)
    then have "c \<noteq> NHR_COMMAND_NONE" by (auto simp: handler_none)
    with ns have st: "sy_start s = Started" by blast
    have "log_inv (s\<lparr>sy_pc := Crashed f\<rparr>)" using assms ni unfolding winv_def log_inv_def by simp
    moreover have "command_inv (s\<lparr>sy_pc := Crashed f\<rparr>)" using assms(1) unfolding winv_def command_inv_def by simp
    moreover have "start_inv (s\<lparr>sy_pc := Crashed f\<rparr>)" using st by (simp add: start_inv_def)
    moreover have "socket_inv (s\<lparr>sy_pc := Crashed f\<rparr>)" using assms(1) unfolding winv_def socket_inv_def by simp
    ultimately show ?thesis using Inl by (simp add: winv_def)
  next
    case (Inr s')
    note h = handler_out [OF Inr]
    have pre: "socks_ok s" "err_ok s" "c = NHR_COMMAND_CONNECT_TO_HOST \<Longrightarrow> no_socket s"
      using assms unfolding winv_def socket_inv_def command_inv_def by auto
    note q = quiet_informed [OF h(1) [OF pre]]
    have lq: "list_all quiet_event (sy_log s')" using q(7) quiet_log [OF ni] by simp
    have con: "cmd s' = NHR_COMMAND_CONNECT_TO_HOST \<Longrightarrow> no_socket s'"
    proof -
      assume "cmd s' = NHR_COMMAND_CONNECT_TO_HOST"
      from h(3) [OF pre this] assms have "c = NHR_COMMAND_NONE" "no_socket s"
        unfolding winv_def command_inv_def socket_inv_def by auto
      with Inr show "no_socket s'" by (simp add: handler_none)
    qed
    have "log_inv (s'\<lparr>sy_pc := Inform\<rparr>)"
      using lq q ni h(4) [OF pre] assms(1) unfolding winv_def log_inv_def by (simp add: log_ok_quiet)
    moreover have "command_inv (s'\<lparr>sy_pc := Inform\<rparr>)" using h(2) [OF pre] by (simp add: command_inv_def)
    moreover have "start_inv (s'\<lparr>sy_pc := Inform\<rparr>)"
    proof (cases "sy_start s = Started")
      case True
      then show ?thesis using q(4) by (simp add: start_inv_def)
    next
      case False
      with ns Inr have "s' = s" by (simp add: handler_none)
      with assms(1) show ?thesis by (simp add: winv_def start_inv_def)
    qed
    moreover have "socket_inv (s'\<lparr>sy_pc := Inform\<rparr>)"
      using q(6) con quiet_socks_ok [OF h(1) [OF pre] pre(1)] assms(1) unfolding winv_def socket_inv_def by simp
    ultimately show ?thesis using Inr by (simp add: winv_def)
  qed
qed

lemma inform_callback:
  assumes "winv s" "sy_pc s = Informing c" "run_inform c s \<noteq> s"
  shows "\<exists>es. run_inform c s = (set_command NHR_COMMAND_END s)\<lparr>sy_log := sy_log s @ es\<rparr>
    \<and> (callbacks_set s \<longrightarrow> es \<noteq> []) \<and> list_all (\<lambda>e. callback_event e \<and> coded e) es \<and> length es \<le> 1"
proof -
  have e: "c = NHR_COMMAND_INFORM_ERROR \<Longrightarrow> err s \<noteq> nhr_error_code_none"
    using assms(1,2) by (simp add: winv_def command_inv_def)
  have keep: "sy_req (set_command NHR_COMMAND_END s) = (sy_req s)\<lparr>rq_command := NHR_COMMAND_END\<rparr>"
    "sy_log (set_command NHR_COMMAND_END s) = sy_log s"
    by (simp_all add: set_command_def on_req_def nhr_request_set_command_def)
  have id: "set_command NHR_COMMAND_END s
      = (set_command NHR_COMMAND_END s)\<lparr>sy_log := sy_log s @ []\<rparr>"
    by (simp add: set_command_def on_req_def)
  show ?thesis
  proof (cases c)
    case NHR_COMMAND_INFORM_RESPONSE
    then show ?thesis
    proof (cases "rq_on_recvd_response (sy_req s)")
      case None
      with id NHR_COMMAND_INFORM_RESPONSE show ?thesis
        by (intro exI [of _ "[]"]) (simp add: run_inform_def keep callbacks_set_def)
    next
      case (Some h)
      with NHR_COMMAND_INFORM_RESPONSE show ?thesis
        by (intro exI [of _ "[Ev_response (rq_response (sy_req s))]"]) (simp add: run_inform_def keep emit_def)
    qed
  next
    case NHR_COMMAND_INFORM_ERROR
    then show ?thesis
    proof (cases "rq_on_error (sy_req s)")
      case None
      with id NHR_COMMAND_INFORM_ERROR show ?thesis
        by (intro exI [of _ "[]"]) (simp add: run_inform_def keep callbacks_set_def)
    next
      case (Some h)
      with NHR_COMMAND_INFORM_ERROR e show ?thesis
        by (intro exI [of _ "[Ev_error (rq_error_code (sy_req s))]"])
           (simp add: run_inform_def keep emit_def err_def)
    qed
  qed (use assms(3) in \<open>simp_all add: run_inform_def\<close>)
qed

lemma set_command_sel [simp]:
  "sy_log (set_command c s) = sy_log s" "sy_pc (set_command c s) = sy_pc s"
  "sy_start (set_command c s) = sy_start s" "sy_cancelled (set_command c s) = sy_cancelled s"
  "sy_sock (set_command c s) = sy_sock s" "informed (set_command c s) = informed s"
  "callbacks_set (set_command c s) = callbacks_set s" "socks_ok (set_command c s) = socks_ok s"
  "unaccounted (set_command c s) fd = unaccounted s fd"
  by (simp_all add: set_command_def on_req_def nhr_request_set_command_def informed_def callbacks_set_def
      socks_ok_def unaccounted_def)

lemma callback_opens: "callback_event e \<Longrightarrow> opens fd e = 0"
  by (cases e) auto

lemma at_most_one: "length es \<le> 1 \<Longrightarrow> es = [] \<or> (\<exists>e. es = [e])"
  by (cases es) auto

lemma winv_ended:
  \<comment> \<open>the command becomes the end, and a callback may have been made\<close>
  assumes w: "winv s" and pc: "sy_pc s = Informing c" and c: "c \<noteq> NHR_COMMAND_NONE"
    and es: "list_all (\<lambda>e. callback_event e \<and> coded e) es" "length es \<le> 1"
    and cb: "callbacks_set s \<Longrightarrow> es \<noteq> []"
    and s': "s' = (set_command NHR_COMMAND_END s)\<lparr>sy_log := sy_log s @ es\<rparr>"
  shows "winv (s'\<lparr>sy_pc := Sleeping\<rparr>)"
proof -
  have ni: "\<not> informed s" "Ev_deleted \<notin> set (sy_log s)"
    using w pc unfolding winv_def log_inv_def by auto
  have st: "sy_start s = Started" using w pc c unfolding winv_def start_inv_def by auto
  have sel: "cmd s' = NHR_COMMAND_END" "sy_log s' = sy_log s @ es" "callbacks_set s' = callbacks_set s"
    "sy_start s' = sy_start s" "socks_ok s' = socks_ok s"
    using s' by (simp_all add: cmd_def set_command_def on_req_def nhr_request_set_command_def
        callbacks_set_def socks_ok_def)
  have req: "sy_req s' = (sy_req s)\<lparr>rq_command := NHR_COMMAND_END\<rparr>"
    using s' by (simp add: set_command_def on_req_def nhr_request_set_command_def)
  have un: "unaccounted s' fd = unaccounted s fd" for fd
    using at_most_one [OF es(2)] es(1) by (auto simp: unaccounted_def req sel callback_opens)
  have inf: "informed s' \<longleftrightarrow> es \<noteq> []" and del: "Ev_deleted \<notin> set (sy_log s')" and ok: "log_ok (sy_log s')"
    using at_most_one [OF es(2)] es(1) ni quiet_log [OF ni]
    by (auto simp: informed_iff sel log_ok_quiet intro: log_ok_callback)
  have "log_inv (s'\<lparr>sy_pc := Sleeping\<rparr>)"
    using ok del inf cb sel by (simp add: log_inv_def)
  moreover have "command_inv (s'\<lparr>sy_pc := Sleeping\<rparr>)" using sel by (simp add: command_inv_def err_ok_def)
  moreover have "start_inv (s'\<lparr>sy_pc := Sleeping\<rparr>)" using sel st by (simp add: start_inv_def)
  moreover have "socket_inv (s'\<lparr>sy_pc := Sleeping\<rparr>)"
    using w sel un unfolding winv_def socket_inv_def by simp
  ultimately show ?thesis by (simp add: winv_def)
qed

lemma winv_inform:
  assumes "winv s" "sy_pc s = Informing c"
  shows "winv ((run_inform c s)\<lparr>sy_pc := Sleeping\<rparr>)"
proof (cases "run_inform c s = s")
  case True
  have "\<not> informed s" using assms unfolding winv_def log_inv_def by auto
  with winv_move [OF assms(1), of Sleeping] assms(2) True show ?thesis by simp
next
  case False
  then have "c \<noteq> NHR_COMMAND_NONE" by (auto simp: run_inform_def)
  moreover obtain es where "run_inform c s = (set_command NHR_COMMAND_END s)\<lparr>sy_log := sy_log s @ es\<rparr>"
      "callbacks_set s \<longrightarrow> es \<noteq> []" "list_all (\<lambda>e. callback_event e \<and> coded e) es" "length es \<le> 1"
    using inform_callback [OF assms False] by blast
  ultimately show ?thesis using winv_ended [OF assms] by blast
qed

lemma winv_sleep:
  assumes w: "winv s" and pc: "sy_pc s = Sleeping"
  shows "winv ((emit (nhr_thread_sleep n) s)\<lparr>sy_pc := Loop_test\<rparr>)"
proof -
  let ?s = "emit (nhr_thread_sleep n) s"
  have q: "quiet s ?s" by (rule quiet_sleep)
  note i = quiet_informed [OF q]
  have nd: "Ev_deleted \<notin> set (sy_log s)" and ok: "log_ok (sy_log s)"
    using w pc unfolding winv_def log_inv_def by auto
  have ok: "log_ok (sy_log ?s)" using log_ok_wind_up [OF ok nd] by (simp add: emit_def nhr_thread_sleep_def)
  have "log_inv (?s\<lparr>sy_pc := Loop_test\<rparr>)"
    using ok nd i w unfolding winv_def log_inv_def by simp
  moreover have "command_inv (?s\<lparr>sy_pc := Loop_test\<rparr>)"
    using w unfolding winv_def command_inv_def err_ok_def by simp
  moreover have "start_inv (?s\<lparr>sy_pc := Loop_test\<rparr>)"
    using w i(4,5) unfolding winv_def start_inv_def by simp
  moreover have "socket_inv (?s\<lparr>sy_pc := Loop_test\<rparr>)"
    using w i(6) quiet_socks_ok [OF q] unfolding winv_def socket_inv_def by simp
  ultimately show ?thesis by (simp add: winv_def)
qed

lemma delete_sel:
  "sy_log (nhr_request_delete s) = sy_log (sys_close s) @ [Ev_deleted]"
  "cmd (nhr_request_delete s) = cmd s" "err (nhr_request_delete s) = err s"
  "no_socket (nhr_request_delete s)" "socks_ok (nhr_request_delete s) = socks_ok s"
  "callbacks_set (nhr_request_delete s) = callbacks_set s"
  "sy_start (nhr_request_delete s) = sy_start s" "sy_cancelled (nhr_request_delete s) = sy_cancelled s"
  "unaccounted (nhr_request_delete s) fd = unaccounted (sys_close s) fd"
  by (auto simp: nhr_request_delete_def Let_def on_req_def emit_def sys_close_def nhr_request_close_def
      cmd_def err_def no_socket_def socks_ok_def callbacks_set_def unaccounted_def)

lemma close_wind_up: "\<exists>es. sy_log (sys_close s) = sy_log s @ es \<and> (es = [] \<or> (\<exists>fd. es = [Ev_close fd]))"
  by (auto simp: sys_close_def on_req_def emit_def)

lemma sys_close_twice: "sys_close (sys_close s) = sys_close s"
  by (simp add: sys_close_def on_req_def emit_def nhr_request_close_def)

lemma winv_exit:
  assumes w: "winv s" and pc: "sy_pc s = Exiting"
  shows "winv ((nhr_request_delete (sys_close (on_req (\<lambda>r. r\<lparr>rq_work_thread := None\<rparr>) s)))\<lparr>sy_pc := Done\<rparr>)"
proof -
  let ?t = "on_req (\<lambda>r. r\<lparr>rq_work_thread := None\<rparr>) s"
  let ?c = "sys_close ?t" and ?d = "nhr_request_delete (sys_close ?t)"
  have t: "sy_log ?t = sy_log s" "cmd ?t = cmd s" "err ?t = err s" "socks_ok ?t = socks_ok s"
    "callbacks_set ?t = callbacks_set s" "sy_start ?t = sy_start s" "sy_cancelled ?t = sy_cancelled s"
    "unaccounted ?t fd = unaccounted s fd" for fd
    by (simp_all add: on_req_def cmd_def err_def socks_ok_def callbacks_set_def unaccounted_def)
  note q = quiet_sys_close [of ?t]
  have st: "sy_start s = Started" and e: "cmd s = NHR_COMMAND_END" and nd: "Ev_deleted \<notin> set (sy_log s)"
    and ok: "log_ok (sy_log s)"
    using w pc unfolding winv_def start_inv_def log_inv_def by auto
  have ndc: "Ev_deleted \<notin> set (sy_log ?c)" using quiet_informed(2) [OF q] t(1) nd by simp
  have okc: "log_ok (sy_log ?c)"
    using close_wind_up [of ?t] log_ok_wind_up [OF ok nd] t(1) ok by fastforce
  have "informed ?d = informed s"
    using quiet_informed(1) [OF q] t(1) by (auto simp: informed_iff delete_sel sys_close_twice)
  then have "log_inv (?d\<lparr>sy_pc := Done\<rparr>)"
    using log_ok_deleted [OF okc ndc] e w quiet_informed(3,5) [OF q] t unfolding winv_def log_inv_def
    by (simp add: delete_sel sys_close_twice)
  moreover have "command_inv (?d\<lparr>sy_pc := Done\<rparr>)"
    using e t by (simp add: command_inv_def err_ok_def delete_sel)
  moreover have "start_inv (?d\<lparr>sy_pc := Done\<rparr>)"
    using st t quiet_informed(4) [OF q] by (simp add: start_inv_def delete_sel)
  moreover have "socket_inv (?d\<lparr>sy_pc := Done\<rparr>)"
    using w t quiet_informed(6) [OF q] quiet_socks_ok [OF q] unfolding winv_def socket_inv_def
    by (simp add: delete_sel sys_close_twice)
  ultimately show ?thesis by (simp add: winv_def)
qed

lemma winv_worker:
  assumes n: "worker_next mc s = Some s'" and w: "winv s"
  shows "winv s'"
proof (cases "sy_pc s")
  case Loop_test
  let ?p = "if cmd s < NHR_COMMAND_END then Dispatch else Exiting"
  have i: "informed s \<Longrightarrow> cmd s = NHR_COMMAND_END" using w unfolding winv_def log_inv_def by simp
  have "s' = s\<lparr>sy_pc := ?p\<rparr>"
    using n Loop_test by (simp add: worker_next_def nhr_request_get_command_def cmd_def)
  with winv_move [OF w, of ?p] Loop_test i show ?thesis by auto
next
  case Dispatch
  then have "s' = s\<lparr>sy_pc := Running (cmd s)\<rparr>"
    using n by (simp add: worker_next_def nhr_request_get_command_def cmd_def)
  moreover have "\<not> informed s" using w Dispatch unfolding winv_def log_inv_def by auto
  ultimately show ?thesis using winv_move [OF w] Dispatch by simp
next
  case (Running c)
  with winv_handler [OF w Running, of mc] n show ?thesis by (simp add: worker_next_def)
next
  case Inform
  then have "s' = s\<lparr>sy_pc := Informing (cmd s)\<rparr>"
    using n by (simp add: worker_next_def nhr_request_get_command_def cmd_def)
  moreover have "\<not> informed s" using w Inform unfolding winv_def log_inv_def by auto
  moreover have "winv (s\<lparr>sy_pc := Informing (cmd s)\<rparr>)"
    using winv_move [OF w, of "Informing (cmd s)"] Inform calculation by simp
  ultimately show ?thesis by simp
next
  case (Informing c)
  with winv_inform [OF w Informing] n show ?thesis by (simp add: worker_next_def)
next
  case Sleeping
  with winv_sleep [OF w Sleeping, of NHR_WORK_THREAD_DELAY] n show ?thesis by (simp add: worker_next_def)
next
  case Exiting
  with winv_exit [OF w Exiting] n show ?thesis by (simp add: worker_next_def)
qed (use n in \<open>simp_all add: worker_next_def\<close>)

lemma winv_store_thread:
  assumes w: "winv s" and st: "sy_start s = Thread_made"
  shows "winv ((on_req (\<lambda>r. r\<lparr>rq_work_thread := Some th\<rparr>) s)\<lparr>sy_start := Thread_stored\<rparr>)"
proof -
  let ?t = "on_req (\<lambda>r. r\<lparr>rq_work_thread := Some th\<rparr>) s"
  have t: "cmd ?t = cmd s" "err ?t = err s" "err_ok ?t = err_ok s" "socks_ok ?t = socks_ok s"
    "callbacks_set ?t = callbacks_set s" "no_socket ?t = no_socket s" "informed ?t = informed s"
    "sy_log ?t = sy_log s" "sy_pc ?t = sy_pc s" "sy_cancelled ?t = sy_cancelled s"
    "unaccounted ?t fd = unaccounted s fd" for fd
    by (simp_all add: on_req_def cmd_def err_def err_ok_def socks_ok_def callbacks_set_def no_socket_def
        informed_def unaccounted_def)
  have s: "cmd s = NHR_COMMAND_NONE" "no_socket s" "\<not> sy_cancelled s" and pc: "sy_pc s \<in> {Loop_test, Dispatch,
      Running NHR_COMMAND_NONE, Inform, Informing NHR_COMMAND_NONE, Sleeping}"
    using w st unfolding winv_def start_inv_def by auto
  have "log_inv (?t\<lparr>sy_start := Thread_stored\<rparr>)"
    using w unfolding winv_def log_inv_def by (simp add: t)
  moreover have "command_inv (?t\<lparr>sy_start := Thread_stored\<rparr>)"
    using w unfolding winv_def command_inv_def by (simp add: t)
  moreover have "start_inv (?t\<lparr>sy_start := Thread_stored\<rparr>)"
    using s pc by (simp add: start_inv_def t)
  moreover have "socket_inv (?t\<lparr>sy_start := Thread_stored\<rparr>)"
    using w unfolding winv_def socket_inv_def by (simp add: t)
  ultimately show ?thesis by (simp add: winv_def)
qed

lemma winv_start:
  assumes w: "winv s" and st: "sy_start s = Thread_stored"
  shows "winv ((set_command NHR_COMMAND_CONNECT_TO_HOST s)\<lparr>sy_start := Started\<rparr>)"
proof -
  let ?t = "set_command NHR_COMMAND_CONNECT_TO_HOST s"
  have s: "cmd s = NHR_COMMAND_NONE" "no_socket s" and pc: "sy_pc s \<in> {Loop_test, Dispatch,
      Running NHR_COMMAND_NONE, Inform, Informing NHR_COMMAND_NONE, Sleeping}"
    using w st unfolding winv_def start_inv_def by auto
  have "log_inv (?t\<lparr>sy_start := Started\<rparr>)"
    using w s pc unfolding winv_def log_inv_def by auto
  moreover have "command_inv (?t\<lparr>sy_start := Started\<rparr>)"
    using pc unfolding command_inv_def err_ok_def by auto
  moreover have "start_inv (?t\<lparr>sy_start := Started\<rparr>)" by (simp add: start_inv_def)
  moreover have "socket_inv (?t\<lparr>sy_start := Started\<rparr>)"
    using w s unfolding winv_def socket_inv_def by simp
  ultimately show ?thesis by (simp add: winv_def)
qed

lemma winv_cancel:
  assumes w: "winv s" and c: "sy_start s = Started" "\<not> informed s" "sy_pc s \<noteq> Done"
    and r: "nhr_request_cancel (Some (sy_req s)) = Some r"
  shows "winv (s\<lparr>sy_req := r, sy_cancelled := True\<rparr>)"
proof -
  let ?t = "s\<lparr>sy_req := r, sy_cancelled := True\<rparr>"
  have "r = (sy_req s)\<lparr>rq_command := NHR_COMMAND_END\<rparr>"
    using r by (simp add: nhr_request_cancel_def nhr_request_set_command_def split: if_splits)
  then have t: "cmd ?t = NHR_COMMAND_END" "err ?t = err s" "socks_ok ?t = socks_ok s"
    "no_socket ?t = no_socket s" "informed ?t = informed s" "unaccounted ?t fd = unaccounted s fd" for fd
    by (simp_all add: cmd_def err_def socks_ok_def no_socket_def informed_def unaccounted_def)
  have "log_inv ?t" using w c t unfolding winv_def log_inv_def by simp
  moreover have "command_inv ?t" using w t unfolding winv_def command_inv_def err_ok_def by simp
  moreover have "start_inv ?t" using c(1) by (simp add: start_inv_def)
  moreover have "socket_inv ?t" using w c t unfolding winv_def socket_inv_def by simp
  ultimately show ?thesis by (simp add: winv_def)
qed

inductive_cases sys_stepE: "sys_step mc s s'"

lemma winv_step:
  assumes w: "winv s" and s: "sys_step mc s s'"
  shows "winv s'"
  using s
proof cases
  case worker
  with winv_worker w show ?thesis by blast
next
  case store_thread
  with winv_store_thread w show ?thesis by simp
next
  case start
  with winv_start w show ?thesis by simp
next
  case cancel
  with winv_cancel w show ?thesis by simp
qed

interpretation worker: step_system "\<lambda>s. sys_init s \<and> socks_ok s" "sys_step mc" winv for mc
  by unfold_locales (auto intro: winv_init winv_step)

lemma worker_keeps:
  assumes n: "worker_next mc s = Some s'" and w: "winv s"
  shows "callbacks_set s' = callbacks_set s \<and> sy_cancelled s' = sy_cancelled s"
proof (cases "sy_pc s")
  case (Running c)
  show ?thesis
  proof (cases "run_handler mc c s")
    case (Inl f)
    with n Running show ?thesis by (auto simp: worker_next_def)
  next
    case (Inr t)
    have "quiet s t"
      using handler_out(1) [OF Inr] w Running unfolding winv_def socket_inv_def command_inv_def by auto
    with n Running Inr quiet_informed(3,5) show ?thesis by (auto simp: worker_next_def)
  qed
next
  case (Informing c)
  have "callbacks_set (run_inform c s) = callbacks_set s" "sy_cancelled (run_inform c s) = sy_cancelled s"
    by (cases c; simp add: run_inform_def Let_def callbacks_set_def set_command_def on_req_def
        emit_def nhr_request_set_command_def)+
  with n Informing show ?thesis by (auto simp: worker_next_def)
next
  case Exiting
  then have s': "s' = (nhr_request_delete (sys_close (on_req (\<lambda>r. r\<lparr>rq_work_thread := None\<rparr>) s)))\<lparr>sy_pc := Done\<rparr>"
    using n by (simp add: worker_next_def)
  have "callbacks_set (on_req (\<lambda>r. r\<lparr>rq_work_thread := None\<rparr>) s) = callbacks_set s"
    "sy_cancelled (on_req (\<lambda>r. r\<lparr>rq_work_thread := None\<rparr>) s) = sy_cancelled s"
    by (simp_all add: callbacks_set_def on_req_def)
  then show ?thesis by (simp add: s' delete_sel quiet_informed(3,5) [OF quiet_sys_close])
qed (use n in \<open>auto simp: worker_next_def callbacks_set_def emit_def\<close>)

lemma callbacks_kept:
  assumes w: "winv s" and s: "sys_step mc s s'"
  shows "callbacks_set s' = callbacks_set s"
  using s
proof cases
  case worker
  with worker_keeps w show ?thesis by blast
next
  case cancel
  then show ?thesis
    by (auto simp: callbacks_set_def nhr_request_cancel_def nhr_request_set_command_def split: if_splits)
qed (simp_all add: callbacks_set_def on_req_def set_command_def nhr_request_set_command_def)

interpretation informing: step_system "\<lambda>s. sys_init s \<and> socks_ok s \<and> callbacks_set s" "sys_step mc"
    "\<lambda>s. winv s \<and> callbacks_set s" for mc
  by unfold_locales (auto intro: winv_init winv_step simp: callbacks_kept)

section \<open>A thread that is done\<close>

lemma done_informs:
  assumes "winv t" "callbacks_set t" "sy_pc t = Done" "\<not> sy_cancelled t"
  shows "length (filter callback_event (sy_log t)) = 1"
proof -
  have w: "log_inv t" using assms(1) by (simp add: winv_def)
  then have "informed t" using assms(2-4) by (auto simp: log_inv_def)
  then have "filter callback_event (sy_log t) \<noteq> []" by (auto simp: informed_iff filter_empty_conv)
  moreover obtain q cb u del where l: "sy_log t = q @ cb @ u @ del" "log_shape q cb u del"
    using w by (auto simp: log_inv_def log_ok_def)
  have "filter callback_event q = []" "filter callback_event u = []" "filter callback_event del = []"
    using l(2) wind_up_quiet by (auto simp: log_shape_def filter_empty_conv list_all_iff quiet_event_iff)
  then have "length (filter callback_event (sy_log t)) \<le> 1"
    using l order_trans [OF length_filter_le [of callback_event cb]] by (simp add: log_shape_def)
  ultimately show ?thesis by (cases "filter callback_event (sy_log t)") auto
qed

lemma done_closed:
  assumes "winv t" "sy_pc t = Done"
  shows "(\<Sum>e \<leftarrow> sy_log t. opens fd e) = 0"
proof -
  have "unaccounted t fd = 0" "no_socket t" using assms by (simp_all add: winv_def socket_inv_def)
  then show ?thesis by (auto simp: unaccounted_def no_socket_def split: if_splits)
qed

lemma done_deleted:
  assumes "winv t" "sy_pc t = Done"
  shows "last (sy_log t) = Ev_deleted"
proof -
  have d: "Ev_deleted \<in> set (sy_log t)" and "log_ok (sy_log t)" using assms by (simp_all add: winv_def log_inv_def)
  then obtain q cb w del where l: "sy_log t = q @ cb @ w @ del" "log_shape q cb w del" by (auto simp: log_ok_def)
  then have "del = [Ev_deleted]" using d by (auto simp: log_shape_def list_all_iff)
  with l(1) show ?thesis by simp
qed

section \<open>The guarantees\<close>

text \<open>
  C6: in every interleaving of the worker with its client the log is work, then at most one
  callback, then only sleeping and closing, then the deletion of the request: no callback comes
  twice, none after the deletion, and the deletion is there exactly when the thread is done.
  An error callback carries an error code.
\<close>

theorem one_callback_then_delete:
  assumes "sys_init s" "socks_ok s" "(sys_step mc)\<^sup>*\<^sup>* s t"
  shows "\<exists>q cb w del. sy_log t = q @ cb @ w @ del
     \<and> list_all quiet_event q
     \<and> (cb = [] \<or> (\<exists>rs. cb = [Ev_response rs]) \<or> (\<exists>e. cb = [Ev_error e] \<and> e \<noteq> nhr_error_code_none))
     \<and> list_all wind_up w \<and> (del = [] \<or> del = [Ev_deleted])
     \<and> (sy_pc t = Done \<longleftrightarrow> del \<noteq> [])"
proof -
  have w: "log_inv t" using worker.reachable_inv [of s mc t] assms by (simp add: winv_def)
  then obtain q cb w del where l: "sy_log t = q @ cb @ w @ del" "log_shape q cb w del"
    by (auto simp: log_inv_def log_ok_def)
  have cb: "cb = [] \<or> (\<exists>rs. cb = [Ev_response rs]) \<or> (\<exists>e. cb = [Ev_error e] \<and> e \<noteq> nhr_error_code_none)"
  proof (cases cb)
    case (Cons e es)
    with l(2) have "es = []" "callback_event e" "coded e" by (auto simp: log_shape_def)
    then show ?thesis using Cons by (cases e) auto
  qed simp
  have "Ev_deleted \<notin> set (q @ cb @ w)" using l(2) by (auto simp: log_shape_def list_all_iff)
  then have "sy_pc t = Done \<longleftrightarrow> del \<noteq> []"
    using w l by (auto simp: log_inv_def log_shape_def)
  with l cb show ?thesis unfolding log_shape_def by blast
qed

text \<open>
  C12: no socket is lost in any interleaving: what was opened and not closed is the socket the
  request holds, and when the thread is done every socket has been closed.
\<close>

theorem every_socket_closed:
  assumes "sys_init s" "socks_ok s" "(sys_step mc)\<^sup>*\<^sup>* s t"
  shows "(\<Sum>e \<leftarrow> sy_log t. opens fd e) =
      (if rq_socket (sy_req t) = fd \<and> fd \<noteq> NHR_INVALID_SOCKET then 1 else 0)
    \<and> (sy_pc t = Done \<longrightarrow> (\<Sum>e \<leftarrow> sy_log t. opens fd e) = 0)"
proof -
  have w: "socket_inv t" using worker.reachable_inv [of s mc t] assms by (simp add: winv_def)
  then have one: "(\<Sum>e \<leftarrow> sy_log t. opens fd e) =
      (if rq_socket (sy_req t) = fd \<and> fd \<noteq> NHR_INVALID_SOCKET then 1 else 0)"
  proof -
    have "unaccounted t fd = 0" using w by (simp add: socket_inv_def)
    then show ?thesis unfolding unaccounted_def by linarith
  qed
  moreover have "sy_pc t = Done \<longrightarrow> (\<Sum>e \<leftarrow> sy_log t. opens fd e) = 0"
    using w one by (auto simp: socket_inv_def no_socket_def)
  ultimately show ?thesis by blast
qed

text \<open>
  C13: when the thread of a request with both callbacks is done, exactly one of them has been
  made, unless the client cancelled.
\<close>

theorem done_informs_once:
  assumes "sys_init s" "socks_ok s" "callbacks_set s" "(sys_step mc)\<^sup>*\<^sup>* s t"
    and "sy_pc t = Done" "\<not> sy_cancelled t"
  shows "length (filter callback_event (sy_log t)) = 1"
proof -
  have "winv t" "callbacks_set t" using informing.reachable_inv [of s mc t] assms(1-4) by simp_all
  then show ?thesis by (rule done_informs [OF _ _ assms(5,6)])
qed

end
