(* ===== verification/Nhr_Worker_Runs.thy ===== *)
theory Nhr_Worker_Runs
  imports Nhr_Worker_Safety
begin

text \<open>
  What the worker thread achieves: whole runs, from the command to connect to the deletion of the
  request, for given answers of the operating system. A request to a host that answers ends
  with its response, whatever packets it comes in; a host that stays silent ends with the
  timeout; and the error paths of the handlers, among them those that lose something.
\<close>

section \<open>Runs of the worker\<close>

definition works :: "'z gz_mach \<Rightarrow> sys \<Rightarrow> sys \<Rightarrow> bool" where
  "works mc s s' \<longleftrightarrow> worker_next mc s = Some s'"

lemma works_steps: "(works mc)\<^sup>*\<^sup>* s t \<Longrightarrow> (sys_step mc)\<^sup>*\<^sup>* s t"
  by (rule mono_rtranclp [rule_format]) (auto simp: works_def intro: sys_step.worker)

definition within :: "int list \<Rightarrow> int \<Rightarrow> bool" where
  \<comment> \<open>any two of these readings of the clock lie less than the timeout apart\<close>
  "within ts d \<longleftrightarrow> (\<forall>t \<in> set ts. \<forall>t' \<in> set ts. t' - t < d)"

lemma withinD: "within ts d \<Longrightarrow> t \<in> set ts \<Longrightarrow> t' \<in> set ts \<Longrightarrow> t' - t < d"
  by (simp add: within_def)

text \<open>One turn of the loop, for a command that is not the end.\<close>

lemma turn:
  assumes "sy_pc s = Loop_test" "cmd s \<noteq> NHR_COMMAND_END"
    and "run_handler mc (cmd s) (s\<lparr>sy_pc := Running (cmd s)\<rparr>) = Inr s1"
  shows "(works mc)\<^sup>*\<^sup>* s
    ((emit (nhr_thread_sleep NHR_WORK_THREAD_DELAY) ((run_inform (cmd s1) (s1\<lparr>sy_pc := Informing (cmd s1)\<rparr>))\<lparr>sy_pc := Sleeping\<rparr>))
       \<lparr>sy_pc := Loop_test\<rparr>)"
proof -
  have 1: "works mc s (s\<lparr>sy_pc := Dispatch\<rparr>)"
    using assms(1,2) by (simp add: works_def worker_next_def nhr_request_get_command_def cmd_def)
  have 2: "works mc (s\<lparr>sy_pc := Dispatch\<rparr>) (s\<lparr>sy_pc := Running (cmd s)\<rparr>)"
    by (simp add: works_def worker_next_def nhr_request_get_command_def cmd_def)
  have 3: "works mc (s\<lparr>sy_pc := Running (cmd s)\<rparr>) (s1\<lparr>sy_pc := Inform\<rparr>)"
    using assms(3) by (simp add: works_def worker_next_def)
  have 4: "works mc (s1\<lparr>sy_pc := Inform\<rparr>) (s1\<lparr>sy_pc := Informing (cmd s1)\<rparr>)"
    by (simp add: works_def worker_next_def nhr_request_get_command_def cmd_def)
  have 5: "works mc (s1\<lparr>sy_pc := Informing (cmd s1)\<rparr>)
      ((run_inform (cmd s1) (s1\<lparr>sy_pc := Informing (cmd s1)\<rparr>))\<lparr>sy_pc := Sleeping\<rparr>)"
    by (simp add: works_def worker_next_def)
  have 6: "works mc ((run_inform (cmd s1) (s1\<lparr>sy_pc := Informing (cmd s1)\<rparr>))\<lparr>sy_pc := Sleeping\<rparr>)
    ((emit (nhr_thread_sleep NHR_WORK_THREAD_DELAY) ((run_inform (cmd s1) (s1\<lparr>sy_pc := Informing (cmd s1)\<rparr>))\<lparr>sy_pc := Sleeping\<rparr>))
       \<lparr>sy_pc := Loop_test\<rparr>)"
    by (simp add: works_def worker_next_def)
  show ?thesis using 1 2 3 4 5 6 by (meson converse_rtranclp_into_rtranclp rtranclp.rtrancl_refl)
qed

lemma turn_working:
  \<comment> \<open>a turn that ends without a callback\<close>
  assumes "sy_pc s = Loop_test" "cmd s \<noteq> NHR_COMMAND_END"
    and "run_handler mc (cmd s) (s\<lparr>sy_pc := Running (cmd s)\<rparr>) = Inr s1"
    and "cmd s1 \<notin> {NHR_COMMAND_INFORM_RESPONSE, NHR_COMMAND_INFORM_ERROR}"
  shows "(works mc)\<^sup>*\<^sup>* s (s1\<lparr>sy_log := sy_log s1 @ [nhr_thread_sleep NHR_WORK_THREAD_DELAY], sy_pc := Loop_test\<rparr>)"
proof -
  have "run_inform (cmd s1) t = t" for t
    using assms(4) by (simp add: run_inform_def split: nhr_command.split)
  with turn [OF assms(1-3)] show ?thesis by (simp add: emit_def)
qed

lemma run_out:
  \<comment> \<open>the last turn: behind the loop the socket is closed and the request deleted\<close>
  assumes "sy_pc s = Loop_test" "cmd s = NHR_COMMAND_END"
  shows "\<exists>t. (works mc)\<^sup>*\<^sup>* s t \<and> sy_pc t = Done
    \<and> sy_log t = sy_log s @ (if no_socket s then [] else [Ev_close (rq_socket (sy_req s))]) @ [Ev_deleted]"
proof -
  let ?t = "(nhr_request_delete (sys_close (on_req (\<lambda>r. r\<lparr>rq_work_thread := None\<rparr>) (s\<lparr>sy_pc := Exiting\<rparr>))))\<lparr>sy_pc := Done\<rparr>"
  have 1: "works mc s (s\<lparr>sy_pc := Exiting\<rparr>)"
    using assms by (simp add: works_def worker_next_def nhr_request_get_command_def cmd_def)
  have 2: "works mc (s\<lparr>sy_pc := Exiting\<rparr>) ?t" by (simp add: works_def worker_next_def)
  have "sy_log ?t = sy_log s @ (if no_socket s then [] else [Ev_close (rq_socket (sy_req s))]) @ [Ev_deleted]"
    by (simp add: delete_sel sys_close_twice) (simp add: sys_close_def on_req_def emit_def no_socket_def)
  moreover have "sy_pc ?t = Done" by simp
  ultimately show ?thesis using 1 2 by (meson converse_rtranclp_into_rtranclp rtranclp.rtrancl_refl)
qed

lemma turn_ending:
  \<comment> \<open>a turn that ends with a callback is the last\<close>
  assumes "sy_pc s = Loop_test" "cmd s \<noteq> NHR_COMMAND_END"
    and "run_handler mc (cmd s) (s\<lparr>sy_pc := Running (cmd s)\<rparr>) = Inr s1"
    and "cmd s1 = NHR_COMMAND_INFORM_RESPONSE \<and> ev = Ev_response (rq_response (sy_req s1))
       \<or> cmd s1 = NHR_COMMAND_INFORM_ERROR \<and> ev = Ev_error (err s1)"
    and "callbacks_set s1"
  shows "\<exists>t. (works mc)\<^sup>*\<^sup>* s t \<and> sy_pc t = Done
    \<and> sy_log t = sy_log s1 @ [ev, nhr_thread_sleep NHR_WORK_THREAD_DELAY]
        @ (if no_socket s1 then [] else [Ev_close (rq_socket (sy_req s1))]) @ [Ev_deleted]"
proof -
  let ?u = "s1\<lparr>sy_req := (sy_req s1)\<lparr>rq_command := NHR_COMMAND_END\<rparr>, sy_pc := Loop_test,
    sy_log := sy_log s1 @ [ev, nhr_thread_sleep NHR_WORK_THREAD_DELAY]\<rparr>"
  have "(emit (nhr_thread_sleep NHR_WORK_THREAD_DELAY)
      ((run_inform (cmd s1) (s1\<lparr>sy_pc := Informing (cmd s1)\<rparr>))\<lparr>sy_pc := Sleeping\<rparr>))\<lparr>sy_pc := Loop_test\<rparr> = ?u"
    using assms(4,5)
    by (auto simp: run_inform_def set_command_def on_req_def nhr_request_set_command_def emit_def
        callbacks_set_def err_def)
  with turn [OF assms(1-3)] have "(works mc)\<^sup>*\<^sup>* s ?u" by simp
  moreover obtain t where "(works mc)\<^sup>*\<^sup>* ?u t" "sy_pc t = Done"
      "sy_log t = sy_log ?u @ (if no_socket ?u then [] else [Ev_close (rq_socket (sy_req ?u))]) @ [Ev_deleted]"
    using run_out [of ?u mc] by (auto simp: cmd_def)
  ultimately show ?thesis
    by (intro exI [of _ t]) (auto simp: no_socket_def)
qed

section \<open>The handlers when the peer answers\<close>

lemma print_port: "\<exists>ps. local_print 12 (dec_digits (unat (rq_port r))) = Inr ps"
proof -
  have "unat (rq_port r) < 2 ^ 16" using unsigned_less [of "rq_port r"] by simp
  then have "unat (rq_port r) < 10 ^ Suc 4" by simp
  from length_dec_digits [OF this] show ?thesis by (simp add: local_print_def)
qed

lemma attempts:
  "NHR_CONNECT_ATTEMPS - 1 = Suc (Suc (Suc (Suc 0)))" "NHR_CONNECT_ATTEMPS - Suc 0 = Suc (Suc (Suc (Suc 0)))"
  by (simp_all add: NHR_CONNECT_ATTEMPS_def)

lemma getaddr_info: "nhr_request_connect_getaddr_info s = getaddr_loop (Suc (Suc (Suc (Suc 0)))) s"
  using print_port [of "sy_req s"]
  by (auto simp: nhr_request_connect_getaddr_info_def attempts)

lemma touch_eq:
  "sy_clock s = t # ts \<Longrightarrow> touch s = Inr (s\<lparr>sy_req := (sy_req s)\<lparr>rq_last_time := t\<rparr>, sy_clock := ts\<rparr>)"
  by (simp add: touch_def nhr_time_def on_req_def)

lemma check_in_time:
  "sy_clock s = t # ts \<Longrightarrow> t - rq_last_time (sy_req s) < rq_timeout (sy_req s) \<Longrightarrow>
     nhr_request_check_timeout s = Inr (True, s\<lparr>sy_clock := ts\<rparr>)"
  by (simp add: nhr_request_check_timeout_def nhr_time_def)

lemma check_late:
  "sy_clock s = t # ts \<Longrightarrow> \<not> t - rq_last_time (sy_req s) < rq_timeout (sy_req s) \<Longrightarrow>
     nhr_request_check_timeout s = Inr (False, s\<lparr>
       sy_req := (sy_req s)\<lparr>rq_error_code := nhr_error_code_timeout, rq_command := NHR_COMMAND_INFORM_ERROR\<rparr>,
       sy_clock := ts\<rparr>)"
  by (simp add: nhr_request_check_timeout_def nhr_time_def set_error_def set_command_def on_req_def
      nhr_request_set_command_def)

lemma getaddr_found:
  "sy_addr s = Addr_list (p # ps) # as \<Longrightarrow>
     getaddr_loop (Suc n) s = Inr (p # ps, s\<lparr>sy_addr := as, sy_log := sy_log s @ [Ev_addrinfo]\<rparr>)"
  by (simp add: emit_def)

lemma connect_found:
  "sy_clock s = t # ts \<Longrightarrow> sy_sock s = Sock fd # ss \<Longrightarrow> fd \<noteq> NHR_INVALID_SOCKET \<Longrightarrow> sy_conn s = Conn_ok # cs \<Longrightarrow>
     connect_tries (Suc n) (p # ps) NHR_INVALID_SOCKET s = Inr (True, s\<lparr>
       sy_req := (sy_req s)\<lparr>rq_last_time := t, rq_socket := fd\<rparr>, sy_clock := ts, sy_sock := ss, sy_conn := cs,
       sy_opts := drop 3 (sy_opts s), sy_errno := errno_after (take 3 (sy_opts s)) (sy_errno s),
       sy_log := sy_log s @ [Ev_socket fd, Ev_option fd SO_ERROR 1, Ev_option fd SO_KEEPALIVE 1, Ev_connected fd p, Ev_nonblock fd]\<rparr>)"
  by (cases n) (simp_all add: touch_eq nhr_socket_def try_connect_eq emit_def on_req_def Let_def)

lemma connect_succeeds:
  assumes "sy_clock s = t0 # t1 # t2 # ts" "t1 - t0 < rq_timeout (sy_req s)"
    and "sy_addr s = Addr_list (p # ps) # as" "sy_sock s = Sock fd # ss" "fd \<noteq> NHR_INVALID_SOCKET"
    and "sy_conn s = Conn_ok # cs"
  shows "nhr_request_connect_to_host s = Inr (s\<lparr>
      sy_req := (sy_req s)\<lparr>rq_last_time := t2, rq_socket := fd, rq_command := NHR_COMMAND_SEND_RAW_REQUEST\<rparr>,
      sy_clock := ts, sy_addr := as, sy_sock := ss, sy_conn := cs,
      sy_opts := drop 3 (sy_opts s), sy_errno := errno_after (take 3 (sy_opts s)) (sy_errno s),
      sy_log := sy_log s @ [Ev_addrinfo, Ev_socket fd, Ev_option fd SO_ERROR 1, Ev_option fd SO_KEEPALIVE 1, Ev_connected fd p, Ev_nonblock fd, Ev_freeaddrinfo]\<rparr>)"
  using assms
  by (simp add: nhr_request_connect_to_host_def getaddr_info attempts touch_eq getaddr_found check_in_time
      connect_found emit_def set_command_def on_req_def nhr_request_set_command_def Let_def
      del: getaddr_loop.simps connect_tries.simps)

lemma send_succeeds:
  assumes "create_header mc (sy_req s) = Inr ((Some blk, n), r)" "n \<le> length blk" "0 < n"
    and "sy_send s = Sent n # ss"
  shows "nhr_request_send_raw_request mc s = Inr (s\<lparr>
      sy_req := r\<lparr>rq_error_code := nhr_error_code_none, rq_command := NHR_COMMAND_START_WAITING_RAW_RESPONSE\<rparr>,
      sy_send := ss, sy_log := sy_log s @ [Ev_sent (take n blk)]\<rparr>)"
  using assms
  by (simp add: send_raw_request_eq nhr_request_send_buffer_def blk_read_def mem_read_def on_req_def emit_def
      set_command_def nhr_request_set_command_def Let_def)

lemma waiting_starts:
  assumes "sy_clock s = t # ts"
  shows "nhr_request_start_waiting_raw_response s = Inr (s\<lparr>
      sy_req := (sy_req s)\<lparr>rq_last_time := t, rq_command := NHR_COMMAND_WAIT_RAW_RESPONSE\<rparr>, sy_clock := ts\<rparr>)"
  using assms
  by (simp add: nhr_request_start_waiting_raw_response_def touch_def nhr_time_def on_req_def
      set_command_def nhr_request_set_command_def)

text \<open>The packets of one turn, each with what it leaves of the receive buffer behind it.\<close>

fun stale_packets :: "bytes \<Rightarrow> bytes list \<Rightarrow> (bytes \<times> bytes) list" where
  "stale_packets buff [] = []"
| "stale_packets buff (d # ds) = (d, drop (length d) buff) # stale_packets (d @ drop (length d) buff) ds"

lemma map_fst_stale_packets [simp]: "map fst (stale_packets buff ds) = ds"
  by (induction buff ds rule: stale_packets.induct) simp_all

lemma recv_packets:
  assumes "rq_response (sy_req s) = Some rs" "sy_clock s = ts @ later" "length ts = length pks"
    and "append_packets mc rs (stale_packets buff pks) = Inr rs'"
  shows "recv_loop mc (map Recv_data pks @ Recv_fail e # rest) buff s
     = Inr (s\<lparr>sy_req := (sy_req s)\<lparr>rq_last_time := last (rq_last_time (sy_req s) # ts), rq_response := Some rs'\<rparr>,
              sy_errno := e, sy_clock := later, sy_recv := rest\<rparr>)"
  using assms
proof (induction pks arbitrary: rs s ts buff)
  case Nil
  have "(sy_req s)\<lparr>rq_last_time := rq_last_time (sy_req s), rq_response := rq_response (sy_req s)\<rparr> = sy_req s"
    by (cases "sy_req s") simp
  with Nil have "s = s\<lparr>sy_req := (sy_req s)\<lparr>rq_last_time := rq_last_time (sy_req s), rq_response := Some rs'\<rparr>, sy_clock := later\<rparr>"
    by (cases s) simp
  then have "recv_loop mc (Recv_fail e # rest) buff s = Inr (s\<lparr>sy_req := (sy_req s)\<lparr>
      rq_last_time := rq_last_time (sy_req s), rq_response := Some rs'\<rparr>, sy_errno := e, sy_clock := later, sy_recv := rest\<rparr>)"
    by (cases s) simp
  with Nil(3) show ?case by simp
next
  case (Cons d pks)
  from Cons.prems(3) obtain t ts' where ts: "ts = t # ts'" by (cases ts) auto
  let ?b = "d @ drop (length d) buff"
  obtain rs1 where rs1: "nhr_response_append mc rs ?b (of_nat (length d)) = Inr rs1"
      "append_packets mc rs1 (stale_packets ?b pks) = Inr rs'"
    using Cons.prems(4) by (auto simp: r_bind_Inr_conv)
  let ?s = "s\<lparr>sy_req := (sy_req s)\<lparr>rq_last_time := t, rq_response := Some rs1\<rparr>, sy_clock := ts' @ later\<rparr>"
  have "recv_loop mc (map Recv_data (d # pks) @ Recv_fail e # rest) buff s
      = recv_loop mc (map Recv_data pks @ Recv_fail e # rest) ?b ?s"
    using Cons.prems(1,2) ts rs1(1) by (cases s) (simp add: touch_def nhr_time_def on_req_def Let_def)
  with Cons.IH [of ?s rs1 ts' ?b] Cons.prems(3) ts rs1(2) show ?case by simp
qed

definition answer :: "'z gz_mach \<Rightarrow> bytes \<Rightarrow> bytes \<Rightarrow> bytes list \<Rightarrow> nhr_response \<Rightarrow> bool" where
  \<comment> \<open>what the packets make of the buffer is a finished response\<close>
  "answer mc buff first pks rs \<longleftrightarrow> rs_is_finished rs
     \<and> r_bind (nhr_response_create mc (first @ drop (length first) buff) (of_nat (length first)))
         (\<lambda>r. append_packets mc r (stale_packets (first @ drop (length first) buff) pks)) = Inr rs"

lemma recv_answered:
  assumes none: "rq_response (sy_req s) = None" and ck: "sy_clock s = ts @ later" "length ts = Suc (length pks)"
    and an: "answer mc buff first pks rs"
  shows "recv_loop mc (map Recv_data (first # pks) @ Recv_fail e # rest) buff s
     = Inr (s\<lparr>sy_req := (sy_req s)\<lparr>rq_last_time := last ts, rq_response := Some rs\<rparr>,
              sy_errno := e, sy_clock := later, sy_recv := rest\<rparr>)"
proof -
  obtain t0 ts' where ts: "ts = t0 # ts'" using ck(2) by (cases ts) auto
  let ?rc = "first @ drop (length first) buff" and ?rl = "of_nat (length first) :: size_t"
  obtain rs0 where rs0: "nhr_response_create mc ?rc ?rl = Inr rs0"
      "append_packets mc rs0 (stale_packets ?rc pks) = Inr rs"
    using an by (auto simp: answer_def r_bind_Inr_conv)
  let ?u = "s\<lparr>sy_req := (sy_req s)\<lparr>rq_last_time := t0, rq_response := Some rs0\<rparr>, sy_clock := ts' @ later\<rparr>"
  have "recv_loop mc (map Recv_data (first # pks) @ Recv_fail e # rest) buff s
      = recv_loop mc (map Recv_data pks @ Recv_fail e # rest) ?rc ?u"
    using none ck(1) ts rs0(1) by (cases s) (simp add: touch_eq on_req_def Let_def)
  also have "\<dots> = Inr (?u\<lparr>sy_req := (sy_req ?u)\<lparr>rq_last_time := last ts, rq_response := Some rs\<rparr>,
              sy_errno := e, sy_clock := later, sy_recv := rest\<rparr>)"
    using recv_packets [of ?u rs0 ts' later pks mc ?rc rs e rest] rs0(2) ts ck(2) by simp
  finally show ?thesis by simp
qed

lemma response_arrives:
  assumes none: "rq_response (sy_req s) = None" and bs: "sy_buffs s = buff # bs"
    and rv: "sy_recv s = map Recv_data (first # pks) @ Recv_fail EAGAIN # rest"
    and ck: "sy_clock s = ts @ t # later" "length ts = Suc (length pks)" "t - last ts < rq_timeout (sy_req s)"
    and an: "answer mc buff first pks rs"
  shows "nhr_request_wait_raw_response mc s = Inr (s\<lparr>
      sy_req := (sy_req s)\<lparr>rq_last_time := last ts, rq_response := Some rs, rq_command := NHR_COMMAND_INFORM_RESPONSE\<rparr>,
      sy_errno := EAGAIN, sy_clock := later, sy_buffs := bs, sy_recv := rest\<rparr>)"
proof -
  have "recv_loop mc (sy_recv s) buff (s\<lparr>sy_buffs := bs\<rparr>) = Inr (s\<lparr>sy_buffs := bs,
      sy_req := (sy_req s)\<lparr>rq_last_time := last ts, rq_response := Some rs\<rparr>,
      sy_errno := EAGAIN, sy_clock := t # later, sy_recv := rest\<rparr>)"
    using recv_answered [of "s\<lparr>sy_buffs := bs\<rparr>" ts "t # later" pks mc buff first rs EAGAIN rest] none rv ck(1,2) an
    by simp
  then have "nhr_request_recv mc s = Inr (True, s\<lparr>sy_buffs := bs,
      sy_req := (sy_req s)\<lparr>rq_last_time := last ts, rq_response := Some rs\<rparr>,
      sy_errno := EAGAIN, sy_clock := t # later, sy_recv := rest\<rparr>)"
    using bs by (simp add: nhr_request_recv_def)
  moreover have "rs_is_finished rs" using an by (simp add: answer_def)
  ultimately show ?thesis
    using ck(3)
    by (cases s) (simp add: nhr_request_wait_raw_response_def Let_def set_command_def on_req_def
        nhr_request_set_command_def check_in_time)
qed

text \<open>A response with a content length is such an answer, however it is cut.\<close>

lemma plain_answer:
  assumes pr: "plain_response ver code h1 n h2 (first @ drop (length first) buff)"
    and first: "first = plain_head ver code h1 n h2 @ k_nhr_double_CRLF @ body"
    and sz: "length (first @ drop (length first) buff) < 2 ^ 64" "n + 32 \<le> body_limit mc"
      "\<forall>d \<in> set (body # pks). n + length d \<le> body_limit mc" "sizeof_response \<le> mc_limit mc"
    and all: "n \<le> length (body @ concat pks)"
  shows "\<exists>rs. answer mc buff first pks rs \<and> rs_status_code rs = of_nat code \<and> resp_content rs = take n (body @ concat pks)"
proof -
  let ?rc = "first @ drop (length first) buff"
  have len: "(of_nat (length first) :: size_t) = of_nat (length (plain_head ver code h1 n h2) + 4 + length body)"
    using first by (simp add: ac_simps)
  have "fst ` set (stale_packets ?rc pks) = set pks"
    using map_fst_stale_packets [of ?rc pks] by (metis set_map)
  then have "\<forall>p \<in> set (stale_packets ?rc pks). n + length (fst p) \<le> body_limit mc" using sz(3) by auto
  then show ?thesis
    using packets_reassembled [OF pr _ len, of "drop (length first) buff" mc "stale_packets ?rc pks"] first sz all
    by (auto simp: answer_def)
qed

section \<open>A request that is answered\<close>

definition host_answers :: "sys \<Rightarrow> nat \<Rightarrow> int \<Rightarrow> nat \<Rightarrow> bytes list \<Rightarrow> bool" where
  \<comment> \<open>the first address accepts, the message is taken whole, the packets come in one go and
    the clock stays within the timeout\<close>
  "host_answers s p fd n pks \<longleftrightarrow>
     (\<exists>ps as. sy_addr s = Addr_list (p # ps) # as) \<and> (\<exists>ss. sy_sock s = Sock fd # ss)
     \<and> fd \<noteq> NHR_INVALID_SOCKET \<and> (\<exists>cs. sy_conn s = Conn_ok # cs) \<and> (\<exists>ss. sy_send s = Sent n # ss)
     \<and> (\<exists>rs. sy_recv s = map Recv_data pks @ Recv_fail EAGAIN # rs)
     \<and> (\<exists>ts later. sy_clock s = ts @ later \<and> length ts = length pks + 5 \<and> within ts (rq_timeout (sy_req s)))"

definition connecting :: "sys \<Rightarrow> bool" where
  \<comment> \<open>nhr_request_send has returned, the worker is about to look at its first command\<close>
  "connecting s \<longleftrightarrow> sy_pc s = Loop_test \<and> sy_start s = Started \<and> cmd s = NHR_COMMAND_CONNECT_TO_HOST
     \<and> no_socket s \<and> callbacks_set s \<and> rq_response (sy_req s) = None"

definition exchange_log :: "nat \<Rightarrow> int \<Rightarrow> bytes \<Rightarrow> nhr_response \<Rightarrow> event list" where
  "exchange_log p fd msg rs =
     [Ev_addrinfo, Ev_socket fd, Ev_option fd SO_ERROR 1, Ev_option fd SO_KEEPALIVE 1, Ev_connected fd p, Ev_nonblock fd, Ev_freeaddrinfo, nhr_thread_sleep NHR_WORK_THREAD_DELAY,
      Ev_sent msg, nhr_thread_sleep NHR_WORK_THREAD_DELAY, nhr_thread_sleep NHR_WORK_THREAD_DELAY,
      Ev_response (Some rs), nhr_thread_sleep NHR_WORK_THREAD_DELAY, Ev_close fd, Ev_deleted]"

lemma clock_split:
  assumes "length ts = k + 5"
  obtains t0 t1 t2 t3 us u where "ts = t0 # t1 # t2 # t3 # us @ [u]" "length us = k"
proof -
  from assms obtain t0 t1 t2 t3 vs where "ts = t0 # t1 # t2 # t3 # vs" "length vs = Suc k"
    by (auto simp: eval_nat_numeral length_Suc_conv)
  moreover from this obtain us u where "vs = us @ [u]" by (metis length_Suc_conv_rev)
  ultimately show ?thesis using that by auto
qed

definition same_message :: "nhr_request \<Rightarrow> nhr_request \<Rightarrow> bool" where
  \<comment> \<open>the requests differ in what the worker records, not in what they send\<close>
  "same_message r q \<longleftrightarrow>
     (\<exists>fd lt c. q = r\<lparr>rq_socket := fd, rq_last_time := lt, rq_command := c\<rparr>)"

definition sends :: "'z gz_mach \<Rightarrow> nhr_request \<Rightarrow> bytes \<Rightarrow> bool" where
  "sends mc r msg \<longleftrightarrow> msg \<noteq> [] \<and> (\<forall>q. same_message r q \<longrightarrow>
     (\<exists>blk q'. create_header mc q = Inr ((Some blk, length msg), q')
       \<and> length msg \<le> length blk \<and> take (length msg) blk = msg))"

lemma exchange:
  assumes c: "connecting s" and h: "host_answers s p fd (length msg) (first # pks)"
    and bs: "sy_buffs s = buff # bs" and hd: "sends mc (sy_req s) msg"
    and an: "answer mc buff first pks rs"
  shows "\<exists>t. (works mc)\<^sup>*\<^sup>* s t \<and> sy_pc t = Done \<and> sy_log t = sy_log s @ exchange_log p fd msg rs"
proof -
  let ?D = NHR_WORK_THREAD_DELAY
  let ?O = "drop 3 (sy_opts s)" and ?E = "errno_after (take 3 (sy_opts s)) (sy_errno s)"
  obtain ts later where ck: "sy_clock s = ts @ later" "length ts = length (first # pks) + 5"
      "within ts (rq_timeout (sy_req s))" using h by (auto simp: host_answers_def)
  obtain t0 t1 t2 t3 us u where ts: "ts = t0 # t1 # t2 # t3 # us @ [u]" "length us = length (first # pks)"
    using ck(2) by (rule clock_split)
  obtain ps as ss cs sn rv where os: "sy_addr s = Addr_list (p # ps) # as" "sy_sock s = Sock fd # ss"
      "fd \<noteq> NHR_INVALID_SOCKET" "sy_conn s = Conn_ok # cs" "sy_send s = Sent (length msg) # sn"
      "sy_recv s = map Recv_data (first # pks) @ Recv_fail EAGAIN # rv"
    using h by (auto simp: host_answers_def)
  have c': "sy_pc s = Loop_test" "cmd s = NHR_COMMAND_CONNECT_TO_HOST" "callbacks_set s"
      "rq_response (sy_req s) = None" using c by (auto simp: connecting_def)
  define r1 where "r1 = (sy_req s)\<lparr>rq_last_time := t2, rq_socket := fd, rq_command := NHR_COMMAND_SEND_RAW_REQUEST\<rparr>"
  define s1 where "s1 = s\<lparr>sy_pc := Loop_test, sy_req := r1, sy_clock := t3 # us @ u # later, sy_addr := as,
    sy_sock := ss, sy_conn := cs, sy_opts := ?O, sy_errno := ?E,
    sy_log := sy_log s @ [Ev_addrinfo, Ev_socket fd, Ev_option fd SO_ERROR 1, Ev_option fd SO_KEEPALIVE 1, Ev_connected fd p, Ev_nonblock fd, Ev_freeaddrinfo, nhr_thread_sleep ?D]\<rparr>"
  have "t1 - t0 < rq_timeout (sy_req s)" using ck(3) ts by (auto intro: withinD)
  then have "nhr_request_connect_to_host (s\<lparr>sy_pc := Running (cmd s)\<rparr>) = Inr (s\<lparr>sy_pc := Running (cmd s), sy_req := r1,
      sy_clock := t3 # us @ u # later, sy_addr := as, sy_sock := ss, sy_conn := cs, sy_opts := ?O, sy_errno := ?E,
      sy_log := sy_log s @ [Ev_addrinfo, Ev_socket fd, Ev_option fd SO_ERROR 1, Ev_option fd SO_KEEPALIVE 1, Ev_connected fd p, Ev_nonblock fd, Ev_freeaddrinfo]\<rparr>)"
    unfolding r1_def using ck(1) ts os
    by (subst connect_succeeds [of _ t0 t1 t2 "t3 # us @ u # later" p ps as fd ss cs]) (cases s, simp)+
  then have "run_handler mc (cmd s) (s\<lparr>sy_pc := Running (cmd s)\<rparr>) = Inr (s\<lparr>sy_pc := Running (cmd s), sy_req := r1,
      sy_clock := t3 # us @ u # later, sy_addr := as, sy_sock := ss, sy_conn := cs, sy_opts := ?O, sy_errno := ?E,
      sy_log := sy_log s @ [Ev_addrinfo, Ev_socket fd, Ev_option fd SO_ERROR 1, Ev_option fd SO_KEEPALIVE 1, Ev_connected fd p, Ev_nonblock fd, Ev_freeaddrinfo]\<rparr>)"
    by (simp add: run_handler_def c')
  from turn_working [OF c'(1) _ this] c'(2) have 1: "(works mc)\<^sup>*\<^sup>* s s1"
    by (cases s) (simp add: s1_def cmd_def r1_def)
  have "same_message (sy_req s) r1" unfolding r1_def same_message_def
    by (rule exI [of _ fd], rule exI [of _ t2], rule exI [of _ NHR_COMMAND_SEND_RAW_REQUEST]) simp
  then obtain blk q where hd1: "create_header mc r1 = Inr ((Some blk, length msg), q)" "length msg \<le> length blk"
      "take (length msg) blk = msg" using hd by (auto simp: sends_def)
  define r2 where "r2 = q\<lparr>rq_error_code := nhr_error_code_none, rq_command := NHR_COMMAND_START_WAITING_RAW_RESPONSE\<rparr>"
  define s2 where "s2 = s1\<lparr>sy_req := r2, sy_send := sn, sy_log := sy_log s1 @ [Ev_sent msg, nhr_thread_sleep ?D]\<rparr>"
  have cmd1: "cmd s1 = NHR_COMMAND_SEND_RAW_REQUEST" "sy_pc s1 = Loop_test" by (simp_all add: s1_def cmd_def r1_def)
  have "run_handler mc (cmd s1) (s1\<lparr>sy_pc := Running (cmd s1)\<rparr>) = Inr (s1\<lparr>sy_pc := Running (cmd s1),
      sy_req := r2, sy_send := sn, sy_log := sy_log s1 @ [Ev_sent msg]\<rparr>)"
    using send_succeeds [of mc "s1\<lparr>sy_pc := Running (cmd s1)\<rparr>" blk "length msg" q sn] hd1 os(5) hd cmd1
    by (simp add: run_handler_def s1_def r2_def sends_def)
  from turn_working [OF cmd1(2) _ this] cmd1 have 2: "(works mc)\<^sup>*\<^sup>* s1 s2"
    by (cases s1) (simp add: s2_def cmd_def r2_def)
  define r3 where "r3 = r2\<lparr>rq_last_time := t3, rq_command := NHR_COMMAND_WAIT_RAW_RESPONSE\<rparr>"
  define s3 where "s3 = s2\<lparr>sy_req := r3, sy_clock := us @ u # later, sy_log := sy_log s2 @ [nhr_thread_sleep ?D]\<rparr>"
  have cmd2: "cmd s2 = NHR_COMMAND_START_WAITING_RAW_RESPONSE" "sy_pc s2 = Loop_test"
    using cmd1 by (simp_all add: s2_def cmd_def r2_def)
  have "run_handler mc (cmd s2) (s2\<lparr>sy_pc := Running (cmd s2)\<rparr>) = Inr (s2\<lparr>sy_pc := Running (cmd s2),
      sy_req := r3, sy_clock := us @ u # later\<rparr>)"
    using waiting_starts [of "s2\<lparr>sy_pc := Running (cmd s2)\<rparr>" t3 "us @ u # later"] cmd2
    by (simp add: run_handler_def s2_def s1_def r3_def)
  from turn_working [OF cmd2(2) _ this] cmd2 have 3: "(works mc)\<^sup>*\<^sup>* s2 s3"
    by (cases s2) (simp add: s3_def cmd_def r3_def)
  have q: "only_headers r1 q" using create_header_only [OF hd1(1)] .
  have cmd3: "cmd s3 = NHR_COMMAND_WAIT_RAW_RESPONSE" "sy_pc s3 = Loop_test" "rq_response (sy_req s3) = None"
      "callbacks_set s3" "rq_socket (sy_req s3) = fd" "rq_timeout (sy_req s3) = rq_timeout (sy_req s)"
    using cmd2 only_headers_sel [OF q] c'
    by (simp_all add: s3_def cmd_def r3_def r2_def r1_def callbacks_set_def)
  have len: "us \<noteq> []" "length us = Suc (length pks)" using ts(2) by auto
  have u: "u - last us < rq_timeout (sy_req s)" using ck(3) ts len(1) by (auto intro!: withinD)
  have rs: "nhr_request_wait_raw_response mc (s3\<lparr>sy_pc := Running (cmd s3)\<rparr>) =
      Inr ((s3\<lparr>sy_pc := Running (cmd s3)\<rparr>)\<lparr>
      sy_req := (sy_req s3)\<lparr>rq_last_time := last us, rq_response := Some rs, rq_command := NHR_COMMAND_INFORM_RESPONSE\<rparr>,
      sy_errno := EAGAIN, sy_clock := later, sy_buffs := bs, sy_recv := rv\<rparr>)"
    using response_arrives [of "s3\<lparr>sy_pc := Running (cmd s3)\<rparr>" buff bs first pks rv us u later mc rs]
      cmd3 len u bs os(6) an
    by (simp add: s3_def s2_def s1_def)
  let ?e = "(s3\<lparr>sy_pc := Running (cmd s3)\<rparr>)\<lparr>
      sy_req := (sy_req s3)\<lparr>rq_last_time := last us, rq_response := Some rs, rq_command := NHR_COMMAND_INFORM_RESPONSE\<rparr>,
      sy_errno := EAGAIN, sy_clock := later, sy_buffs := bs, sy_recv := rv\<rparr>"
  have e: "cmd ?e = NHR_COMMAND_INFORM_RESPONSE" "rq_response (sy_req ?e) = Some rs" "callbacks_set ?e"
      "\<not> no_socket ?e" "rq_socket (sy_req ?e) = fd" "sy_log ?e = sy_log s3"
    using cmd3 os(3) by (simp_all add: cmd_def callbacks_set_def no_socket_def)
  have "run_handler mc (cmd s3) (s3\<lparr>sy_pc := Running (cmd s3)\<rparr>) = Inr ?e"
    using rs by (simp add: run_handler_def cmd3)
  from turn_ending [OF cmd3(2) _ this, of "Ev_response (Some rs)"] e cmd3(1)
  obtain t where t: "(works mc)\<^sup>*\<^sup>* s3 t" "sy_pc t = Done"
      "sy_log t = sy_log s3 @ [Ev_response (Some rs), nhr_thread_sleep ?D, Ev_close fd, Ev_deleted]" by auto
  have "sy_log t = sy_log s @ exchange_log p fd msg rs"
    using t(3) by (simp add: s3_def s2_def s1_def exchange_log_def)
  moreover have "(works mc)\<^sup>*\<^sup>* s t" using 1 2 3 t(1) by (meson rtranclp_trans)
  ultimately show ?thesis using t(2) by blast
qed

lemma get_sends:
  assumes "rq_method r = Some nhr_method_GET"
    and "rq_path r = Some (cstr path)" "NUL \<notin> set path" "rq_host r = Some (cstr host)" "NUL \<notin> set host"
    and "map_holds (rq_http_headers r) hs" "map_holds (rq_parameters r) ps"
    and "length (get_text r path host hs ps) + 256 \<le> mc_limit mc"
  shows "sends mc r (get_text r path host hs ps)"
  unfolding sends_def
proof (intro conjI allI impI)
  show "get_text r path host hs ps \<noteq> []" by (simp add: get_text_def)
  fix q assume "same_message r q"
  then obtain fd lt c where q: "q = r\<lparr>rq_socket := fd, rq_last_time := lt, rq_command := c\<rparr>"
    by (auto simp: same_message_def)
  let ?t = "get_text r path host hs ps"
  have "get_text q path host hs ps = ?t" by (simp add: q get_text_def host_text_def)
  with get_header_text [of q path host hs ps mc] assms q obtain blk where
    blk: "nhr_request_create_header_GET mc q = Inr (Some blk, length ?t)" "take (length ?t + 1) blk = ?t @ [NUL]"
    by auto
  have "length (take (length ?t + 1) blk) = length ?t + 1" using blk(2) by simp
  then have "length ?t \<le> length blk" by simp
  moreover have "take (length ?t) blk = take (length ?t) (take (length ?t + 1) blk)" by simp
  then have "take (length ?t) blk = ?t" unfolding blk(2) by simp
  ultimately show "\<exists>blk q'. create_header mc q = Inr ((Some blk, length ?t), q')
      \<and> length ?t \<le> length blk \<and> take (length ?t) blk = ?t"
    using blk(1) assms(1) by (auto simp: create_header_def q)
qed

text \<open>
  C1: A GET request that the client has set up through the interface, sent to a host that
  answers: the worker connects, sends exactly the request text, reassembles the response from
  however many packets, calls \<open>on_recvd_response\<close> once with the status code and the first
  \<open>Content-Length\<close> bytes of the body, closes the socket, deletes the request and ends.
\<close>

theorem get_exchange:
  assumes "connecting s" "rq_method (sy_req s) = Some nhr_method_GET"
    and "rq_path (sy_req s) = Some (cstr path)" "NUL \<notin> set path"
    and "rq_host (sy_req s) = Some (cstr host)" "NUL \<notin> set host"
    and "map_holds (rq_http_headers (sy_req s)) hs" "map_holds (rq_parameters (sy_req s)) ps"
    and "length (get_text (sy_req s) path host hs ps) + 256 \<le> mc_limit mc"
    and "host_answers s p fd (length (get_text (sy_req s) path host hs ps)) (first # pks)"
    and "sy_buffs s = buff # bs"
    and "plain_response ver code h1 n h2 (first @ drop (length first) buff)"
    and "first = plain_head ver code h1 n h2 @ k_nhr_double_CRLF @ body"
    and "length (first @ drop (length first) buff) < 2 ^ 64" "n + 32 \<le> body_limit mc"
      "\<forall>d \<in> set (body # pks). n + length d \<le> body_limit mc" "sizeof_response \<le> mc_limit mc"
    and "n \<le> length (body @ concat pks)"
  shows "\<exists>t rs. (works mc)\<^sup>*\<^sup>* s t \<and> sy_pc t = Done
    \<and> sy_log t = sy_log s @ exchange_log p fd (get_text (sy_req s) path host hs ps) rs
    \<and> rs_status_code rs = of_nat code \<and> resp_content rs = take n (body @ concat pks)"
proof -
  obtain rs where "answer mc buff first pks rs" "rs_status_code rs = of_nat code"
      "resp_content rs = take n (body @ concat pks)"
    using plain_answer [OF assms(12-18)] by blast
  with exchange [OF assms(1,10,11) get_sends [OF assms(2-9)]] show ?thesis by blast
qed

definition example_sys :: sys where
  \<comment> \<open>a request on its way, and a host that answers in two packets\<close>
  "example_sys = \<lparr>sy_req = example_request\<lparr>rq_command := NHR_COMMAND_CONNECT_TO_HOST, rq_work_thread := Some 9,
       rq_on_recvd_response := Some 1, rq_on_error := Some 2\<rparr>,
     sy_pc = Loop_test, sy_start = Started, sy_cancelled = False, sy_errno = 0,
     sy_clock = [100, 101, 101, 102, 103, 104, 104], sy_buffs = [replicate 100 NUL],
     sy_recv = [Recv_data (plain_head ''HTTP/1.1'' 200 (''OK'' @ k_nhr_CRLF) 5 '''' @ k_nhr_double_CRLF @ ''hel''),
        Recv_data ''lo'', Recv_fail EAGAIN],
     sy_send = [Sent (length (get_text example_request ''/get'' ''h.org''
         [(''Accept'', ''*/*''), (''X-A'', ''1'')] [(''a'', ''1''), (''b'', ''2'')]))],
     sy_addr = [Addr_list [7]], sy_sock = [Sock 3], sy_conn = [Conn_ok], sy_opts = [Opt_fail 92], sy_log = []\<rparr>"

lemma example_sys_plain:
  "plain_response ''HTTP/1.1'' 200 (''OK'' @ k_nhr_CRLF) 5 ''''
     ((plain_head ''HTTP/1.1'' 200 (''OK'' @ k_nhr_CRLF) 5 '''' @ k_nhr_double_CRLF @ ''hel'')
      @ NUL # replicate 58 NUL)"
  unfolding plain_response_def plain_fields_def example_head example_line
  by (simp add: isdigit_def strstr_def c_string_def k_nhr_defs dec_digits.simps)

lemma example_sys_get_text:
  "get_text (sy_req example_sys) path host hs ps = get_text example_request path host hs ps"
  by (simp add: example_sys_def get_text_def host_text_def)

lemma example_sys_connecting: "connecting example_sys"
  by (simp add: connecting_def example_sys_def cmd_def no_socket_def callbacks_set_def example_request_def
      new_request_def)

lemma example_sys_answers:
  "host_answers example_sys 7 3 (length (get_text (sy_req example_sys) ''/get'' ''h.org''
         [(''Accept'', ''*/*''), (''X-A'', ''1'')] [(''a'', ''1''), (''b'', ''2'')]))
     [plain_head ''HTTP/1.1'' 200 (''OK'' @ k_nhr_CRLF) 5 '''' @ k_nhr_double_CRLF @ ''hel'', ''lo'']"
proof -
  have "sy_clock example_sys = [100, 101, 101, 102, 103, 104, 104] @ []"
      "within [100, 101, 101, 102, 103, 104, 104] (rq_timeout (sy_req example_sys))"
    by (simp_all add: example_sys_def within_def example_request_def new_request_def)
  moreover have "length [100, 101, 101, 102, 103, 104, 104 :: int] = 2 + 5" by simp
  ultimately have "\<exists>ts later. sy_clock example_sys = ts @ later \<and> length ts = 2 + 5
      \<and> within ts (rq_timeout (sy_req example_sys))" by blast
  then show ?thesis
    unfolding host_answers_def example_sys_get_text by (simp add: example_sys_def NHR_INVALID_SOCKET_def)
qed

lemma example_sys_sel:
  "rq_method (sy_req example_sys) = Some nhr_method_GET"
  "rq_path (sy_req example_sys) = Some (cstr ''/get'')" "rq_host (sy_req example_sys) = Some (cstr ''h.org'')"
  "map_holds (rq_http_headers (sy_req example_sys)) [(''Accept'', ''*/*''), (''X-A'', ''1'')]"
  "map_holds (rq_parameters (sy_req example_sys)) [(''a'', ''1''), (''b'', ''2'')]"
  "sy_buffs example_sys = replicate 100 NUL # []" "sy_log example_sys = []"
  using example_request_maps by (simp_all add: example_sys_def example_request_def)

lemma example_sys_small:
  "length (get_text (sy_req example_sys) ''/get'' ''h.org''
         [(''Accept'', ''*/*''), (''X-A'', ''1'')] [(''a'', ''1''), (''b'', ''2'')]) + 256 \<le> mc_limit example_gz_mach"
  unfolding example_get_text example_sys_get_text by simp

abbreviation "example_first \<equiv> plain_head ''HTTP/1.1'' 200 (''OK'' @ k_nhr_CRLF) 5 '''' @ k_nhr_double_CRLF @ ''hel''"

lemma example_first_plain:
  "plain_response ''HTTP/1.1'' 200 (''OK'' @ k_nhr_CRLF) 5 ''''
     (example_first @ drop (length example_first) (replicate 100 NUL))"
  "length (example_first @ drop (length example_first) (replicate 100 NUL)) < 2 ^ 64"
proof -
  have l: "length example_first = 41" unfolding example_head by simp
  have d: "drop (length example_first) (replicate 100 NUL) = NUL # replicate 58 NUL"
    unfolding l by (simp add: eval_nat_numeral)
  show "plain_response ''HTTP/1.1'' 200 (''OK'' @ k_nhr_CRLF) 5 ''''
     (example_first @ drop (length example_first) (replicate 100 NUL))"
    unfolding d by (rule example_sys_plain)
  show "length (example_first @ drop (length example_first) (replicate 100 NUL)) < 2 ^ 64"
    unfolding d using l by simp
qed

theorem get_exchange_witness:
  "\<exists>t rs. (works example_gz_mach)\<^sup>*\<^sup>* example_sys t \<and> sy_pc t = Done
    \<and> sy_log t = exchange_log 7 3 (get_text example_request ''/get'' ''h.org''
         [(''Accept'', ''*/*''), (''X-A'', ''1'')] [(''a'', ''1''), (''b'', ''2'')]) rs
    \<and> rs_status_code rs = 200 \<and> resp_content rs = ''hello''"
proof -
  have "\<exists>t rs. (works example_gz_mach)\<^sup>*\<^sup>* example_sys t \<and> sy_pc t = Done
    \<and> sy_log t = sy_log example_sys @ exchange_log 7 3 (get_text (sy_req example_sys) ''/get'' ''h.org''
         [(''Accept'', ''*/*''), (''X-A'', ''1'')] [(''a'', ''1''), (''b'', ''2'')]) rs
    \<and> rs_status_code rs = of_nat 200 \<and> resp_content rs = take 5 (''hel'' @ concat [''lo''])"
    by (rule get_exchange [OF example_sys_connecting example_sys_sel(1,2) _ example_sys_sel(3) _
        example_sys_sel(4,5) example_sys_small example_sys_answers example_sys_sel(6) example_first_plain(1)
        refl example_first_plain(2)])
       (auto simp: sizeof_response_def)
  then show ?thesis unfolding example_sys_get_text example_sys_sel(7) by simp
qed

text \<open>The same run from the moment nhr_thread_create returns, for the guarantees on all interleavings.\<close>

definition example_start :: sys where
  "example_start = example_sys\<lparr>sy_req := (sy_req example_sys)\<lparr>rq_command := NHR_COMMAND_NONE, rq_work_thread := None\<rparr>,
     sy_start := Thread_made\<rparr>"

lemma example_start_ok: "sys_init example_start" "socks_ok example_start" "callbacks_set example_start"
  by (simp_all add: sys_init_def socks_ok_def callbacks_set_def example_start_def example_sys_def
      example_request_def new_request_def NHR_INVALID_SOCKET_def)

lemma example_start_run: "(sys_step mc)\<^sup>*\<^sup>* example_start example_sys"
proof -
  let ?a = "(on_req (\<lambda>r. r\<lparr>rq_work_thread := Some 9\<rparr>) example_start)\<lparr>sy_start := Thread_stored\<rparr>"
  have 1: "sys_step mc example_start ?a"
    by (rule sys_step.store_thread) (simp add: example_start_def)
  have "sys_step mc ?a ((set_command NHR_COMMAND_CONNECT_TO_HOST ?a)\<lparr>sy_start := Started\<rparr>)"
    by (rule sys_step.start) simp
  also have "(set_command NHR_COMMAND_CONNECT_TO_HOST ?a)\<lparr>sy_start := Started\<rparr> = example_sys"
    by (simp add: example_start_def example_sys_def set_command_def on_req_def nhr_request_set_command_def)
  finally show ?thesis using 1 by (meson converse_rtranclp_into_rtranclp rtranclp.rtrancl_refl)
qed

lemma works_cancelled:
  assumes "(works mc)\<^sup>*\<^sup>* s t" "winv s"
  shows "winv t \<and> sy_cancelled t = sy_cancelled s"
  using assms
  by (induction rule: rtranclp_induct) (auto simp: works_def worker_keeps intro: winv_worker)

lemma example_worker_run:
  "\<exists>t rs. (works example_gz_mach)\<^sup>*\<^sup>* example_sys t \<and> sy_pc t = Done
    \<and> sy_log t = exchange_log 7 3 (get_text example_request ''/get'' ''h.org''
         [(''Accept'', ''*/*''), (''X-A'', ''1'')] [(''a'', ''1''), (''b'', ''2'')]) rs"
proof -
  have "NUL \<notin> set ''/get''" "NUL \<notin> set ''h.org''" by simp_all
  note snd = get_sends [OF example_sys_sel(1,2) this(1) example_sys_sel(3) this(2) example_sys_sel(4,5) example_sys_small]
  obtain rs where "answer example_gz_mach (replicate 100 NUL) example_first [''lo''] rs"
    using plain_answer [OF example_first_plain(1) refl example_first_plain(2), of example_gz_mach "[''lo'']"]
    by (auto simp: sizeof_response_def)
  from exchange [OF example_sys_connecting example_sys_answers example_sys_sel(6) snd this]
  show ?thesis unfolding example_sys_get_text example_sys_sel(7) by auto
qed

lemma example_run:
  "\<exists>t rs. (sys_step example_gz_mach)\<^sup>*\<^sup>* example_start t \<and> sy_pc t = Done \<and> \<not> sy_cancelled t
    \<and> sy_log t = exchange_log 7 3 (get_text example_request ''/get'' ''h.org''
         [(''Accept'', ''*/*''), (''X-A'', ''1'')] [(''a'', ''1''), (''b'', ''2'')]) rs"
proof -
  obtain t rs where t: "(works example_gz_mach)\<^sup>*\<^sup>* example_sys t" "sy_pc t = Done"
      "sy_log t = exchange_log 7 3 (get_text example_request ''/get'' ''h.org''
         [(''Accept'', ''*/*''), (''X-A'', ''1'')] [(''a'', ''1''), (''b'', ''2'')]) rs"
    using example_worker_run by blast
  have "(sys_step example_gz_mach)\<^sup>*\<^sup>* example_start t"
    using example_start_run works_steps [OF t(1)] by (rule rtranclp_trans)
  moreover have "winv example_sys"
    using worker.steps_inv [OF example_start_run] example_start_ok winv_init by blast
  then have "sy_cancelled t = sy_cancelled example_sys" using works_cancelled [OF t(1)] by simp
  then have "\<not> sy_cancelled t" by (simp add: example_sys_def)
  ultimately show ?thesis using t by blast
qed

theorem one_callback_then_delete_witness:
  "\<exists>t q cb w. (sys_step example_gz_mach)\<^sup>*\<^sup>* example_start t \<and> sy_log t = q @ cb @ w @ [Ev_deleted]
     \<and> list_all quiet_event q \<and> list_all wind_up w"
proof -
  obtain t where t: "(sys_step example_gz_mach)\<^sup>*\<^sup>* example_start t" "sy_pc t = Done"
    using example_run by blast
  from one_callback_then_delete [OF example_start_ok(1,2) t(1)] t show ?thesis by blast
qed

theorem every_socket_closed_witness:
  "\<exists>t. (sys_step example_gz_mach)\<^sup>*\<^sup>* example_start t \<and> Ev_socket 3 \<in> set (sy_log t)
     \<and> (\<Sum>e \<leftarrow> sy_log t. opens 3 e) = 0"
proof -
  obtain t where t: "(sys_step example_gz_mach)\<^sup>*\<^sup>* example_start t" "sy_pc t = Done" "Ev_socket 3 \<in> set (sy_log t)"
    using example_run by (force simp: exchange_log_def)
  from every_socket_closed [OF example_start_ok(1,2) t(1)] t show ?thesis by blast
qed

theorem done_informs_once_witness:
  "\<exists>t. (sys_step example_gz_mach)\<^sup>*\<^sup>* example_start t \<and> sy_pc t = Done
     \<and> length (filter callback_event (sy_log t)) = 1"
proof -
  obtain t where t: "(sys_step example_gz_mach)\<^sup>*\<^sup>* example_start t" "sy_pc t = Done" "\<not> sy_cancelled t"
    using example_run by blast
  from done_informs_once [OF example_start_ok t] t show ?thesis by blast
qed

end
