(* ===== verification/Nhr_Worker_Errors.thy ===== *)
theory Nhr_Worker_Errors
  imports Nhr_Worker_Runs
begin

text \<open>
  The worker when things go wrong: a peer that stays silent, a host that is not found, one that
  refuses, a connection closed without an answer, a message taken only in part, an address
  list that is not given back, and a cancel that is lost.
\<close>

section \<open>Silence\<close>

definition unfinished :: "sys \<Rightarrow> bool" where
  "unfinished s \<longleftrightarrow> (case rq_response (sy_req s) of None \<Rightarrow> True | Some rs \<Rightarrow> \<not> rs_is_finished rs)"

lemma wait_silent:
  assumes "sy_buffs s = buff # bs" "sy_recv s = Recv_fail EAGAIN # rv" "unfinished s"
  shows "nhr_request_wait_raw_response mc s =
     r_bind (nhr_request_check_timeout (s\<lparr>sy_buffs := bs, sy_recv := rv, sy_errno := EAGAIN\<rparr>)) (\<lambda>(_, s). Inr s)"
  using assms
  by (auto simp: nhr_request_wait_raw_response_def nhr_request_recv_def unfinished_def Let_def
      split: option.splits)

text \<open>
  C27: when the peer sends nothing more, the waiting worker polls as long as the clock is within
  the timeout of the last packet, and with the first late reading it reports the timeout once,
  closes the socket, deletes the request and ends.
\<close>

theorem silence_times_out:
  assumes "sy_pc s = Loop_test" "rq_command (sy_req s) = NHR_COMMAND_WAIT_RAW_RESPONSE" "callbacks_set s"
    and "unfinished s" "rq_socket (sy_req s) = fd" "fd \<noteq> NHR_INVALID_SOCKET"
    and "sy_recv s = replicate (Suc (length early)) (Recv_fail EAGAIN) @ rv" "length early < length (sy_buffs s)"
    and "sy_clock s = early @ late # later"
    and "\<forall>t \<in> set early. t - rq_last_time (sy_req s) < rq_timeout (sy_req s)"
    and "\<not> late - rq_last_time (sy_req s) < rq_timeout (sy_req s)"
  shows "\<exists>t. (works mc)\<^sup>*\<^sup>* s t \<and> sy_pc t = Done
    \<and> sy_log t = sy_log s @ replicate (length early) (nhr_thread_sleep NHR_WORK_THREAD_DELAY)
        @ [Ev_error nhr_error_code_timeout, nhr_thread_sleep NHR_WORK_THREAD_DELAY, Ev_close fd, Ev_deleted]"
  using assms
proof (induction early arbitrary: s)
  case Nil
  from Nil.prems(8) obtain buff bs where bs: "sy_buffs s = buff # bs" by (cases "sy_buffs s") auto
  let ?s = "s\<lparr>sy_pc := Running NHR_COMMAND_WAIT_RAW_RESPONSE\<rparr>"
  let ?e = "?s\<lparr>sy_req := (sy_req s)\<lparr>rq_error_code := nhr_error_code_timeout, rq_command := NHR_COMMAND_INFORM_ERROR\<rparr>,
    sy_errno := EAGAIN, sy_clock := later, sy_buffs := bs, sy_recv := rv\<rparr>"
  have c: "cmd s = NHR_COMMAND_WAIT_RAW_RESPONSE" using Nil.prems(2) by (simp add: cmd_def)
  have "nhr_request_wait_raw_response mc ?s = Inr ?e"
    using wait_silent [of ?s buff bs rv mc] bs Nil.prems(4,7,9,11)
    by (cases s) (simp add: unfinished_def check_late)
  then have "run_handler mc (cmd s) (s\<lparr>sy_pc := Running (cmd s)\<rparr>) = Inr ?e" by (simp add: run_handler_def c)
  from turn_ending [OF Nil.prems(1) _ this, of "Ev_error nhr_error_code_timeout"] c Nil.prems(3,5,6)
  show ?case by (auto simp: cmd_def err_def callbacks_set_def no_socket_def)
next
  case (Cons t early)
  from Cons.prems(8) obtain buff bs where bs: "sy_buffs s = buff # bs" by (cases "sy_buffs s") auto
  let ?rv = "replicate (Suc (length early)) (Recv_fail EAGAIN) @ rv"
  let ?s = "s\<lparr>sy_pc := Running NHR_COMMAND_WAIT_RAW_RESPONSE\<rparr>"
  let ?e = "?s\<lparr>sy_errno := EAGAIN, sy_clock := early @ late # later, sy_buffs := bs, sy_recv := ?rv\<rparr>"
  let ?u = "s\<lparr>sy_errno := EAGAIN, sy_clock := early @ late # later, sy_buffs := bs, sy_recv := ?rv,
    sy_log := sy_log s @ [nhr_thread_sleep NHR_WORK_THREAD_DELAY]\<rparr>"
  have c: "cmd s = NHR_COMMAND_WAIT_RAW_RESPONSE" using Cons.prems(2) by (simp add: cmd_def)
  have "nhr_request_wait_raw_response mc ?s = Inr ?e"
    using wait_silent [of ?s buff bs ?rv mc] bs Cons.prems(4,7,9,10)
    by (cases s) (simp add: unfinished_def check_in_time)
  then have "run_handler mc (cmd s) (s\<lparr>sy_pc := Running (cmd s)\<rparr>) = Inr ?e" by (simp add: run_handler_def c)
  from turn_working [OF Cons.prems(1) _ this] c Cons.prems(1,2) have w: "(works mc)\<^sup>*\<^sup>* s ?u"
    by (cases s) (simp add: cmd_def)
  have "\<exists>v. (works mc)\<^sup>*\<^sup>* ?u v \<and> sy_pc v = Done
    \<and> sy_log v = sy_log ?u @ replicate (length early) (nhr_thread_sleep NHR_WORK_THREAD_DELAY)
        @ [Ev_error nhr_error_code_timeout, nhr_thread_sleep NHR_WORK_THREAD_DELAY, Ev_close fd, Ev_deleted]"
    by (rule Cons.IH) (use Cons.prems bs in \<open>simp_all add: callbacks_set_def unfinished_def\<close>)
  then obtain v where v: "(works mc)\<^sup>*\<^sup>* ?u v" "sy_pc v = Done"
      "sy_log v = sy_log s @ replicate (length (t # early)) (nhr_thread_sleep NHR_WORK_THREAD_DELAY)
        @ [Ev_error nhr_error_code_timeout, nhr_thread_sleep NHR_WORK_THREAD_DELAY, Ev_close fd, Ev_deleted]" by auto
  then show ?case using w by (meson rtranclp_trans)
qed

definition silent_sys :: sys where
  "silent_sys = example_sys\<lparr>sy_req := (sy_req example_sys)\<lparr>rq_socket := 3, rq_last_time := 100,
       rq_command := NHR_COMMAND_WAIT_RAW_RESPONSE\<rparr>,
     sy_clock := [110, 120, 130], sy_buffs := replicate 3 [NUL],
     sy_recv := replicate 3 (Recv_fail EAGAIN)\<rparr>"

theorem silence_times_out_witness:
  "\<exists>t. (works example_gz_mach)\<^sup>*\<^sup>* silent_sys t \<and> sy_pc t = Done
    \<and> sy_log t = [Ev_usleep 5000, Ev_usleep 5000, Ev_error nhr_error_code_timeout, Ev_usleep 5000, Ev_close 3, Ev_deleted]"
proof -
  have s: "sy_pc silent_sys = Loop_test" "rq_command (sy_req silent_sys) = NHR_COMMAND_WAIT_RAW_RESPONSE"
      "callbacks_set silent_sys" "unfinished silent_sys" "rq_socket (sy_req silent_sys) = 3"
      "(3 :: int) \<noteq> NHR_INVALID_SOCKET"
      "sy_recv silent_sys = replicate (Suc (length [110, 120 :: int])) (Recv_fail EAGAIN) @ []"
      "length [110, 120 :: int] < length (sy_buffs silent_sys)" "sy_clock silent_sys = [110, 120] @ 130 # []"
      "\<forall>t \<in> set [110, 120]. t - rq_last_time (sy_req silent_sys) < rq_timeout (sy_req silent_sys)"
      "\<not> 130 - rq_last_time (sy_req silent_sys) < rq_timeout (sy_req silent_sys)"
    by (simp_all add: silent_sys_def example_sys_def callbacks_set_def unfinished_def example_request_def
        new_request_def NHR_INVALID_SOCKET_def eval_nat_numeral)
  from silence_times_out [OF s, of example_gz_mach]
  show ?thesis by (simp add: silent_sys_def example_sys_def NHR_WORK_THREAD_DELAY_def nhr_thread_sleep_def)
qed

section \<open>No connection\<close>

fun no_address :: "addr_answer \<Rightarrow> bool" where
  "no_address (Addr_list ps) = (ps = [])"
| "no_address (Addr_fail e) = True"

lemma getaddr_loop_none:
  "sy_addr s = fails @ as \<Longrightarrow> list_all no_address fails \<Longrightarrow>
     getaddr_loop (length fails) s = Inr ([], s\<lparr>
       sy_req := (sy_req s)\<lparr>rq_error_code := nhr_error_code_failed_connect_to_host,
                            rq_command := NHR_COMMAND_INFORM_ERROR\<rparr>,
       sy_addr := as, sy_log := sy_log s @ replicate (length fails) (nhr_thread_sleep NHR_CONNECT_RETRY_DELAY)\<rparr>)"
proof (induction fails arbitrary: s)
  case Nil
  then show ?case
    by (cases s) (simp add: set_error_def set_command_def on_req_def nhr_request_set_command_def)
next
  case (Cons a fails)
  let ?s = "emit (nhr_thread_sleep NHR_CONNECT_RETRY_DELAY) (s\<lparr>sy_addr := fails @ as\<rparr>)"
  have "getaddr_loop (length (a # fails)) s = getaddr_loop (length fails) ?s"
    using Cons.prems by (cases a) simp_all
  with Cons.IH [of ?s] Cons.prems show ?case
    by (cases s) (simp add: emit_def)
qed

text \<open>
  C28: when the name of the host cannot be resolved, the worker tries
  \<open>NHR_CONNECT_ATTEMPS - 1\<close> times with a delay after each, reports
  \<open>failed_connect_to_host\<close> once, deletes the request and ends.
\<close>

theorem unresolved_host_reported:
  assumes "connecting s" "sy_addr s = fails @ as" "length fails = NHR_CONNECT_ATTEMPS - 1"
    and "list_all no_address fails" "sy_clock s = t0 # t1 # later" "t1 - t0 < rq_timeout (sy_req s)"
  shows "\<exists>t. (works mc)\<^sup>*\<^sup>* s t \<and> sy_pc t = Done
    \<and> sy_log t = sy_log s @ replicate (NHR_CONNECT_ATTEMPS - 1) (nhr_thread_sleep NHR_CONNECT_RETRY_DELAY)
        @ [Ev_error nhr_error_code_failed_connect_to_host, nhr_thread_sleep NHR_WORK_THREAD_DELAY, Ev_deleted]"
proof -
  have c: "sy_pc s = Loop_test" "cmd s = NHR_COMMAND_CONNECT_TO_HOST" "callbacks_set s" "no_socket s"
    using assms(1) by (auto simp: connecting_def)
  let ?n = "NHR_CONNECT_ATTEMPS - 1"
  let ?s = "s\<lparr>sy_pc := Running NHR_COMMAND_CONNECT_TO_HOST\<rparr>"
  let ?e = "?s\<lparr>sy_req := (sy_req s)\<lparr>rq_last_time := t0, rq_error_code := nhr_error_code_failed_connect_to_host,
      rq_command := NHR_COMMAND_INFORM_ERROR\<rparr>, sy_clock := later, sy_addr := as,
    sy_log := sy_log s @ replicate ?n (nhr_thread_sleep NHR_CONNECT_RETRY_DELAY)\<rparr>"
  let ?t = "?s\<lparr>sy_req := (sy_req s)\<lparr>rq_last_time := t0\<rparr>, sy_clock := t1 # later\<rparr>"
  let ?g = "?t\<lparr>sy_req := (sy_req ?t)\<lparr>rq_error_code := nhr_error_code_failed_connect_to_host,
                            rq_command := NHR_COMMAND_INFORM_ERROR\<rparr>,
       sy_addr := as, sy_log := sy_log ?t @ replicate ?n (nhr_thread_sleep NHR_CONNECT_RETRY_DELAY)\<rparr>"
  have "touch ?s = Inr ?t" using assms(5) by (cases s) (simp add: touch_eq)
  moreover have "nhr_request_connect_getaddr_info ?t = Inr ([], ?g)"
    using getaddr_loop_none [of ?t fails as] assms(2-4) attempts(1) by (simp only: getaddr_info) simp
  moreover have "nhr_request_check_timeout ?g = Inr (True, ?e)"
    using assms(6) by (cases s) (simp add: check_in_time)
  ultimately have "nhr_request_connect_to_host ?s = Inr ?e"
    by (simp only: nhr_request_connect_to_host_def r_bind.simps prod.case) simp
  then have "run_handler mc (cmd s) (s\<lparr>sy_pc := Running (cmd s)\<rparr>) = Inr ?e" by (simp add: run_handler_def c)
  from turn_ending [OF c(1) _ this, of "Ev_error nhr_error_code_failed_connect_to_host"] c(2-4)
  show ?thesis by (auto simp: cmd_def err_def callbacks_set_def no_socket_def)
qed

definition lost_sys :: sys where
  "lost_sys = example_sys\<lparr>sy_addr := [Addr_fail 2, Addr_list [], Addr_fail 3, Addr_fail 3]\<rparr>"

lemma connecting_addr: "connecting (s\<lparr>sy_addr := as\<rparr>) = connecting s"
  by (simp add: connecting_def cmd_def no_socket_def callbacks_set_def)

theorem unresolved_host_reported_witness:
  "\<exists>t. (works example_gz_mach)\<^sup>*\<^sup>* lost_sys t \<and> sy_pc t = Done
    \<and> sy_log t = replicate 4 (Ev_usleep 200000)
        @ [Ev_error nhr_error_code_failed_connect_to_host, Ev_usleep 5000, Ev_deleted]"
proof -
  have "connecting lost_sys" using example_sys_connecting by (simp add: lost_sys_def connecting_addr)
  moreover have "sy_addr lost_sys = [Addr_fail 2, Addr_list [], Addr_fail 3, Addr_fail 3] @ []"
    "sy_clock lost_sys = 100 # 101 # [101, 102, 103, 104, 104]" "rq_timeout (sy_req lost_sys) = 30" "sy_log lost_sys = []"
    by (simp_all add: lost_sys_def example_sys_def example_request_def new_request_def)
  ultimately show ?thesis
    using unresolved_host_reported [of lost_sys _ "[]" 100 101 "[101, 102, 103, 104, 104]" example_gz_mach]
    by (simp add: NHR_CONNECT_ATTEMPS_def NHR_CONNECT_RETRY_DELAY_def NHR_WORK_THREAD_DELAY_def nhr_thread_sleep_def)
qed

fun refused :: "(nat \<times> int) list \<Rightarrow> event list" where
  \<comment> \<open>the addresses, each with the socket made for it\<close>
  "refused [] = []"
| "refused ((p, fd) # ps) = Ev_socket fd # Ev_option fd SO_ERROR 1 # Ev_option fd SO_KEEPALIVE 1 # Ev_close fd # refused ps"

lemma connect_each_refused:
  assumes "sy_sock s = map (Sock \<circ> snd) ps @ ss" "sy_conn s = map Conn_fail es @ cs" "length es = length ps"
    and "sy_clock s = ts @ later" "length ts = 2 * length ps" "within ts (rq_timeout (sy_req s))"
    and "\<forall>x \<in> set ps. snd x \<noteq> NHR_INVALID_SOCKET"
  shows "\<exists>t e os. connect_each (map fst ps) sock s = Inr (Some (last (sock # map snd ps)), s\<lparr>
      sy_req := (sy_req s)\<lparr>rq_last_time := t\<rparr>, sy_errno := e, sy_opts := os, sy_clock := later, sy_sock := ss, sy_conn := cs,
      sy_log := sy_log s @ refused ps\<rparr>)"
  using assms
proof (induction ps arbitrary: s es ts sock)
  case Nil
  then show ?case
    by (intro exI [of _ "rq_last_time (sy_req s)"] exI [of _ "sy_errno s"] exI [of _ "sy_opts s"]) (cases s, simp)
next
  case (Cons x ps)
  obtain p fd where x: "x = (p, fd)" by (cases x)
  obtain e es' where es: "es = e # es'" using Cons.prems(3) by (cases es) auto
  obtain t0 t1 ts' where ts: "ts = t0 # t1 # ts'"
    using Cons.prems(5) by (cases ts; cases "tl ts") auto
  have fd: "fd \<noteq> NHR_INVALID_SOCKET" using Cons.prems(7) x by simp
  let ?s = "s\<lparr>sy_req := (sy_req s)\<lparr>rq_last_time := t0\<rparr>, sy_errno := e, sy_clock := ts' @ later,
    sy_sock := map (Sock \<circ> snd) ps @ ss, sy_conn := map Conn_fail es' @ cs, sy_log := sy_log s @ [Ev_socket fd, Ev_option fd SO_ERROR 1, Ev_option fd SO_KEEPALIVE 1, Ev_close fd],
    sy_opts := drop 2 (sy_opts s)\<rparr>"
  have "t1 - t0 < rq_timeout (sy_req s)" using Cons.prems(6) ts by (simp add: within_def)
  then have "connect_each (map fst (x # ps)) sock s = connect_each (map fst ps) fd ?s"
    using Cons.prems(1,2,4) x es ts fd
    by (cases s) (simp add: touch_eq nhr_socket_def try_connect_eq Let_def emit_def check_in_time comp_def)
  moreover have "\<exists>t e os. connect_each (map fst ps) fd ?s = Inr (Some (last (fd # map snd ps)), ?s\<lparr>
      sy_req := (sy_req ?s)\<lparr>rq_last_time := t\<rparr>, sy_errno := e, sy_opts := os, sy_clock := later, sy_sock := ss, sy_conn := cs,
      sy_log := sy_log ?s @ refused ps\<rparr>)"
    by (rule Cons.IH [of _ es' ts']) (use Cons.prems es ts in \<open>auto simp: within_def\<close>)
  ultimately show ?case using x by (cases s) simp
qed

text \<open>
  C29: a host whose every address refuses is tried exactly once: \<open>sock\<close> still holds the number
  of the last closed socket, so the loop over \<open>NHR_CONNECT_ATTEMPS\<close> ends after its first
  round, and the worker reports \<open>failed_connect_to_host\<close> with every socket closed.
\<close>

theorem refusal_not_retried:
  assumes "connecting s" "ps \<noteq> []" "sy_addr s = Addr_list (map fst ps) # as"
    and "sy_sock s = map (Sock \<circ> snd) ps @ ss" "sy_conn s = map Conn_fail es @ cs" "length es = length ps"
    and "sy_clock s = ts @ later" "length ts = 2 * length ps + 2" "within ts (rq_timeout (sy_req s))"
    and "\<forall>x \<in> set ps. snd x \<noteq> NHR_INVALID_SOCKET"
  shows "\<exists>t. (works mc)\<^sup>*\<^sup>* s t \<and> sy_pc t = Done
    \<and> sy_log t = sy_log s @ Ev_addrinfo # refused ps @ [Ev_freeaddrinfo,
        Ev_error nhr_error_code_failed_connect_to_host, nhr_thread_sleep NHR_WORK_THREAD_DELAY, Ev_deleted]"
proof -
  have c: "sy_pc s = Loop_test" "cmd s = NHR_COMMAND_CONNECT_TO_HOST" "callbacks_set s" "no_socket s"
    using assms(1) by (auto simp: connecting_def)
  obtain t0 t1 ts' where ts: "ts = t0 # t1 # ts'" "length ts' = 2 * length ps"
    using assms(8) by (cases ts; cases "tl ts") auto
  obtain p qs where ps: "map fst ps = p # qs" using assms(2) by (cases ps) auto
  let ?s = "s\<lparr>sy_pc := Running NHR_COMMAND_CONNECT_TO_HOST\<rparr>"
  let ?t = "?s\<lparr>sy_req := (sy_req s)\<lparr>rq_last_time := t0\<rparr>, sy_clock := t1 # ts' @ later\<rparr>"
  let ?g = "?t\<lparr>sy_addr := as, sy_log := sy_log s @ [Ev_addrinfo]\<rparr>"
  let ?h = "?g\<lparr>sy_clock := ts' @ later\<rparr>"
  have 1: "touch ?s = Inr ?t" using assms(7) ts(1) by (cases s) (simp add: touch_eq)
  have 2: "nhr_request_connect_getaddr_info ?t = Inr (map fst ps, ?g)"
    unfolding getaddr_info using assms(3) ps by (subst getaddr_found [of _ p qs as]) simp_all
  have "t1 - t0 < rq_timeout (sy_req s)" using assms(9) ts by (auto intro: withinD)
  then have 3: "nhr_request_check_timeout ?g = Inr (True, ?h)" by (cases s) (simp add: check_in_time)
  have "\<exists>t e os. connect_each (map fst ps) NHR_INVALID_SOCKET ?h
      = Inr (Some (last (NHR_INVALID_SOCKET # map snd ps)), ?h\<lparr>
      sy_req := (sy_req ?h)\<lparr>rq_last_time := t\<rparr>, sy_errno := e, sy_opts := os, sy_clock := later, sy_sock := ss, sy_conn := cs,
      sy_log := sy_log ?h @ refused ps\<rparr>)"
    using connect_each_refused [of ?h ps ss es cs ts' later NHR_INVALID_SOCKET] assms ts by (auto simp: within_def)
  then obtain t e os where 4: "connect_each (map fst ps) NHR_INVALID_SOCKET ?h
      = Inr (Some (last (NHR_INVALID_SOCKET # map snd ps)), ?h\<lparr>
      sy_req := (sy_req ?h)\<lparr>rq_last_time := t\<rparr>, sy_errno := e, sy_opts := os, sy_clock := later, sy_sock := ss, sy_conn := cs,
      sy_log := sy_log ?h @ refused ps\<rparr>)" (is "_ = Inr (Some ?fd, ?i)") by blast
  have fd: "?fd \<noteq> NHR_INVALID_SOCKET" using assms(2,10) last_in_set [of ps] by (auto simp: last_map)
  then have 5: "connect_tries (NHR_CONNECT_ATTEMPS - 1) (map fst ps) NHR_INVALID_SOCKET ?h = Inr (True, ?i)"
    unfolding attempts using 4 by simp
  let ?e = "?s\<lparr>sy_req := (sy_req s)\<lparr>rq_last_time := t, rq_error_code := nhr_error_code_failed_connect_to_host,
      rq_command := NHR_COMMAND_INFORM_ERROR\<rparr>, sy_errno := e, sy_opts := os, sy_clock := later, sy_addr := as, sy_sock := ss,
      sy_conn := cs, sy_log := sy_log s @ Ev_addrinfo # refused ps @ [Ev_freeaddrinfo]\<rparr>"
  have "nhr_request_connect_to_host ?s = Inr ?e"
    unfolding nhr_request_connect_to_host_def 1 r_bind.simps 2 prod.case 3 5
    using ps c(4) by (cases s) (simp add: 5 no_socket_def emit_def set_error_def set_command_def on_req_def
        nhr_request_set_command_def)
  then have "run_handler mc (cmd s) (s\<lparr>sy_pc := Running (cmd s)\<rparr>) = Inr ?e" by (simp add: run_handler_def c)
  from turn_ending [OF c(1) _ this, of "Ev_error nhr_error_code_failed_connect_to_host"] c(2-4)
  show ?thesis by (auto simp: cmd_def err_def callbacks_set_def no_socket_def)
qed

definition refused_sys :: sys where
  "refused_sys = example_sys\<lparr>sy_addr := [Addr_list [7, 8]], sy_sock := [Sock 3, Sock 4],
     sy_conn := [Conn_fail 111, Conn_fail 111]\<rparr>"

theorem refusal_not_retried_witness:
  "\<exists>t. (works example_gz_mach)\<^sup>*\<^sup>* refused_sys t \<and> sy_pc t = Done
    \<and> sy_log t = [Ev_addrinfo, Ev_socket 3, Ev_option 3 4 1, Ev_option 3 9 1, Ev_close 3,
        Ev_socket 4, Ev_option 4 4 1, Ev_option 4 9 1, Ev_close 4, Ev_freeaddrinfo,
        Ev_error nhr_error_code_failed_connect_to_host, Ev_usleep 5000, Ev_deleted]"
proof -
  have s: "connecting refused_sys" "[(7, 3), (8, 4)] \<noteq> ([] :: (nat \<times> int) list)"
      "sy_addr refused_sys = Addr_list (map fst [(7 :: nat, 3 :: int), (8, 4)]) # []"
      "sy_sock refused_sys = map (Sock \<circ> snd) [(7 :: nat, 3), (8, 4)] @ []"
      "sy_conn refused_sys = map Conn_fail [111, 111] @ []" "length [111, 111 :: int] = length [(7 :: nat, 3 :: int), (8, 4)]"
      "sy_clock refused_sys = [100, 101, 101, 102, 103, 104] @ [104]"
      "length [100, 101, 101, 102, 103, 104 :: int] = 2 * length [(7 :: nat, 3 :: int), (8, 4)] + 2"
      "within [100, 101, 101, 102, 103, 104] (rq_timeout (sy_req refused_sys))"
      "\<forall>x \<in> set [(7 :: nat, 3 :: int), (8, 4)]. snd x \<noteq> NHR_INVALID_SOCKET"
    by (simp_all add: refused_sys_def connecting_def cmd_def no_socket_def callbacks_set_def within_def
        example_sys_def example_request_def new_request_def NHR_INVALID_SOCKET_def)
  have "sy_log refused_sys = []" by (simp add: refused_sys_def example_sys_def)
  with refusal_not_retried [OF s, of example_gz_mach] show ?thesis
    by (simp add: NHR_WORK_THREAD_DELAY_def SO_ERROR_def SO_KEEPALIVE_def nhr_thread_sleep_def)
qed

section \<open>Losses\<close>




text \<open>
  When the kernel takes only a part of the message, the rest is never sent: the worker goes
  on to wait for the response.
\<close>

theorem partial_send_taken_for_all:
  assumes "sends mc (sy_req s) msg" "sy_send s = Sent k # ss" "0 < k" "k < length msg"
  shows "\<exists>s'. nhr_request_send_raw_request mc s = Inr s' \<and> sy_log s' = sy_log s @ [Ev_sent (take k msg)]
    \<and> rq_command (sy_req s') = NHR_COMMAND_START_WAITING_RAW_RESPONSE"
proof -
  have "same_message (sy_req s) (sy_req s)"
    unfolding same_message_def
    by (rule exI [of _ "rq_socket (sy_req s)"], rule exI [of _ "rq_last_time (sy_req s)"],
        rule exI [of _ "rq_command (sy_req s)"]) simp
  then obtain blk r where h: "create_header mc (sy_req s) = Inr ((Some blk, length msg), r)"
      "length msg \<le> length blk" "take (length msg) blk = msg" using assms(1) by (auto simp: sends_def)
  have "take k (take (length msg) blk) = take k msg" using h(3) by simp
  then show ?thesis using h assms(2,3)
    by (simp add: send_raw_request_eq nhr_request_send_buffer_def blk_read_def mem_read_def on_req_def emit_def
        set_command_def nhr_request_set_command_def Let_def)
qed

theorem partial_send_taken_for_all_witness:
  "\<exists>s'. nhr_request_send_raw_request example_gz_mach (example_sys\<lparr>sy_send := [Sent 3]\<rparr>) = Inr s'
    \<and> sy_log s' = [Ev_sent ''GET'']"
proof -
  have "NUL \<notin> set ''/get''" "NUL \<notin> set ''h.org''" by simp_all
  note snd = get_sends [OF example_sys_sel(1,2) this(1) example_sys_sel(3) this(2) example_sys_sel(4,5) example_sys_small]
  have "sy_req (example_sys\<lparr>sy_send := [Sent 3]\<rparr>) = sy_req example_sys"
    "sy_send (example_sys\<lparr>sy_send := [Sent 3]\<rparr>) = Sent 3 # []" "sy_log (example_sys\<lparr>sy_send := [Sent 3]\<rparr>) = []"
    by (simp_all add: example_sys_def)
  with partial_send_taken_for_all [of example_gz_mach "example_sys\<lparr>sy_send := [Sent 3]\<rparr>" _ 3 "[]",
      OF snd [folded this(1)] this(2)]
  show ?thesis by (auto simp: example_sys_get_text example_get_text)
qed

text \<open>
  When resolving the name has taken longer than the timeout, the timeout is reported and the
  address list is never given back.
\<close>

theorem late_address_list_leaks:
  assumes "sy_addr s = Addr_list (p # ps) # as" "sy_clock s = t0 # t1 # later" "rq_timeout (sy_req s) \<le> t1 - t0"
  shows "\<exists>s'. nhr_request_connect_to_host s = Inr s' \<and> sy_log s' = sy_log s @ [Ev_addrinfo]
    \<and> rq_command (sy_req s') = NHR_COMMAND_INFORM_ERROR \<and> rq_error_code (sy_req s') = nhr_error_code_timeout"
  using assms
  by (simp add: nhr_request_connect_to_host_def getaddr_info touch_eq getaddr_found check_late
      del: getaddr_loop.simps)

theorem late_address_list_leaks_witness:
  "\<exists>s'. nhr_request_connect_to_host (example_sys\<lparr>sy_clock := [100, 130]\<rparr>) = Inr s' \<and> sy_log s' = [Ev_addrinfo]"
  using late_address_list_leaks [of "example_sys\<lparr>sy_clock := [100, 130]\<rparr>" 7 "[]" "[]" 100 130 "[]"]
  by (simp add: example_sys_def example_request_def new_request_def) blast

text \<open>
  C34: a cancel between the moment the worker has read its command and the moment the handler
  stores the next one is lost: whatever the command is then, the handlers for connecting,
  sending and starting to wait leave a command that is not the end.
\<close>

theorem cancel_lost:
  assumes "c \<in> {NHR_COMMAND_CONNECT_TO_HOST, NHR_COMMAND_SEND_RAW_REQUEST, NHR_COMMAND_START_WAITING_RAW_RESPONSE}"
    and "c = NHR_COMMAND_CONNECT_TO_HOST \<Longrightarrow> rq_socket (sy_req s) = NHR_INVALID_SOCKET" "socks_ok s"
    and "nhr_request_cancel (Some (sy_req s)) = Some r"
    and "run_handler mc c (s\<lparr>sy_req := r, sy_cancelled := True\<rparr>) = Inr s'"
  shows "rq_command r = NHR_COMMAND_END \<and> rq_command (sy_req s') \<noteq> NHR_COMMAND_END"
proof -
  let ?s = "s\<lparr>sy_req := r, sy_cancelled := True\<rparr>"
  have r: "r = (sy_req s)\<lparr>rq_command := NHR_COMMAND_END\<rparr>"
    using assms(4) by (simp add: nhr_request_cancel_def nhr_request_set_command_def split: if_splits)
  have ok: "socks_ok ?s" using assms(3) by (simp add: socks_ok_def)
  have "cmd s' \<noteq> NHR_COMMAND_END"
  proof (cases "c = NHR_COMMAND_CONNECT_TO_HOST")
    case True
    then have "no_socket ?s" using assms(2) r by (simp add: no_socket_def)
    with True assms(5) connect_host_out [OF _ _ ok] show ?thesis by (auto simp: run_handler_def)
  next
    case False
    with assms(1,5) cmd_send [of mc ?s s'] show ?thesis
      by (auto simp: run_handler_def nhr_request_start_waiting_raw_response_def r_bind_Inr_conv)
  qed
  then show ?thesis using r by (simp add: cmd_def)
qed

theorem cancel_lost_witness:
  "\<exists>r s'. nhr_request_cancel (Some (sy_req silent_sys)) = Some r
     \<and> run_handler example_gz_mach NHR_COMMAND_START_WAITING_RAW_RESPONSE
         (silent_sys\<lparr>sy_req := r, sy_cancelled := True\<rparr>) = Inr s'
     \<and> rq_command (sy_req s') \<noteq> NHR_COMMAND_END"
proof -
  let ?r = "(sy_req silent_sys)\<lparr>rq_command := NHR_COMMAND_END\<rparr>"
  have r: "nhr_request_cancel (Some (sy_req silent_sys)) = Some ?r"
    by (simp add: nhr_request_cancel_def nhr_request_set_command_def silent_sys_def example_sys_def)
  obtain s' where s': "run_handler example_gz_mach NHR_COMMAND_START_WAITING_RAW_RESPONSE
         (silent_sys\<lparr>sy_req := ?r, sy_cancelled := True\<rparr>) = Inr s'"
    by (simp add: run_handler_def nhr_request_start_waiting_raw_response_def touch_def nhr_time_def
        silent_sys_def example_sys_def)
  have "socks_ok silent_sys"
    by (simp add: socks_ok_def silent_sys_def example_sys_def NHR_INVALID_SOCKET_def)
  with cancel_lost [OF _ _ _ r s'] r s' show ?thesis by auto
qed

end
