(* ===== verification/Nhr_Response_Chunked.thy ===== *)
theory Nhr_Response_Chunked
  imports Nhr_Response_Correct
begin

text \<open>
  Chunked responses as a whole: the head that announces chunks, the packets that end between two
  chunks, and what happens to a packet that is shorter than the one before it.
\<close>

section \<open>The head of a chunked response\<close>

definition chunked_line :: "string \<Rightarrow> nat \<Rightarrow> string \<Rightarrow> string" where
  \<comment> \<open>the head up to the word \<open>chunked\<close>\<close>
  "chunked_line ver code h1 =
     ver @ '' '' @ dec_digits code @ '' '' @ h1 @ k_nhr_transfer_encoding @ '': '' @ k_nhr_chunked"

definition chunked_head :: "string \<Rightarrow> nat \<Rightarrow> string \<Rightarrow> string \<Rightarrow> string" where
  "chunked_head ver code h1 h2 = chunked_line ver code h1 @ h2"

text \<open>
  What makes it the head that the string searches of the parser see: the first blank is the one
  before the status code, the first \<open>Transfer-Encoding\<close> is the field, neither of the other two
  fields occurs before the first NUL of the buffer, and the first empty line ends the head.
\<close>

definition chunked_response :: "string \<Rightarrow> nat \<Rightarrow> string \<Rightarrow> string \<Rightarrow> bytes \<Rightarrow> bool" where
  "chunked_response ver code h1 h2 received \<longleftrightarrow>
     (case c_string received of
        Inl _ \<Rightarrow> False
      | Inr s \<Rightarrow>
          find_sub k_nhr_transfer_encoding s = Some (length (ver @ '' '' @ dec_digits code @ '' '' @ h1))
          \<and> find_sub k_nhr_content_length s = None \<and> find_sub k_nhr_content_encoding s = None)
     \<and> CHR '' '' \<notin> set ver \<and> NUL \<notin> set (chunked_head ver code h1 h2)
     \<and> 0 < code \<and> code < 2 ^ 16
     \<and> strstr received k_nhr_double_CRLF = Inr (Some (drop (length (chunked_head ver code h1 h2)) received))"

definition chunked_start :: "nat \<Rightarrow> nhr_response" where
  "chunked_start code = zero_response\<lparr>rs_status_code := of_nat code,
     rs_transfer_encoding := NHR_TRANSFER_ENCODING_CHUNKED\<rparr>"

lemma chunked_start_sel [simp]:
  "rs_status_code (chunked_start code) = of_nat code" "rs_content_length (chunked_start code) = 0"
  "rs_transfer_encoding (chunked_start code) = 1" "rs_content_encoding (chunked_start code) = 0"
  "\<not> rs_is_finished (chunked_start code)" "\<not> rs_is_all_chunks_processed (chunked_start code)"
  "resp_ok (chunked_start code)" "resp_content (chunked_start code) = []"
  by (simp_all add: chunked_start_def zero_response_def resp_ok_def resp_mem_def resp_content_def
      NHR_TRANSFER_ENCODING_CHUNKED_def)

lemma transfer_encoding_read:
  assumes "c_string received = Inr s" "find_sub k_nhr_transfer_encoding s = Some (length a)"
    and "received = a @ k_nhr_transfer_encoding @ '': '' @ k_nhr_chunked @ rest" "NUL \<in> set rest"
  shows "nhr_response_parse_transfer_encoding r received
    = Inr (r\<lparr>rs_transfer_encoding := rs_transfer_encoding r OR NHR_TRANSFER_ENCODING_CHUNKED\<rparr>)"
proof -
  have "nhr_response_find_http_field_value received k_nhr_transfer_encoding = Inr (Some (k_nhr_chunked @ rest))"
    using field_value_at [OF assms(1,2), of "'': ''" "CHR ''c''" "''hunked'' @ rest"] assms(3)
    by (auto simp: ctype_defs k_nhr_chunked_def)
  moreover obtain t where "c_string (k_nhr_chunked @ rest) = Inr (k_nhr_chunked @ t)"
    using assms(4) by (simp add: c_string_def k_nhr_chunked_def)
  then have "strstr (k_nhr_chunked @ rest) k_nhr_chunked = Inr (Some (k_nhr_chunked @ rest))"
    using find_sub_here [of k_nhr_chunked t] by (simp add: strstr_def)
  ultimately show ?thesis by (simp add: nhr_response_parse_transfer_encoding_def)
qed

lemma create_chunked:
  assumes cr: "chunked_response ver code h1 h2 received"
    and rc: "received = chunked_head ver code h1 h2 @ k_nhr_double_CRLF @ t"
    and sz: "sizeof_response \<le> mc_limit mc" "length received < 2 ^ 64"
  shows "nhr_response_create mc received received_len =
     r_bind (nhr_response_read_chunks mc (chunked_start code) t)
       (\<lambda>r. nhr_response_check_is_finished mc (nhr_response_fix_body_len r))"
proof -
  let ?pre = "ver @ '' '' @ dec_digits code @ '' '' @ h1" and ?r0 = "chunked_start code"
  obtain s where s: "c_string received = Inr s" "find_sub k_nhr_transfer_encoding s = Some (length ?pre)"
      "find_sub k_nhr_content_length s = None" "find_sub k_nhr_content_encoding s = None"
      and hd: "CHR '' '' \<notin> set ver" "NUL \<notin> set (chunked_head ver code h1 h2)" "0 < code" "code < 2 ^ 16"
      and sub: "strstr received k_nhr_double_CRLF = Inr (Some (k_nhr_double_CRLF @ t))"
    using cr rc by (auto simp: chunked_response_def split: sum.splits)
  have "NUL \<in> set received" using s(1) by (simp add: c_string_Inr_conv)
  then have nt: "NUL \<in> set (h2 @ k_nhr_double_CRLF @ t)" using hd(2) rc by (auto simp: chunked_head_def)
  have rc2: "received = ?pre @ k_nhr_transfer_encoding @ '': '' @ k_nhr_chunked @ h2 @ k_nhr_double_CRLF @ t"
    using rc by (simp add: chunked_head_def chunked_line_def)
  let ?r1 = "zero_response\<lparr>rs_status_code := of_nat code\<rparr>"
  have lz: "hd (dec_digits code) \<noteq> CHR ''0''" using hd(3) by (rule dec_digits_hd)
  have st: "nhr_response_parse_status_code zero_response received = Inr ?r1"
    using status_code_read [of received ver "dec_digits code" "CHR '' ''"
        "h1 @ k_nhr_transfer_encoding @ '': '' @ k_nhr_chunked @ h2 @ k_nhr_double_CRLF @ t" zero_response] rc2 hd nt lz
    by (auto simp: dec_digits_isdigit chunked_head_def chunked_line_def)
  have cl: "nhr_response_parse_content_length ?r1 received = Inr ?r1"
    using field_absent [OF s(1,3)] by (simp add: nhr_response_parse_content_length_def)
  have te: "nhr_response_parse_transfer_encoding ?r1 received = Inr ?r0"
    using transfer_encoding_read [OF s(1,2) rc2 nt] by (simp add: chunked_start_def zero_response_def)
  have ce: "nhr_response_parse_content_encoding ?r0 received = Inr ?r0"
    using field_absent [OF s(1,4)] by (simp add: nhr_response_parse_content_encoding_def)
  have nz: "(of_nat code :: 16 word) \<noteq> 0"
    using hd(3,4) unat_of_nat_len [of code, where 'a = 16] by auto
  let ?n = "length (chunked_head ver code h1 h2)"
  have "4 < ?n" by (simp add: chunked_head_def chunked_line_def k_nhr_transfer_encoding_def)
  moreover have "?n < 2 ^ 64" using sz(2) rc by simp
  ultimately have big: "(of_nat ?n :: size_t) > of_nat k_nhr_double_CRLF_length"
    by (simp add: word_less_nat_alt unat_of_nat_64 k_nhr_double_CRLF_length_def del: of_nat_add)
  have sk: "length received - length (k_nhr_double_CRLF @ t) = ?n" using rc by simp
  have pt: "ptr_add 4 (k_nhr_double_CRLF @ t) = Inr t" by (simp add: ptr_add_def k_nhr_double_CRLF_def)
  have "nhr_response_parse_body mc ?r0 received received_len
      = r_bind (nhr_response_read_chunks mc ?r0 t) (\<lambda>r. Inr (nhr_response_fix_body_len r))"
    using big by (simp add: nhr_response_parse_body_def sub sk pt Let_def is_chunked_def
        NHR_TRANSFER_ENCODING_CHUNKED_def k_nhr_double_CRLF_length_def del: length_append)
  then show ?thesis
    using st cl te ce nz sz(1)
    by (simp add: nhr_response_create_def nhr_malloc_zero_def nhr_malloc_ok sizeof_response_def r_bind_assoc)
qed

section \<open>Packets\<close>

definition chunk_packet :: "chunk list \<times> bytes \<Rightarrow> bytes \<times> bytes" where
  \<comment> \<open>a packet of whole chunks, and what the buffer holds behind it\<close>
  "chunk_packet p = (encode_chunks (fst p), snd p)"

definition chunks_data :: "(chunk list \<times> bytes) list \<Rightarrow> bytes" where
  "chunks_data ps = concat (map (\<lambda>p. concat (map snd (fst p))) ps)"

lemma chunks_data_simps [simp]:
  "chunks_data [] = []" "chunks_data (p # ps) = concat (map snd (fst p)) @ chunks_data ps"
  by (simp_all add: chunks_data_def)

definition chunk_inv :: "nat \<Rightarrow> nhr_response \<Rightarrow> bool" where
  \<comment> \<open>a chunked response that still waits for the last chunk\<close>
  "chunk_inv code r \<longleftrightarrow> resp_ok r \<and> rs_status_code r = of_nat code \<and> rs_content_length r = 0
     \<and> rs_transfer_encoding r = 1 \<and> rs_content_encoding r = 0
     \<and> \<not> rs_is_finished r \<and> \<not> rs_is_all_chunks_processed r"

lemma chunk_inv_sel: "chunk_inv code r \<Longrightarrow> is_chunked r" "chunk_inv code r \<Longrightarrow> \<not> is_gzip r \<and> \<not> is_deflate r"
  "chunk_inv code r \<Longrightarrow> nhr_response_fix_body_len r = r"
  by (simp_all add: chunk_inv_def is_chunked_def is_gzip_def is_deflate_def NHR_ENCODING_defs
      nhr_response_fix_body_len_def)

lemma chunk_inv_start [simp]: "chunk_inv code (chunked_start code)"
  by (simp add: chunk_inv_def)

lemma chunk_inv_open: "chunk_inv code r \<Longrightarrow> nhr_response_check_is_finished mc r = Inr r"
  by (simp add: nhr_response_check_is_finished_def nhr_response_is_finished_receiving_def chunk_inv_sel)
    (simp add: chunk_inv_def)

lemma read_whole_chunks:
  assumes "chunk_inv code r" "\<forall>c \<in> set cs. chunk_ok c" "no_chunk t"
    and "length (resp_content r) + length (concat (map snd cs)) \<le> body_limit mc"
  shows "\<exists>r'. nhr_response_read_chunks mc r (encode_chunks cs @ t) = Inr r' \<and> chunk_inv code r'
    \<and> resp_content r' = resp_content r @ concat (map snd cs)"
proof -
  have ok: "resp_ok r" "rs_content_length r = 0" using assms(1) by (simp_all add: chunk_inv_def)
  obtain r1 where r1: "add_pieces mc r (map snd cs) = Inr r1" "resp_ok r1"
      "resp_content r1 = resp_cut r (resp_content r @ concat (map snd cs))"
    using resp_sink.add_all_ok [OF ok(1) assms(4)] by blast
  have "same_header r r1 \<and> rs_is_all_chunks_processed r1 = rs_is_all_chunks_processed r"
    using add_all_same_header [OF r1(1) ok(1) assms(4)] .
  moreover have "nhr_response_read_chunks mc r (encode_chunks cs @ t) = Inr r1"
    by (rule trans [OF read_chunks_packet [OF assms(2,3)] r1(1)])
  ultimately show ?thesis
    using r1(2,3) assms(1) by (auto simp: chunk_inv_def same_header_def resp_cut_def)
qed

lemma append_chunk_packets:
  assumes "chunk_inv code r" "\<forall>p \<in> set ps. (\<forall>c \<in> set (fst p). chunk_ok c) \<and> no_chunk (snd p)"
    and "length (resp_content r) + length (chunks_data ps) \<le> body_limit mc"
  shows "\<exists>r'. append_packets mc r (map chunk_packet ps) = Inr r' \<and> chunk_inv code r'
    \<and> resp_content r' = resp_content r @ chunks_data ps"
  using assms
proof (induction ps arbitrary: r)
  case Nil
  then show ?case by simp
next
  case (Cons p ps)
  obtain r1 where r1: "nhr_response_read_chunks mc r (encode_chunks (fst p) @ snd p) = Inr r1"
      "chunk_inv code r1" "resp_content r1 = resp_content r @ concat (map snd (fst p))"
    using read_whole_chunks [OF Cons.prems(1), of "fst p" "snd p" mc] Cons.prems(2,3) by auto
  have "nhr_response_append mc r (encode_chunks (fst p) @ snd p) (of_nat (length (encode_chunks (fst p)))) = Inr r1"
    using r1(1) chunk_inv_sel [OF Cons.prems(1)] chunk_inv_open [OF r1(2)] by (simp add: nhr_response_append_def)
  with Cons.IH [OF r1(2)] Cons.prems(2,3) r1(3) show ?case by (auto simp: chunk_packet_def)
qed

definition chunked_done :: "nat \<Rightarrow> bytes \<Rightarrow> nhr_response \<Rightarrow> bool" where
  "chunked_done code d r \<longleftrightarrow> rs_is_finished r \<and> rs_status_code r = of_nat code \<and> resp_content r = d"

lemma read_last_packet:
  assumes "chunk_inv code r" "\<forall>c \<in> set cs. chunk_ok c" "last_chunk_ok zs" "NUL \<in> set rest"
    and "length (resp_content r) + length (concat (map snd cs)) \<le> body_limit mc"
  shows "\<exists>r1 r'. nhr_response_read_chunks mc r (encode_chunks cs @ zs @ k_nhr_double_CRLF @ rest) = Inr r1
    \<and> nhr_response_fix_body_len r1 = r1 \<and> nhr_response_check_is_finished mc r1 = Inr r'
    \<and> chunked_done code (resp_content r @ concat (map snd cs)) r'"
proof -
  have ok: "resp_ok r" "rs_content_length r = 0" using assms(1) by (simp_all add: chunk_inv_def)
  obtain r1 where r1: "nhr_response_read_chunks mc r (encode_chunks cs @ zs @ k_nhr_double_CRLF @ rest) = Inr r1"
      "resp_content r1 = resp_cut r (resp_content r @ concat (map snd cs))" "same_header r r1"
      "rs_is_all_chunks_processed r1"
    using read_chunks_whole [OF ok(1) assms(2-5)] by blast
  have h: "is_chunked r1" "\<not> is_gzip r1" "\<not> is_deflate r1" "rs_content_length r1 = 0" "rs_status_code r1 = of_nat code"
    using r1(3) assms(1)
    by (simp_all add: same_header_def chunk_inv_def is_chunked_def is_gzip_def is_deflate_def NHR_ENCODING_defs)
  have "nhr_response_check_is_finished mc r1 = Inr (r1\<lparr>rs_is_finished := True\<rparr>)"
    using h r1(4) by (simp add: nhr_response_check_is_finished_def nhr_response_is_finished_receiving_def)
  moreover have "chunked_done code (resp_content r @ concat (map snd cs)) (r1\<lparr>rs_is_finished := True\<rparr>)"
    using h r1(2) ok(2) by (simp add: chunked_done_def resp_cut_def resp_content_def)
  ultimately show ?thesis using r1(1) h(4) by (auto simp: nhr_response_fix_body_len_def)
qed

lemma chunked_received:
  assumes "chunked_response ver code h1 h2 received"
    and "received = chunked_head ver code h1 h2 @ k_nhr_double_CRLF @ encode_chunks cs @ t"
    and "length received < 2 ^ 64" "sizeof_response \<le> mc_limit mc"
    and "\<forall>c \<in> set cs. chunk_ok c" "no_chunk t"
    and "\<forall>p \<in> set ps. (\<forall>c \<in> set (fst p). chunk_ok c) \<and> no_chunk (snd p)"
    and "length (concat (map snd cs) @ chunks_data ps) \<le> body_limit mc"
  shows "\<exists>r. r_bind (nhr_response_create mc received n) (\<lambda>r. append_packets mc r (map chunk_packet ps)) = Inr r
    \<and> chunk_inv code r \<and> resp_content r = concat (map snd cs) @ chunks_data ps"
proof -
  obtain r1 where r1: "nhr_response_read_chunks mc (chunked_start code) (encode_chunks cs @ t) = Inr r1"
      "chunk_inv code r1" "resp_content r1 = concat (map snd cs)"
    using read_whole_chunks [OF chunk_inv_start assms(5,6), of code mc] assms(8) by auto
  have "nhr_response_create mc received n = Inr r1"
    using create_chunked [OF assms(1,2,4,3)] r1(1) chunk_inv_sel(3) [OF r1(2)] chunk_inv_open [OF r1(2)] by simp
  with append_chunk_packets [OF r1(2) assms(7), of mc] r1(3) assms(8) show ?thesis by auto
qed

text \<open>
  C26: a chunked response whose packets end between two chunks, provided that what the receive
  buffer holds behind each packet but the last does not read as the length of a chunk: up to the
  last packet the response is not finished and holds the data of all chunks so far; the packet with
  the last chunk finishes it, and it holds the data of all chunks, in order, with the peer's status
  code.
\<close>

theorem chunked_response_received:
  assumes "chunked_response ver code h1 h2 received"
    and "received = chunked_head ver code h1 h2 @ k_nhr_double_CRLF @ encode_chunks cs @ t"
    and "length received < 2 ^ 64" "sizeof_response \<le> mc_limit mc"
    and "\<forall>c \<in> set cs. chunk_ok c" "no_chunk t"
    and "\<forall>p \<in> set ps. (\<forall>c \<in> set (fst p). chunk_ok c) \<and> no_chunk (snd p)"
    and "\<forall>c \<in> set es. chunk_ok c" "last_chunk_ok zs" "NUL \<in> set rest"
    and "length (concat (map snd cs) @ chunks_data ps @ concat (map snd es)) \<le> body_limit mc"
  shows "\<exists>r r'. r_bind (nhr_response_create mc received n) (\<lambda>r. append_packets mc r (map chunk_packet ps)) = Inr r
    \<and> \<not> rs_is_finished r \<and> resp_content r = concat (map snd cs) @ chunks_data ps
    \<and> nhr_response_append mc r (encode_chunks es @ zs @ k_nhr_double_CRLF @ rest) m = Inr r'
    \<and> rs_is_finished r' \<and> rs_status_code r' = of_nat code
    \<and> resp_content r' = concat (map snd cs) @ chunks_data ps @ concat (map snd es)"
proof -
  obtain r where r: "r_bind (nhr_response_create mc received n) (\<lambda>r. append_packets mc r (map chunk_packet ps)) = Inr r"
      "chunk_inv code r" "resp_content r = concat (map snd cs) @ chunks_data ps"
    using chunked_received [OF assms(1-7), of n] assms(11) by auto
  obtain r1 r' where r1: "nhr_response_read_chunks mc r (encode_chunks es @ zs @ k_nhr_double_CRLF @ rest) = Inr r1"
      "nhr_response_check_is_finished mc r1 = Inr r'" "chunked_done code (resp_content r @ concat (map snd es)) r'"
    using read_last_packet [OF r(2) assms(8-10), of mc] assms(11) r(3) by auto
  then have "nhr_response_append mc r (encode_chunks es @ zs @ k_nhr_double_CRLF @ rest) m = Inr r'"
    using chunk_inv_sel(1) [OF r(2)] by (simp add: nhr_response_append_def)
  with r r1(3) show ?thesis by (auto simp: chunked_done_def chunk_inv_def)
qed

lemma example_chunked_head:
  "chunked_head ''HTTP/1.1'' 200 (''OK'' @ k_nhr_CRLF) []
     = ''HTTP/1.1 200 OK'' @ [CR, LF] @ ''Transfer-Encoding: chunked''"
  by (simp add: chunked_head_def chunked_line_def k_nhr_defs dec_digits.simps digit_char_def char_of_def bit_0)

definition example_chunked :: "bytes \<Rightarrow> bytes" where
  "example_chunked t = chunked_head ''HTTP/1.1'' 200 (''OK'' @ k_nhr_CRLF) [] @ k_nhr_double_CRLF @ t"

lemma example_chunks_ok:
  "\<forall>c \<in> set [(''3'', ''abc'')]. chunk_ok c" "\<forall>c \<in> set [(''2'', ''de'')]. chunk_ok c" "last_chunk_ok ''0''"
  by (auto simp: chunk_ok_def last_chunk_ok_def ctype_defs digits_value_def xdigit_val_def)

lemma example_encode: "encode_chunks [(''3'', ''abc'')] = ''3'' @ [CR, LF] @ ''abc'' @ [CR, LF]"
  by (simp add: k_nhr_CRLF_def)

lemma example_chunked_response:
  "chunked_response ''HTTP/1.1'' 200 (''OK'' @ k_nhr_CRLF) [] (example_chunked (encode_chunks [(''3'', ''abc'')] @ ''xy'' @ [NUL]))"
  unfolding chunked_response_def example_chunked_def example_chunked_head example_encode
  by (simp add: strstr_def c_string_def k_nhr_defs dec_digits.simps)

theorem chunked_response_received_witness:
  "\<exists>r r'. r_bind (nhr_response_create example_gz_mach (example_chunked (encode_chunks [(''3'', ''abc'')] @ ''xy'' @ [NUL])) 53)
       (\<lambda>r. append_packets example_gz_mach r (map chunk_packet [([(''2'', ''de'')], CR # LF # ''z1'' @ [NUL])])) = Inr r
     \<and> resp_content r = ''abcde''
     \<and> nhr_response_append example_gz_mach r (encode_chunks [(''3'', ''abc'')] @ ''0'' @ k_nhr_double_CRLF @ [NUL]) 13 = Inr r'
     \<and> rs_is_finished r' \<and> resp_content r' = ''abcdeabc''"
proof -
  let ?rc = "example_chunked (encode_chunks [(''3'', ''abc'')] @ ''xy'' @ [NUL])"
  have l: "length ?rc < 2 ^ 64" unfolding example_chunked_def example_chunked_head by (simp add: k_nhr_defs)
  have p: "\<forall>p \<in> set [([(''2'', ''de'')], CR # LF # ''z1'' @ [NUL])]. (\<forall>c \<in> set (fst p). chunk_ok c) \<and> no_chunk (snd p)"
    using example_chunks_ok(2) example_tails(2) by simp
  show ?thesis
    using chunked_response_received [where mc = example_gz_mach and n = 53 and m = 13 and rest = "[NUL]",
        OF example_chunked_response example_chunked_def l _ example_chunks_ok(1) example_tails(1) p example_chunks_ok(1,3)]
    by (auto simp: sizeof_response_def)
qed

section \<open>A packet shorter than the one before it\<close>

text \<open>
  C37: the receive buffer is never cleared and a chunked packet is parsed up to what is no chunk.
  When a packet is as long as the first chunks of the packet before it, the other chunks
  of that packet still lie behind it in the buffer, and their data is stored a second time.
\<close>

theorem chunks_read_twice:
  assumes "chunk_inv code r" "\<forall>c \<in> set (cs @ ds @ es). chunk_ok c"
    and "length (encode_chunks es) = length (encode_chunks cs)"
    and "p1 = encode_chunks (cs @ ds)" "p2 = encode_chunks es"
    and "length (resp_content r) + length (concat (map snd (cs @ ds @ es @ ds))) \<le> body_limit mc"
  shows "\<exists>r'. append_packets mc r [(p1, NUL # stale), (p2, drop (length p2) (p1 @ NUL # stale))] = Inr r'
    \<and> resp_content r' = resp_content r @ concat (map snd (cs @ ds @ es @ ds))"
proof -
  have buf: "p2 @ drop (length p2) (p1 @ NUL # stale) = encode_chunks (es @ ds) @ NUL # stale"
    using assms(3) by (simp add: assms(4,5) encode_chunks_append)
  obtain r1 where r1: "nhr_response_read_chunks mc r (p1 @ NUL # stale) = Inr r1" "chunk_inv code r1"
      "resp_content r1 = resp_content r @ concat (map snd (cs @ ds))"
    using read_whole_chunks [OF assms(1), of "cs @ ds" "NUL # stale" mc] assms(2,6) by (auto simp: assms(4))
  obtain r2 where r2: "nhr_response_read_chunks mc r1 (encode_chunks (es @ ds) @ NUL # stale) = Inr r2" "chunk_inv code r2"
      "resp_content r2 = resp_content r1 @ concat (map snd (es @ ds))"
    using read_whole_chunks [OF r1(2), of "es @ ds" "NUL # stale" mc] assms(2,6) r1(3) by auto
  have "nhr_response_append mc r (p1 @ NUL # stale) (of_nat (length p1)) = Inr r1"
    using r1(1) chunk_inv_sel(1) [OF assms(1)] chunk_inv_open [OF r1(2)] by (simp add: nhr_response_append_def)
  moreover have "nhr_response_append mc r1 (p2 @ drop (length p2) (p1 @ NUL # stale)) (of_nat (length p2)) = Inr r2"
    unfolding buf using r2(1) chunk_inv_sel(1) [OF r1(2)] chunk_inv_open [OF r2(2)] by (simp add: nhr_response_append_def)
  ultimately show ?thesis using r1(3) r2(3) by auto
qed

theorem chunks_read_twice_witness:
  "\<exists>r'. append_packets example_gz_mach (chunked_start 200)
       [(encode_chunks ([(''3'', ''abc'')] @ [(''2'', ''de'')]), [NUL]),
        (encode_chunks [(''3'', ''xyz'')], drop 8 (encode_chunks ([(''3'', ''abc'')] @ [(''2'', ''de'')]) @ [NUL]))] = Inr r'
     \<and> resp_content r' = ''abcdexyzde''"
proof -
  have c: "\<forall>c \<in> set ([(''3'', ''abc'')] @ [(''2'', ''de'')] @ [(''3'', ''xyz'')]). chunk_ok c"
    by (auto simp: chunk_ok_def ctype_defs digits_value_def xdigit_val_def)
  show ?thesis
    using chunks_read_twice [where mc = example_gz_mach and stale = "[]" and code = 200, OF chunk_inv_start c _ refl refl]
    by (simp add: k_nhr_CRLF_def)
qed

end
