(* ===== verification/Nhr_Worker_Post.thy ===== *)
theory Nhr_Worker_Post
  imports Nhr_Worker_Runs Nhr_Response_Chunked
begin

text \<open>
  An upload from the first command to the deletion of the request: a POST request with data
  parameters, answered by a chunked response.
\<close>

lemma multipart_sends:
  assumes "rq_method r = Some nhr_method_POST"
    and "rq_path r = Some (cstr path)" "NUL \<notin> set path" "rq_host r = Some (cstr host)" "NUL \<notin> set host"
    and "map_holds (rq_http_headers r) hs"
    and "rq_is_have_data_parameter r" "rq_boundary r = Some (cstr bd)" "NUL \<notin> set bd" "length bd = 12"
    and "entries.content (rq_parameters r) = map part_record parts" "\<forall>p \<in> set parts. part_ok p"
    and "(\<Sum>p \<leftarrow> parts. length (part_text p) + 19) + 256 \<le> mc_limit mc"
    and "body = multipart_text bd parts" "length body < 2 ^ 64"
    and "length (post_text r path host (hs @ multipart_headers bd body) body) + 256 \<le> mc_limit mc"
  shows "sends mc r (post_text r path host (hs @ multipart_headers bd body) body)"
  unfolding sends_def
proof (intro conjI allI impI)
  let ?t = "post_text r path host (hs @ multipart_headers bd body) body"
  show "?t \<noteq> []" by (simp add: post_text_def)
  fix q assume "same_message r q"
  then obtain fd lt c where q: "q = r\<lparr>rq_socket := fd, rq_last_time := lt, rq_command := c\<rparr>"
    by (auto simp: same_message_def)
  have t: "post_text q path host (hs @ multipart_headers bd body) body = ?t"
    by (simp add: q post_text_def host_text_def)
  have sel: "rq_path q = Some (cstr path)" "rq_host q = Some (cstr host)" "map_holds (rq_http_headers q) hs"
      "rq_is_have_data_parameter q" "rq_boundary q = Some (cstr bd)"
      "entries.content (rq_parameters q) = map part_record parts" "rq_method q = Some nhr_method_POST"
    using assms by (simp_all add: q)
  from multipart_message [OF sel(1) assms(3) sel(2) assms(5) sel(3-5) assms(9,10) sel(6) assms(12-15), unfolded t, OF assms(16)]
  obtain blk q' where blk: "nhr_request_create_header_POST mc q = Inr ((Some blk, length ?t), q')"
      "take (length ?t + 1) blk = ?t @ [NUL]" by blast
  have "length (take (length ?t + 1) blk) = length ?t + 1" using blk(2) by simp
  then have "length ?t \<le> length blk" by simp
  moreover have "take (length ?t) blk = take (length ?t) (take (length ?t + 1) blk)" by simp
  then have "take (length ?t) blk = ?t" unfolding blk(2) by simp
  ultimately show "\<exists>blk q'. create_header mc q = Inr ((Some blk, length ?t), q')
      \<and> length ?t \<le> length blk \<and> take (length ?t) blk = ?t"
    using blk(1) sel(7) by (auto simp: create_header_def)
qed

lemma chunked_answer:
  assumes "chunked_response ver code h1 h2 (first @ drop (length first) buff)"
    and first: "first = chunked_head ver code h1 h2 @ k_nhr_double_CRLF @ encode_chunks cs @ zs @ k_nhr_double_CRLF"
    and "NUL \<in> set (drop (length first) buff)" "\<forall>c \<in> set cs. chunk_ok c" "last_chunk_ok zs"
    and "length (first @ drop (length first) buff) < 2 ^ 64" "sizeof_response \<le> mc_limit mc"
    and "length (concat (map snd cs)) \<le> body_limit mc"
  shows "\<exists>rs. answer mc buff first [] rs \<and> chunked_done code (concat (map snd cs)) rs"
proof -
  let ?st = "drop (length first) buff"
  have rc: "first @ ?st = chunked_head ver code h1 h2 @ k_nhr_double_CRLF
      @ (encode_chunks cs @ zs @ k_nhr_double_CRLF @ ?st)"
    by (subst (1) first) simp
  obtain r1 rs where "nhr_response_read_chunks mc (chunked_start code) (encode_chunks cs @ zs @ k_nhr_double_CRLF @ ?st) = Inr r1"
      "nhr_response_fix_body_len r1 = r1" "nhr_response_check_is_finished mc r1 = Inr rs"
      "chunked_done code (concat (map snd cs)) rs"
    using read_last_packet [OF chunk_inv_start assms(4,5,3), of code mc] assms(8) by auto
  with create_chunked [OF assms(1) rc assms(7,6), of "of_nat (length first)"] show ?thesis
    by (auto simp: answer_def chunked_done_def)
qed

text \<open>
  C2: A POST request with data parameters, sent to a host that answers with a chunked response in
  one packet: the worker connects, sends exactly the multipart message, decodes the chunks, calls
  \<open>on_recvd_response\<close> once with the peer's status code and the joined data of the chunks, closes
  the socket, deletes the request and ends.
\<close>

theorem post_exchange:
  assumes "connecting s" "rq_method (sy_req s) = Some nhr_method_POST"
    and "rq_path (sy_req s) = Some (cstr path)" "NUL \<notin> set path"
    and "rq_host (sy_req s) = Some (cstr host)" "NUL \<notin> set host"
    and "map_holds (rq_http_headers (sy_req s)) hs"
    and "rq_is_have_data_parameter (sy_req s)" "rq_boundary (sy_req s) = Some (cstr bd)" "NUL \<notin> set bd" "length bd = 12"
    and "entries.content (rq_parameters (sy_req s)) = map part_record parts" "\<forall>p \<in> set parts. part_ok p"
    and "(\<Sum>p \<leftarrow> parts. length (part_text p) + 19) + 256 \<le> mc_limit mc"
    and "body = multipart_text bd parts" "length body < 2 ^ 64"
    and "msg = post_text (sy_req s) path host (hs @ multipart_headers bd body) body" "length msg + 256 \<le> mc_limit mc"
    and "host_answers s p fd (length msg) [first]" "sy_buffs s = buff # bs"
    and "chunked_response ver code h1 h2 (first @ drop (length first) buff)"
    and "first = chunked_head ver code h1 h2 @ k_nhr_double_CRLF @ encode_chunks cs @ zs @ k_nhr_double_CRLF"
    and "NUL \<in> set (drop (length first) buff)" "\<forall>c \<in> set cs. chunk_ok c" "last_chunk_ok zs"
    and "length (first @ drop (length first) buff) < 2 ^ 64" "sizeof_response \<le> mc_limit mc"
    and "length (concat (map snd cs)) \<le> body_limit mc"
  shows "\<exists>t rs. (works mc)\<^sup>*\<^sup>* s t \<and> sy_pc t = Done \<and> sy_log t = sy_log s @ exchange_log p fd msg rs
    \<and> rs_status_code rs = of_nat code \<and> resp_content rs = concat (map snd cs)"
proof -
  have "sends mc (sy_req s) msg"
    unfolding assms(17) by (rule multipart_sends [OF assms(2-16)]) (use assms(17,18) in simp)
  moreover obtain rs where "answer mc buff first [] rs" "chunked_done code (concat (map snd cs)) rs"
    using chunked_answer [OF assms(21-28)] by blast
  ultimately show ?thesis
    using exchange [OF assms(1,19,20)] unfolding chunked_done_def by blast
qed

abbreviation "upload_parts \<equiv> [File_part ''f'' ''a.bin'' [NUL, CHR 0xFF], Text_part ''k'' ''v'']"

abbreviation "upload_body \<equiv> multipart_text ''0123456789AB'' upload_parts"

abbreviation "upload_text \<equiv>
  post_text example_upload ''/up'' ''h.org'' ([] @ multipart_headers ''0123456789AB'' upload_body) upload_body"

abbreviation "upload_answer \<equiv> chunked_head ''HTTP/1.1'' 200 (''OK'' @ k_nhr_CRLF) [] @ k_nhr_double_CRLF
  @ encode_chunks [(''3'', ''abc''), (''2'', ''de'')] @ ''0'' @ k_nhr_double_CRLF"

definition upload_sys :: sys where
  \<comment> \<open>an upload on its way, and a host that answers in two chunks\<close>
  "upload_sys = \<lparr>sy_req = example_upload\<lparr>rq_command := NHR_COMMAND_CONNECT_TO_HOST, rq_work_thread := Some 9,
       rq_on_recvd_response := Some 1, rq_on_error := Some 2\<rparr>,
     sy_pc = Loop_test, sy_start = Started, sy_cancelled = False, sy_errno = 0,
     sy_clock = [100, 101, 101, 102, 103, 104], sy_buffs = [replicate 100 NUL],
     sy_recv = [Recv_data upload_answer, Recv_fail EAGAIN], sy_send = [Sent (length upload_text)],
     sy_addr = [Addr_list [7]], sy_sock = [Sock 3], sy_conn = [Conn_ok], sy_opts = [Opt_fail 92], sy_log = []\<rparr>"

lemma upload_sys_sel:
  "rq_method (sy_req upload_sys) = Some nhr_method_POST"
  "rq_path (sy_req upload_sys) = Some (cstr ''/up'')" "rq_host (sy_req upload_sys) = Some (cstr ''h.org'')"
  "map_holds (rq_http_headers (sy_req upload_sys)) []" "rq_is_have_data_parameter (sy_req upload_sys)"
  "rq_boundary (sy_req upload_sys) = Some (cstr ''0123456789AB'')"
  "entries.content (rq_parameters (sy_req upload_sys)) = map part_record upload_parts"
  "sy_buffs upload_sys = replicate 100 NUL # []" "sy_log upload_sys = []"
  "post_text (sy_req upload_sys) path host hs body = post_text example_upload path host hs body"
  by (simp_all add: upload_sys_def example_upload_def new_request_def map_holds_def entries.full_def
      entries.content_def fields_ok_def post_text_def host_text_def)

lemma upload_sys_connecting: "connecting upload_sys"
  by (simp add: connecting_def upload_sys_def cmd_def no_socket_def callbacks_set_def example_upload_def
      new_request_def)

lemma upload_sys_answers: "host_answers upload_sys 7 3 (length upload_text) [upload_answer]"
proof -
  have "sy_clock upload_sys = [100, 101, 101, 102, 103, 104] @ []"
      "within [100, 101, 101, 102, 103, 104] (rq_timeout (sy_req upload_sys))"
    by (simp_all add: upload_sys_def within_def example_upload_def new_request_def)
  moreover have "length [100, 101, 101, 102, 103, 104 :: int] = length [upload_answer] + 5" by simp
  ultimately have "\<exists>ts later. sy_clock upload_sys = ts @ later \<and> length ts = length [upload_answer] + 5
      \<and> within ts (rq_timeout (sy_req upload_sys))" by blast
  moreover have "sy_recv upload_sys = map Recv_data [upload_answer] @ Recv_fail EAGAIN # []"
      "sy_send upload_sys = Sent (length upload_text) # []" "sy_addr upload_sys = Addr_list (7 # []) # []"
      "sy_sock upload_sys = Sock 3 # []" "sy_conn upload_sys = Conn_ok # []"
    by (simp_all add: upload_sys_def)
  ultimately show ?thesis by (simp add: host_answers_def NHR_INVALID_SOCKET_def)
qed

lemma upload_small: "length upload_body < 300" "length upload_text < 600"
proof -
  show b: "length upload_body < 300" by (simp add: multipart_text_def joined_def quoted_def)
  have "length (dec_digits (length upload_body)) \<le> 20" using b by (intro dec_digits_64) simp
  then show "length upload_text < 600"
    using b host_text_length [of example_upload "''h.org''"]
    by (auto simp: post_text_def headers_text_def multipart_headers_def body_headers_def
        k_nhr_content_type_def k_nhr_content_length_def joined_def field_text_def simp del: dec_digits.simps)
qed

lemma upload_answer_text:
  "upload_answer = ''HTTP/1.1 200 OK'' @ [CR, LF] @ ''Transfer-Encoding: chunked'' @ [CR, LF, CR, LF]
     @ ''3'' @ [CR, LF] @ ''abc'' @ [CR, LF] @ ''2'' @ [CR, LF] @ ''de'' @ [CR, LF] @ ''0'' @ [CR, LF, CR, LF]"
  unfolding example_chunked_head by (simp add: k_nhr_defs)

lemma upload_buffer: "drop (length upload_answer) (replicate 100 NUL) = NUL # replicate 32 NUL"
  unfolding upload_answer_text by (simp add: eval_nat_numeral)


lemma upload_answer_chunked:
  "chunked_response ''HTTP/1.1'' 200 (''OK'' @ k_nhr_CRLF) []
     (upload_answer @ drop (length upload_answer) (replicate 100 NUL))"
  "length (upload_answer @ drop (length upload_answer) (replicate 100 NUL)) < 2 ^ 64"
  unfolding upload_buffer chunked_response_def upload_answer_text example_chunked_head
  by (simp_all add: strstr_def c_string_def k_nhr_defs dec_digits.simps)

lemma upload_chunks_ok: "\<forall>c \<in> set [(''3'', ''abc''), (''2'', ''de'')]. chunk_ok c" "last_chunk_ok ''0''"
  using example_chunks_ok by auto

theorem post_exchange_witness:
  "\<exists>t rs. (works example_gz_mach)\<^sup>*\<^sup>* upload_sys t \<and> sy_pc t = Done
    \<and> sy_log t = exchange_log 7 3 upload_text rs \<and> rs_status_code rs = 200 \<and> resp_content rs = ''abcde''"
proof -
  have p: "(\<Sum>p \<leftarrow> upload_parts. length (part_text p) + 19) + 256 \<le> mc_limit example_gz_mach"
    by (simp add: quoted_def)
  have o: "\<forall>p \<in> set upload_parts. part_ok p" by simp
  have n: "NUL \<in> set (drop (length upload_answer) (replicate 100 NUL))" unfolding upload_buffer by simp
  have "\<exists>t rs. (works example_gz_mach)\<^sup>*\<^sup>* upload_sys t \<and> sy_pc t = Done
    \<and> sy_log t = sy_log upload_sys @ exchange_log 7 3 upload_text rs
    \<and> rs_status_code rs = of_nat 200 \<and> resp_content rs = concat (map snd [(''3'', ''abc''), (''2'', ''de'')])"
    by (rule post_exchange [OF upload_sys_connecting upload_sys_sel(1,2) _ upload_sys_sel(3) _ upload_sys_sel(4-6) _ _
        upload_sys_sel(7) o p refl _ _ _ upload_sys_answers upload_sys_sel(8) upload_answer_chunked(1) _ n
        upload_chunks_ok upload_answer_chunked(2)])
      (use upload_small in \<open>simp_all add: upload_sys_sel(10) sizeof_response_def\<close>)
  then show ?thesis unfolding upload_sys_sel(9) by simp
qed


end
