(* ===== verification/Nhr_Client.thy ===== *)
theory Nhr_Client
  imports Nhr_Worker_Runs
begin

text \<open>
  The calls of a client, from nhr_request_create to nhr_request_send, and the message that the
  worker will send for them: the public interface composed with the construction of the text.
\<close>

section \<open>What the calls leave alone\<close>

definition same_setup :: "nhr_request \<Rightarrow> nhr_request \<Rightarrow> bool" where
  \<comment> \<open>the fields that no call for a header field or a parameter changes\<close>
  "same_setup r r' \<longleftrightarrow> rq_port r' = rq_port r \<and> rq_socket r' = rq_socket r \<and> rq_scheme r' = rq_scheme r
     \<and> rq_host r' = rq_host r \<and> rq_path r' = rq_path r \<and> rq_method r' = rq_method r
     \<and> rq_on_recvd_response r' = rq_on_recvd_response r \<and> rq_on_error r' = rq_on_error r
     \<and> rq_response r' = rq_response r \<and> rq_timeout r' = rq_timeout r"

lemma same_setup_refl [simp]: "same_setup r r"
  by (simp add: same_setup_def)

lemma same_setup_trans: "same_setup r s \<Longrightarrow> same_setup s t \<Longrightarrow> same_setup r t"
  by (simp add: same_setup_def)

lemma same_setup_updates [simp]:
  "same_setup r (u\<lparr>rq_http_headers := m\<rparr>) \<longleftrightarrow> same_setup r u"
  "same_setup r (u\<lparr>rq_is_gziped := b\<rparr>) \<longleftrightarrow> same_setup r u"
  "same_setup r (u\<lparr>rq_is_deflated := b\<rparr>) \<longleftrightarrow> same_setup r u"
  "same_setup r (u\<lparr>rq_parameters := m\<rparr>) \<longleftrightarrow> same_setup r u"
  "same_setup r (u\<lparr>rq_is_have_data_parameter := b\<rparr>) \<longleftrightarrow> same_setup r u"
  "same_setup r (u\<lparr>rq_boundary := d\<rparr>) \<longleftrightarrow> same_setup r u"
  by (simp_all add: same_setup_def)

lemma rq_add_header_setup:
  assumes "rq_add_header_field mc r a b = Inr r'"
  shows "same_setup r r'"
proof -
  have "(if q then Inr r else r_bind x (\<lambda>es. r_bind y (\<lambda>v.
      let r = r\<lparr>rq_http_headers := Some es\<rparr>; r = (if v = k_nhr_gzip then r\<lparr>rq_is_gziped := True\<rparr> else r);
          r = (if v = k_nhr_deflate then r\<lparr>rq_is_deflated := True\<rparr> else r) in Inr r))) = Inr r'
      \<Longrightarrow> same_setup r r'" for q x y
    by (cases q; cases x; cases y) (auto simp: Let_def)
  with assms show ?thesis unfolding rq_add_header_field_def r_bind_Inr_conv by blast
qed

lemma generate_boundary_setup:
  assumes "nhr_request_generate_new_boundary mc r = Inr r'"
  shows "same_setup r r'"
proof -
  obtain b where "r' = r\<lparr>rq_boundary := b\<rparr>"
    using assms unfolding nhr_request_generate_new_boundary_def Let_def r_bind_Inr_conv by blast
  then show ?thesis by (simp add: same_setup_def)
qed

lemma run_call_setup:
  assumes "run_call mc (Some r) c = Inr (Some r')"
  shows "same_setup r r'"
proof (cases c)
  case (Add_header k v)
  with assms show ?thesis
    by (auto simp: nhr_request_add_header_field_def r_bind_Inr_conv dest: rq_add_header_setup)
next
  case (Add_parameter k v)
  with assms show ?thesis
    by (auto simp: nhr_request_add_parameter_def r_bind_Inr_conv same_setup_def split: if_splits)
next
  case (Add_data k f d)
  have "same_setup (r\<lparr>rq_parameters := p, rq_is_have_data_parameter := True\<rparr>) u \<longleftrightarrow> same_setup r u" for p u
    by (simp add: same_setup_def)
  with Add_data assms show ?thesis
    by (auto simp: nhr_request_add_data_parameter_def r_bind_Inr_conv Let_def split: if_splits
        dest!: generate_boundary_setup)
qed

lemma api_calls_setup:
  assumes "sizes_fit mc" "request_ok r" "rq_method r \<noteq> None" "\<forall>c \<in> set cs. call_ok mc c"
    and "api_calls mc (Some r) cs = Inr (Some r')"
  shows "same_setup r r'"
  using assms(2-)
proof (induction cs arbitrary: r)
  case Nil
  then show ?case by simp
next
  case (Cons c cs)
  have "call_ok mc c" using Cons.prems(3) by simp
  from api_call_ok [OF assms(1) Cons.prems(1,2) this] obtain r1 where
    r1: "run_call mc (Some r) c = Inr (Some r1)" "request_ok r1" "rq_method r1 = rq_method r" by blast
  have "same_setup r1 r'" using Cons.IH [OF r1(2)] Cons.prems r1(1,3) by simp
  with run_call_setup [OF r1(1)] show ?case by (rule same_setup_trans)
qed

section \<open>A client that sends a GET request\<close>

definition client_calls ::
    "'z gz_mach \<Rightarrow> nhr_method \<Rightarrow> string \<Rightarrow> string \<Rightarrow> string \<Rightarrow> 16 word \<Rightarrow> handle \<Rightarrow> handle \<Rightarrow> api_call list
       \<Rightarrow> nhr_request option res" where
  \<comment> \<open>the order of the calls in the example of libnhr.h\<close>
  "client_calls mc m scheme host path port on_recvd on_err cs =
     r_bind (nhr_request_create mc) (\<lambda>r.
     r_bind (nhr_request_set_url mc r (Some (cstr scheme)) (Some (cstr host)) (Some (cstr path)) port) (\<lambda>r.
     api_calls mc (nhr_request_set_on_error (nhr_request_set_on_recvd_response
       (nhr_request_set_method r (Some m)) on_recvd) on_err) cs))"

fun headers_given :: "api_call list \<Rightarrow> (string \<times> string) list" where
  "headers_given [] = []"
| "headers_given (Add_header k v # cs) = (k, v) # headers_given cs"
| "headers_given (_ # cs) = headers_given cs"

fun parameters_given :: "api_call list \<Rightarrow> (string \<times> string) list" where
  "parameters_given [] = []"
| "parameters_given (Add_parameter k v # cs) = (k, v) # parameters_given cs"
| "parameters_given (_ # cs) = parameters_given cs"

fun no_data :: "api_call \<Rightarrow> bool" where
  "no_data (Add_data k f d) \<longleftrightarrow> False"
| "no_data _ \<longleftrightarrow> True"

lemma headers_given_records: "concat (map call_headers cs) = string_records (headers_given cs)"
  by (induction cs rule: headers_given.induct) simp_all

lemma parameters_given_records:
  "\<forall>c \<in> set cs. no_data c \<Longrightarrow> concat (map call_parameters cs) = string_records (parameters_given cs)"
  by (induction cs rule: parameters_given.induct) simp_all

lemma given_fields_ok:
  assumes "\<forall>c \<in> set cs. call_ok mc c"
  shows "fields_ok (headers_given cs)" "fields_ok (parameters_given cs)"
  using assms
  by (induction cs rule: headers_given.induct) (auto simp: fields_ok_def text_arg_def)

lemma string_copied: "text_arg mc s \<Longrightarrow> nhr_string_copy mc (Some (cstr s)) = Inr (Some (cstr s))"
  using nhr_string_copy_string [of "cstr s" s mc] by (simp add: text_arg_def)

text \<open>
  C4: whatever header fields and string parameters a client gives a GET request, in whatever
  order: its calls succeed, nhr_request_send accepts the request and leaves it to the worker,
  ready to connect, and the message that the worker will send is determined by what was given:
  the request line with all parameters, the host with the port, and the header fields.
\<close>

theorem client_get_sent:
  assumes "sizes_fit mc" "sizeof_request \<le> mc_limit mc" "text_arg mc scheme" "text_arg mc host" "text_arg mc path"
    and "\<forall>c \<in> set cs. call_ok mc c \<and> no_data c" "on_recvd \<noteq> None" "on_err \<noteq> None" "th \<noteq> None"
    and "msg = get_text (new_request\<lparr>rq_port := port\<rparr>) path host (headers_given cs) (parameters_given cs)"
    and "length msg + 256 \<le> mc_limit mc"
  shows "\<exists>r r'. client_calls mc nhr_method_GET scheme host path port on_recvd on_err cs = Inr (Some r)
    \<and> nhr_request_send th (Some r) = (True, Some r') \<and> sends mc r' msg
    \<and> (\<forall>s. sy_req s = r' \<and> sy_pc s = Loop_test \<and> sy_start s = Started \<longrightarrow> connecting s)"
proof -
  let ?r = "new_request\<lparr>rq_scheme := Some (cstr scheme), rq_host := Some (cstr host), rq_path := Some (cstr path),
    rq_port := port, rq_method := Some nhr_method_GET, rq_on_recvd_response := on_recvd, rq_on_error := on_err\<rparr>"
  have cr: "client_calls mc nhr_method_GET scheme host path port on_recvd on_err cs = api_calls mc (Some ?r) cs"
    using assms(2-5)
    by (simp add: client_calls_def nhr_request_create_def nhr_malloc_zero_def nhr_malloc_ok sizeof_request_def
        nhr_request_set_url_def string_copied nhr_request_set_method_def nhr_request_set_on_error_def
        nhr_request_set_on_recvd_response_def)
  have ok: "request_ok ?r" "rq_method ?r \<noteq> None" "\<forall>c \<in> set cs. call_ok mc c" "\<forall>c \<in> set cs. no_data c"
    using request_ok_new assms(6) by (auto simp: request_ok_def)
  obtain r where r: "api_calls mc (Some ?r) cs = Inr (Some r)" "request_ok r"
      "entries.content (rq_http_headers r) = string_records (headers_given cs)"
      "entries.content (rq_parameters r) = string_records (parameters_given cs)"
    using api_calls_ok [OF assms(1) ok(1-3)] headers_given_records [of cs] parameters_given_records [OF ok(4)]
    by (auto simp: new_request_def entries.content_def)
  have su: "same_setup ?r r" using api_calls_setup [OF assms(1) ok(1-3) r(1)] .
  define r' where "r' = r\<lparr>rq_error_code := nhr_error_code_none, rq_work_thread := th, rq_command := NHR_COMMAND_CONNECT_TO_HOST\<rparr>"
  have h: "rq_path r' = Some (cstr path)" "rq_host r' = Some (cstr host)" "rq_port r' = port"
      "rq_method r' = Some nhr_method_GET" "rq_on_recvd_response r' = on_recvd" "rq_on_error r' = on_err"
      "rq_socket r' = NHR_INVALID_SOCKET" "rq_response r' = None" "rq_scheme r' = Some (cstr scheme)"
    using su by (simp_all add: r'_def same_setup_def new_request_def)
  have cm: "rq_command r' = NHR_COMMAND_CONNECT_TO_HOST" by (simp add: r'_def)
  have m: "map_holds (rq_http_headers r') (headers_given cs)" "map_holds (rq_parameters r') (parameters_given cs)"
    using r(2-4) given_fields_ok [OF ok(3)] by (simp_all add: r'_def map_holds_def request_ok_def)
  have t: "get_text r' path host (headers_given cs) (parameters_given cs) = msg"
    using h(3) by (simp add: assms(10) get_text_def host_text_def)
  have nn: "NUL \<notin> set path" "NUL \<notin> set host" using assms(4,5) by (simp_all add: text_arg_def)
  have "nhr_request_send th (Some r) = (True, Some r')"
    using h assms(7-9) by (simp add: r'_def nhr_request_send_def nhr_request_create_start_work_thread_def
        nhr_request_set_command_def)
  moreover have "sends mc r' msg"
    using get_sends [OF h(4,1) nn(1) h(2) nn(2) m, unfolded t, OF assms(11)] .
  moreover have "\<forall>s. sy_req s = r' \<and> sy_pc s = Loop_test \<and> sy_start s = Started \<longrightarrow> connecting s"
    using h(5-8) cm assms(7,8) by (auto simp: connecting_def cmd_def no_socket_def callbacks_set_def)
  ultimately show ?thesis using cr r(1) by auto
qed

theorem client_get_sent_witness:
  "\<exists>r r'. client_calls example_gz_mach nhr_method_GET ''http'' ''h.org'' ''/get'' 8080 (Some 1) (Some 2)
        [Add_parameter ''a'' ''1'', Add_header ''Accept'' ''*/*'', Add_parameter ''b'' ''2''] = Inr (Some r)
    \<and> nhr_request_send (Some 9) (Some r) = (True, Some r')
    \<and> sends example_gz_mach r' (''GET /get?a=1&b=2 HTTP/1.1'' @ [CR, LF] @ ''Host: h.org:8080'' @ [CR, LF]
         @ ''Accept: */*'' @ [CR, LF, CR, LF])"
proof -
  let ?cs = "[Add_parameter ''a'' ''1'', Add_header ''Accept'' ''*/*'', Add_parameter ''b'' ''2'']"
  let ?t = "''GET /get?a=1&b=2 HTTP/1.1'' @ [CR, LF] @ ''Host: h.org:8080'' @ [CR, LF] @ ''Accept: */*'' @ [CR, LF, CR, LF]"
  have t: "?t = get_text (new_request\<lparr>rq_port := 8080\<rparr>) ''/get'' ''h.org'' (headers_given ?cs) (parameters_given ?cs)"
    by (simp add: get_text_def query_text_def host_text_def headers_text_def joined_def field_text_def k_nhr_defs
        dec_digits.simps digit_char_def char_of_def bit_0)
  have a: "sizes_fit example_gz_mach" "sizeof_request \<le> mc_limit example_gz_mach" "text_arg example_gz_mach ''http''"
      "text_arg example_gz_mach ''h.org''" "text_arg example_gz_mach ''/get''"
      "\<forall>c \<in> set ?cs. call_ok example_gz_mach c \<and> no_data c"
    by (auto simp: sizes_fit_def sizeof_map_node_def sizeof_request_def text_arg_def)
  have l: "length ?t + 256 \<le> mc_limit example_gz_mach" by simp
  from client_get_sent [OF a _ _ _ t l, of "Some 1" "Some 2" "Some 9"] show ?thesis by auto
qed


end
