(* ===== verification/Nhr_Response_Safe.thy ===== *)
theory Nhr_Response_Safe
  imports Nhr_Response_Gzip
begin

text \<open>
  What holds of a response whatever the peer sends: the bytes that the getters announce lie in
  the block of the body, and the size fields describe that block unless the body was
  decompressed. And where the sizes go wrong: a content length close to the largest number, and
  bytes that arrive behind a decompressed body.
\<close>

section \<open>Well-formed responses\<close>

definition readable :: "nhr_response \<Rightarrow> bool" where
  \<comment> \<open>the bytes that nhr_response_get_body_length announces lie in the block\<close>
  "readable r \<longleftrightarrow> unat (rs_body_len r) \<le> length (blk_bytes (rs_body r))"

definition resp_typed :: "nhr_response \<Rightarrow> bool" where
  "resp_typed r \<longleftrightarrow> readable r \<and> (is_gzip r \<or> is_deflate r \<or> resp_ok r)"

lemma resp_mem_readable: "resp_mem r \<Longrightarrow> readable r"
  by (auto simp: resp_mem_def readable_def word_le_nat_alt)

lemma unat_plus_le: "unat (a + b :: 'a::len word) \<le> unat a + unat b"
  by (simp add: unat_word_ariths)

lemma memcpy_to_fits:
  assumes "memcpy_to mem off d = Inr m"
  shows "length (blk_bytes m) = length (blk_bytes mem)" "d \<noteq> [] \<Longrightarrow> off + length d \<le> length (blk_bytes m)"
  using assms by (cases mem; cases "d = []"; auto simp: memcpy_to_def mem_write_def split: if_split_asm)+

lemma fix_body_len_readable:
  "readable r \<Longrightarrow> readable (nhr_response_fix_body_len r)"
  "same_header r (nhr_response_fix_body_len r)"
  by (auto simp: nhr_response_fix_body_len_def readable_def word_less_nat_alt same_header_def)

lemma realloc_length: "nhr_realloc mc mem n = Inr m \<Longrightarrow> length (blk_bytes m) = n"
  by (auto simp: nhr_realloc_def r_bind_Inr_conv Let_def split: if_split_asm)

lemma add_body_data_any:
  assumes "nhr_response_add_body_data mc r data n = Inr r'" "readable r"
  shows "readable r' \<and> same_header r r' \<and> (resp_mem r \<longrightarrow> resp_ok r')"
proof -
  let ?req = "rs_body_len r + n"
  obtain r1 d b where r1: "(if ?req > rs_body_size r
              then r_bind (nhr_realloc mc (rs_body r) (unat ?req))
                     (\<lambda>b. Inr (r\<lparr>rs_body := b, rs_body_size := ?req\<rparr>))
              else Inr r) = Inr r1" "mem_read data (unat n) = Inr d"
      "memcpy_to (rs_body r1) (unat (rs_body_len r1)) d = Inr b"
      "r' = nhr_response_fix_body_len (r1\<lparr>rs_body := b, rs_body_len := rs_body_len r1 + n\<rparr>)"
    using assms(1) by (auto simp: nhr_response_add_body_data_def r_bind_Inr_conv Let_def)
  have ld: "length d = unat n" using r1(2) by (auto simp: mem_read_def split: if_split_asm)
  have h1: "same_header r r1" "rs_body_len r1 = rs_body_len r"
    using r1(1) by (auto simp: r_bind_Inr_conv same_header_def split: if_split_asm)
  have mem1: "resp_mem r \<Longrightarrow> unat (rs_body_size r1) = length (blk_bytes (rs_body r1))"
    using r1(1) by (auto simp: r_bind_Inr_conv resp_mem_def split: if_split_asm dest: realloc_length)
  have fits: "unat (rs_body_len r) + unat n \<le> length (blk_bytes b)"
  proof (cases "d = []")
    case True
    with ld have "n = 0" by (simp add: unat_eq_0)
    then have "unat (rs_body_len r) \<le> length (blk_bytes (rs_body r1))"
      using r1(1) assms(2)
      by (auto simp: r_bind_Inr_conv readable_def split: if_split_asm dest: realloc_length)
    with \<open>n = 0\<close> memcpy_to_fits(1) [OF r1(3)] show ?thesis by simp
  next
    case False
    with memcpy_to_fits(2) [OF r1(3)] ld h1(2) show ?thesis by simp
  qed
  let ?r2 = "r1\<lparr>rs_body := b, rs_body_len := rs_body_len r1 + n\<rparr>"
  have le: "unat (rs_body_len r1 + n) \<le> length (blk_bytes b)"
    using fits unat_plus_le [of "rs_body_len r" n] h1(2) by simp
  then have "readable ?r2" by (simp add: readable_def)
  moreover have "same_header r ?r2" using h1(1) by (simp add: same_header_def)
  moreover have "resp_mem ?r2" if "resp_mem r"
    using mem1 [OF that] memcpy_to_fits(1) [OF r1(3)] le by (simp add: resp_mem_def word_le_nat_alt)
  ultimately show ?thesis
    using fix_body_len_readable [of ?r2] fix_body_len_spec(1) [of ?r2] r1(4) same_header_trans [of r ?r2] by auto
qed

text \<open>One property of responses and what keeps it: adding data, setting the flag of the last chunk.\<close>

definition keeps :: "nhr_response \<Rightarrow> nhr_response \<Rightarrow> bool" where
  "keeps r r' \<longleftrightarrow> same_header r r' \<and> (readable r \<longrightarrow> readable r') \<and> (resp_ok r \<longrightarrow> resp_ok r')"

lemma keeps_refl [simp]: "keeps r r"
  by (simp add: keeps_def)

lemma keeps_trans: "keeps r s \<Longrightarrow> keeps s t \<Longrightarrow> keeps r t"
  by (auto simp: keeps_def dest: same_header_trans)

lemma keeps_add: "nhr_response_add_body_data mc r data n = Inr r' \<Longrightarrow> readable r \<Longrightarrow> keeps r r'"
  using add_body_data_any [of mc r data n r'] by (auto simp: keeps_def resp_ok_def)

lemma read_chunks_keeps:
  "nhr_response_read_chunks mc r str = Inr r' \<Longrightarrow> readable r \<Longrightarrow> keeps r r'"
proof (induction mc r str arbitrary: r' rule: nhr_response_read_chunks.induct)
  case (1 mc r str)
  show ?case
  proof (cases "sscanf_X str")
    case (Inl e)
    with 1(2) show ?thesis by (simp add: nhr_response_read_chunks.simps)
  next
    case (Inr n)
    have last: "keeps r (r\<lparr>rs_is_all_chunks_processed := True\<rparr>)"
      by (simp add: keeps_def same_header_def readable_def resp_ok_def resp_mem_def)
    show ?thesis
    proof (cases n)
      case None
      with Inr 1(2) show ?thesis by (simp add: nhr_response_read_chunks.simps)
    next
      case (Some chunk_len)
      obtain str1 where s1: "skip_while isxdigit str = Inr str1"
        using 1(2) Inr Some by (cases "skip_while isxdigit str") (simp_all add: nhr_response_read_chunks.simps)
      show ?thesis
      proof (cases "chunk_len = 0")
        case True
        with 1(2) Inr Some s1 last show ?thesis
          by (auto simp: nhr_response_read_chunks.simps r_bind_Inr_conv)
      next
        case False
        with 1(2) Inr Some s1 obtain str2 r1 str3 str4 where t:
          "ptr_add k_nhr_CRLF_length str1 = Inr str2" "nhr_response_add_body_data mc r str2 (ucast chunk_len) = Inr r1"
          "ptr_add (unat chunk_len) str2 = Inr str3" "ptr_add k_nhr_CRLF_length str3 = Inr str4"
          "nhr_response_read_chunks mc r1 str4 = Inr r'"
          by (subst (asm) nhr_response_read_chunks.simps) (auto simp: r_bind_Inr_conv)
        have k: "keeps r r1" using keeps_add [OF t(2) 1(3)] .
        then have "readable r1" using 1(3) by (simp add: keeps_def)
        from 1(1) [OF Inr _ Some s1 False t(1-4) t(5) this] Some have "keeps r1 r'" by simp
        with k show ?thesis by (rule keeps_trans)
      qed
    qed
  qed
qed

definition fresh :: "nhr_response \<Rightarrow> bool" where
  "fresh r \<longleftrightarrow> rs_body r = None \<and> rs_body_len r = 0 \<and> rs_body_size r = 0"

lemma fresh_zero [simp]: "fresh zero_response"
  by (simp add: fresh_def zero_response_def)

lemma fresh_resp_ok: "fresh r \<Longrightarrow> resp_ok r"
  by (simp add: fresh_def resp_ok_def resp_mem_def)

lemma fresh_updates [simp]:
  "fresh (r\<lparr>rs_status_code := c\<rparr>) = fresh r" "fresh (r\<lparr>rs_content_length := n\<rparr>) = fresh r"
  "fresh (r\<lparr>rs_transfer_encoding := t\<rparr>) = fresh r" "fresh (r\<lparr>rs_content_encoding := e\<rparr>) = fresh r"
  by (simp_all add: fresh_def)

lemma fresh_parse:
  "nhr_response_parse_status_code r rc = Inr r' \<Longrightarrow> fresh r \<Longrightarrow> fresh r'"
  "nhr_response_parse_content_length r rc = Inr r' \<Longrightarrow> fresh r \<Longrightarrow> fresh r'"
  "nhr_response_parse_transfer_encoding r rc = Inr r' \<Longrightarrow> fresh r \<Longrightarrow> fresh r'"
  "nhr_response_parse_content_encoding r rc = Inr r' \<Longrightarrow> fresh r \<Longrightarrow> fresh r'"
  unfolding nhr_response_parse_status_code_def nhr_response_parse_content_length_def
    nhr_response_parse_transfer_encoding_def nhr_response_parse_content_encoding_def Let_def
  by (auto elim!: r_bindE split: option.split_asm if_split_asm)

lemma parse_body_ok:
  assumes "nhr_response_parse_body mc r rc n = Inr r'" "fresh r"
  shows "resp_ok r'"
proof -
  have ok: "resp_ok r" "readable r" using fresh_resp_ok [OF assms(2)] by (auto simp: resp_ok_def resp_mem_readable)
  obtain sub where sub: "strstr rc k_nhr_double_CRLF = Inr sub"
    using assms(1) by (auto simp: nhr_response_parse_body_def r_bind_Inr_conv)
  show ?thesis
  proof (cases "r' = r")
    case True
    with ok show ?thesis by simp
  next
    case False
    with assms(1) sub obtain x where x: "sub = Some x"
      by (cases sub) (auto simp: nhr_response_parse_body_def)
    define sk :: size_t where "sk = of_nat (length rc - length x) + of_nat k_nhr_double_CRLF_length"
    let ?body = "\<lambda>str. if is_chunked r then nhr_response_read_chunks mc r str
        else let body_len = n - sk; body_size = (if rs_content_length r > body_len then rs_content_length r + 32 else body_len) in
             r_bind (nhr_malloc mc (unat body_size)) (\<lambda>b. r_bind (mem_read str (unat body_len)) (\<lambda>d.
             r_bind (memcpy_to b 0 d) (\<lambda>b. Inr (r\<lparr>rs_body := b, rs_body_len := body_len, rs_body_size := body_size\<rparr>))))"
    have "r_bind (ptr_add k_nhr_double_CRLF_length x) (\<lambda>str. r_bind (?body str) (\<lambda>r. Inr (nhr_response_fix_body_len r))) = Inr r'"
      using assms(1) sub x False unfolding nhr_response_parse_body_def sk_def Let_def
      by (simp split: if_split_asm)
    then obtain str where "r_bind (?body str) (\<lambda>r. Inr (nhr_response_fix_body_len r)) = Inr r'" by (rule r_bindE)
    then obtain r1 where r1: "r' = nhr_response_fix_body_len r1" "?body str = Inr r1" by (rule r_bindE) auto
    have "resp_mem r1"
    proof (cases "is_chunked r")
      case True
      with r1(2) read_chunks_keeps ok show ?thesis by (auto simp: keeps_def resp_ok_def)
    next
      case False
      let ?size = "if rs_content_length r > n - sk then rs_content_length r + 32 else n - sk"
      obtain b d b' where b: "nhr_malloc mc (unat ?size) = Inr b" "mem_read str (unat (n - sk)) = Inr d"
          "memcpy_to b 0 d = Inr b'" "r1 = r\<lparr>rs_body := b', rs_body_len := n - sk, rs_body_size := ?size\<rparr>"
        using r1(2) False by (auto simp: r_bind_Inr_conv Let_def)
      have "length (blk_bytes b) = unat ?size" using b(1) by (auto simp: nhr_malloc_Inr_conv)
      moreover have "length d = unat (n - sk)" using b(2) by (auto simp: mem_read_def split: if_split_asm)
      ultimately show ?thesis
        using memcpy_to_fits [OF b(3)] b(4)
        by (cases "d = []") (auto simp: resp_mem_def word_le_nat_alt)
    qed
    with r1(1) show ?thesis by (simp add: fix_body_len_spec(1))
  qed
qed

lemma ungzip_readable:
  assumes "nhr_response_ungzip mc r = Inr r'" "readable r"
  shows "readable r' \<and> is_gzip r' = is_gzip r \<and> is_deflate r' = is_deflate r"
proof (cases "r' = r")
  case True
  with assms(2) show ?thesis by simp
next
  case False
  have "\<not> (rs_body r = None \<or> rs_body_len r = 0)"
  proof
    assume "rs_body r = None \<or> rs_body_len r = 0"
    with assms(1) False show False unfolding nhr_response_ungzip_def by (simp only: if_True sum.inject) simp
  qed
  let ?meth = "if is_gzip r then nhr_gz_decompress mc (rs_body r) (unat (rs_body_len r)) NHR_GZ_METHOD_GZIP
       else if is_deflate r then nhr_gz_decompress mc (rs_body r) (unat (rs_body_len r)) NHR_GZ_METHOD_DEFLATE
       else Inr None"
  let ?store = "\<lambda>d. case d of Some (Some decompressed, decompressed_size) \<Rightarrow>
         if decompressed_size > 0
         then Inr (r\<lparr>rs_body := Some decompressed, rs_body_len := of_nat decompressed_size\<rparr>) else Inr r
       | _ \<Rightarrow> (Inr r :: nhr_response res)"
  from \<open>\<not> (rs_body r = None \<or> rs_body_len r = 0)\<close> have "r_bind ?meth ?store = Inr r'"
    using assms(1) unfolding nhr_response_ungzip_def by (simp only: if_False)
  then obtain d where d: "?meth = Inr d" "?store d = Inr r'" by (rule r_bindE)
  from d(2) False obtain b k where bk: "d = Some (Some b, k)" "r' = r\<lparr>rs_body := Some b, rs_body_len := of_nat k\<rparr>"
    by (auto split: option.split_asm if_split_asm prod.split_asm)
  with d(1) obtain meth where b: "nhr_gz_decompress mc (rs_body r) (unat (rs_body_len r)) meth = Inr (Some (Some b, k))"
    by (auto split: if_split_asm)
  have "unat (of_nat k :: size_t) \<le> k" by (simp add: unat_of_nat)
  with decompress_long_enough [OF b] bk(2) show ?thesis by (simp add: readable_def is_gzip_def is_deflate_def)
qed

lemma check_is_finished_typed:
  assumes "nhr_response_check_is_finished mc r = Inr r'" "resp_typed r"
  shows "resp_typed r'"
proof -
  have fin: "resp_typed (u\<lparr>rs_is_finished := True\<rparr>) = resp_typed u" for u
    by (simp add: resp_typed_def readable_def resp_ok_def resp_mem_def is_gzip_def is_deflate_def)
  show ?thesis
    using assms ungzip_readable [of mc r]
    by (auto simp: nhr_response_check_is_finished_def r_bind_Inr_conv fin split: if_split_asm)
      (auto simp: resp_typed_def)
qed

lemma keeps_typed: "keeps r r' \<Longrightarrow> resp_typed r \<Longrightarrow> resp_typed r'"
  by (auto simp: keeps_def resp_typed_def same_header_def is_gzip_def is_deflate_def)

lemma resp_ok_typed: "resp_ok r \<Longrightarrow> resp_typed r"
  by (simp add: resp_typed_def resp_ok_def resp_mem_readable)

lemma create_typed:
  assumes "nhr_response_create mc rc n = Inr r"
  shows "resp_typed r"
proof -
  obtain r1 r2 where r1: "nhr_response_parse_status_code zero_response rc = Inr r1"
      "(if rs_status_code r1 \<noteq> 0
             then r_bind (nhr_response_parse_content_length r1 rc) (\<lambda>r.
                  r_bind (nhr_response_parse_transfer_encoding r rc) (\<lambda>r.
                  r_bind (nhr_response_parse_content_encoding r rc) (\<lambda>r.
                  nhr_response_parse_body mc r rc n)))
             else Inr r1) = Inr r2" "nhr_response_check_is_finished mc r2 = Inr r"
    using assms unfolding nhr_response_create_def r_bind_Inr_conv by blast
  have f: "fresh r1" using fresh_parse(1) [OF r1(1)] by simp
  have "resp_ok r2"
  proof (cases "rs_status_code r1 = 0")
    case True
    with r1(2) f show ?thesis by (simp add: fresh_resp_ok)
  next
    case False
    with r1(2) obtain u1 u2 u3 where u: "nhr_response_parse_content_length r1 rc = Inr u1"
        "nhr_response_parse_transfer_encoding u1 rc = Inr u2" "nhr_response_parse_content_encoding u2 rc = Inr u3"
        "nhr_response_parse_body mc u3 rc n = Inr r2"
      by (auto simp: r_bind_Inr_conv)
    then have "fresh u3" using f fresh_parse by blast
    with u(4) show ?thesis by (rule parse_body_ok)
  qed
  then show ?thesis using check_is_finished_typed [OF r1(3)] resp_ok_typed by blast
qed

lemma append_typed:
  assumes "nhr_response_append mc r rc n = Inr r'" "resp_typed r"
  shows "resp_typed r'"
proof -
  have rd: "readable r" using assms(2) by (simp add: resp_typed_def)
  obtain r1 where r1: "(if is_chunked r then nhr_response_read_chunks mc r rc
      else nhr_response_add_body_data mc r rc n) = Inr r1" "nhr_response_check_is_finished mc r1 = Inr r'"
    using assms(1) unfolding nhr_response_append_def r_bind_Inr_conv by blast
  have "keeps r r1" using r1(1) rd by (auto split: if_split_asm intro: keeps_add read_chunks_keeps)
  then show ?thesis using check_is_finished_typed [OF r1(2)] keeps_typed assms(2) by blast
qed


section \<open>A content length close to the largest number\<close>

lemma parse_body_wraps:
  assumes find: "strstr received k_nhr_double_CRLF = Inr (Some (drop (length head) received))"
    and rc: "received = head @ k_nhr_double_CRLF @ body @ stale" "length head > 4" "length received < 2 ^ 64"
    and rl: "received_len = of_nat (length head + 4 + length body)"
    and r: "\<not> is_chunked r" "unat (rs_content_length r) = n"
    and n: "2 ^ 64 \<le> n + 32" "length body < n" "n + 32 - 2 ^ 64 < length body" "n + 32 - 2 ^ 64 \<le> mc_limit mc"
  shows "nhr_response_parse_body mc r received received_len =
    Inl (if n + 32 = 2 ^ 64 then NullDeref else OutOfBounds)"
proof -
  let ?cl = "rs_content_length r" and ?bl = "of_nat (length body) :: size_t" and ?k = "n + 32 - 2 ^ 64"
  have find: "strstr received k_nhr_double_CRLF = Inr (Some (k_nhr_double_CRLF @ body @ stale))"
    using find rc(1) by simp
  have skip: "(of_nat (length received - length (k_nhr_double_CRLF @ body @ stale)) :: size_t) = of_nat (length head)"
    using rc(1) by simp
  have big: "(of_nat (length head) :: size_t) > of_nat k_nhr_double_CRLF_length"
    using rc by (simp add: word_less_nat_alt unat_of_nat_64 k_nhr_double_CRLF_length_def)
  have len: "received_len - (of_nat (length head) + of_nat k_nhr_double_CRLF_length) = ?bl"
    using rl by (simp add: k_nhr_double_CRLF_length_def)
  have ubl: "unat ?bl = length body" using rc(1,3) by (intro unat_of_nat_64) simp
  have gt: "?cl > ?bl" using ubl r(2) n(2) by (simp add: word_less_nat_alt)
  have "n < 2 ^ 64" using r(2) unsigned_less [of ?cl, where 'a = nat] by simp
  have "unat (?cl + 32) = (unat ?cl + 32) mod 2 ^ 64" by (simp add: unat_word_ariths)
  also have "\<dots> = ?k" using r(2) n(1) \<open>n < 2 ^ 64\<close> by (simp add: mod_if)
  finally have size: "unat (?cl + 32) = ?k" .
  have ne: "body \<noteq> []" using n(3) by auto
  have store: "r_bind (nhr_malloc mc ?k) (\<lambda>b. memcpy_to b 0 body)
      = Inl (if n + 32 = 2 ^ 64 then NullDeref else OutOfBounds)"
  proof (cases "?k = 0")
    case True
    with n(1) ne have "n + 32 = 2 ^ 64" by simp
    with True ne show ?thesis by (simp add: memcpy_to_def)
  next
    case False
    with n ne show ?thesis by (simp add: nhr_malloc_ok memcpy_to_def mem_write_def)
  qed
  have "nhr_response_parse_body mc r received received_len =
    r_bind (r_bind (nhr_malloc mc ?k) (\<lambda>b. memcpy_to b 0 body)) (\<lambda>b.
      Inr (nhr_response_fix_body_len (r\<lparr>rs_body := b, rs_body_len := ?bl, rs_body_size := ?cl + 32\<rparr>)))"
    unfolding nhr_response_parse_body_def find Let_def
    using r(1) len skip big gt size ubl
    by (simp add: k_nhr_double_CRLF_length_def mem_read_def r_bind_assoc)
  then show ?thesis using store by simp
qed

text \<open>
  C39: a \<open>Content-Length\<close> within 32 of the largest number wraps around when the slack of 32 bytes
  is added: the block is smaller than the bytes that are copied into it, and creating the
  response writes past its end (or through NULL when the sum is exactly zero).
\<close>

theorem content_length_wraps:
  assumes "plain_response ver code h1 n h2 received"
    and "received = plain_head ver code h1 n h2 @ k_nhr_double_CRLF @ body @ stale"
    and "received_len = of_nat (length (plain_head ver code h1 n h2) + 4 + length body)"
    and "length received < 2 ^ 63" "sizeof_response \<le> mc_limit mc" "length body \<le> mc_limit mc"
    and "2 ^ 64 \<le> n + 32" "n + 32 < 2 ^ 64 + length body"
  shows "nhr_response_create mc received received_len
    = Inl (if n + 32 = 2 ^ 64 then NullDeref else OutOfBounds)"
proof -
  let ?hd = "plain_head ver code h1 n h2" and ?r0 = "parsed_head code n"
  have pf: "plain_fields ver code h1 n h2 received" and n: "0 < n" "n < 2 ^ 64"
      and sub: "strstr received k_nhr_double_CRLF = Inr (Some (drop (length ?hd) received))"
    using assms(1) by (auto simp: plain_response_def plain_fields_def)
  have un: "unat (rs_content_length ?r0) = n" using n(2) by (simp add: unat_of_nat_64)
  have "length ?hd > 4" "\<not> is_chunked ?r0"
    by (simp_all add: plain_head_def plain_line_def k_nhr_content_length_def is_chunked_def)
  moreover have "length body < n" "length received < 2 ^ 64" using assms(2,4,7) by simp_all
  moreover have "n + 32 - 2 ^ 64 < length body" "n + 32 - 2 ^ 64 \<le> mc_limit mc" using assms(6-8) by linarith+
  ultimately have "nhr_response_parse_body mc ?r0 received received_len
      = Inl (if n + 32 = 2 ^ 64 then NullDeref else OutOfBounds)"
    using parse_body_wraps [OF sub assms(2) _ _ assms(3) _ un assms(7)] by blast
  then show ?thesis using create_plain_fields [OF pf assms(2,5)] by simp
qed

theorem content_length_wraps_witness:
  "nhr_response_create example_gz_mach
     (plain_head ''HTTP/1.1'' 200 (''OK'' @ k_nhr_CRLF) 18446744073709551600 ''''
        @ k_nhr_double_CRLF @ ''seventeen letters'' @ [NUL]) 74 = Inl OutOfBounds"
proof -
  let ?n = "18446744073709551600 :: nat"
  have line: "plain_line ''HTTP/1.1'' 200 (''OK'' @ k_nhr_CRLF) ?n
      = ''HTTP/1.1 200 OK'' @ [CR, LF] @ ''Content-Length: 18446744073709551600''"
    by (simp add: plain_line_def k_nhr_defs dec_digits.simps digit_char_def char_of_def bit_0)
  then have hd: "plain_head ''HTTP/1.1'' 200 (''OK'' @ k_nhr_CRLF) ?n ''''
      = ''HTTP/1.1 200 OK'' @ [CR, LF] @ ''Content-Length: 18446744073709551600''"
    by (simp add: plain_head_def)
  have p: "plain_response ''HTTP/1.1'' 200 (''OK'' @ k_nhr_CRLF) ?n ''''
      (plain_head ''HTTP/1.1'' 200 (''OK'' @ k_nhr_CRLF) ?n '''' @ k_nhr_double_CRLF @ ''seventeen letters'' @ [NUL])"
    unfolding plain_response_def plain_fields_def hd line
    by (simp add: isdigit_def strstr_def c_string_def k_nhr_defs dec_digits.simps)
  have l: "length (plain_head ''HTTP/1.1'' 200 (''OK'' @ k_nhr_CRLF) ?n '''') = 53" unfolding hd by simp
  show ?thesis
    using content_length_wraps [OF p refl, of 74 example_gz_mach] l by (simp add: sizeof_response_def)
qed

section \<open>Bytes behind a decompressed body\<close>

lemma add_body_data_size:
  assumes "nhr_response_add_body_data mc r data n = Inr r'" "rs_body_len r + n \<le> rs_body_size r"
  shows "rs_body_size r' = rs_body_size r"
proof -
  have "(rs_body_len r + n > rs_body_size r) = False" using assms(2) by simp
  then show ?thesis using assms(1)
    by (auto simp only: nhr_response_add_body_data_def Let_def if_False r_bind.simps elim!: r_bindE)
       (simp add: nhr_response_fix_body_len_def)
qed

lemma add_body_data_overflows:
  assumes "rs_body r = Some b" "d \<noteq> []" "length b < unat (rs_body_len r) + length d"
    and "unat (rs_body_len r) + length d \<le> unat (rs_body_size r)"
  shows "nhr_response_add_body_data mc r (d @ stale) (of_nat (length d)) = Inl OutOfBounds"
proof -
  have lt: "unat (rs_body_size r) < 2 ^ 64" using unsigned_less [of "rs_body_size r", where 'a = nat] by simp
  then have ud: "unat (of_nat (length d) :: size_t) = length d" using assms(4) by (intro unat_of_nat_64) simp
  have "unat (rs_body_len r) + unat (of_nat (length d) :: size_t) < 2 ^ LENGTH(64)" using ud assms(4) lt by simp
  then have "unat (rs_body_len r + of_nat (length d)) = unat (rs_body_len r) + length d"
    using unat_add_lem [of "rs_body_len r" "of_nat (length d)"] ud by simp
  then have "\<not> rs_body_len r + of_nat (length d) > rs_body_size r"
    using assms(4) by (simp add: word_less_nat_alt)
  then show ?thesis
    using assms(1-3) ud
    by (simp add: nhr_response_add_body_data_def Let_def mem_read_def memcpy_to_def mem_write_def)
qed

text \<open>
  C40: nhr_response_ungzip puts the decoded body in place but leaves \<open>body_size\<close> at the size of
  the compressed block, and nhr_request_recv goes on appending what it receives. Bytes of the peer
  behind the complete body are therefore copied past the end of the decoded block as long as the
  old size has room for them.
\<close>

theorem surplus_after_gzip_overflows:
  assumes "collecting z r" "gzip_file z h raw foot" "decodes mc Q raw pl" "length z \<le> body_limit mc"
    and "resp_content r @ rest = z" "unat (rs_body_size r) = length z + 32"
    and "512 * (length pl div 512 + 1) < length pl + length d" "length pl + length d \<le> length z + 32"
  shows "append_packets mc r [(rest, stale), (d, stale')] = Inl OutOfBounds"
proof -
  have "length z < 2 ^ 32" using assms(2) unfolding gzip_file_def by (elim conjE)
  then have lz: "length z < 2 ^ 64" by simp
  have mem: "resp_mem r" using assms(1) by (simp add: collecting_def resp_ok_def)
  obtain r1 where r1: "nhr_response_add_body_data mc r (rest @ stale) (of_nat (length rest)) = Inr r1" "resp_ok r1"
      "resp_content r1 = resp_content r @ rest" "same_header r r1"
    using collect_add [OF assms(1) lz assms(4), of rest "[]" stale] assms(5) by auto
  have "unat (rs_body_len r + of_nat (length rest)) \<le> length z"
    using assms(5) length_resp_content [OF mem] unat_plus_le [of "rs_body_len r" "of_nat (length rest)"]
      unat_of_nat_64 [of "length rest"] lz by fastforce
  then have size: "rs_body_size r1 = rs_body_size r"
    using assms(6) by (intro add_body_data_size [OF r1(1)]) (simp add: word_le_nat_alt)
  have h1: "rs_transfer_encoding r1 = 0" "is_gzip r1" "rs_content_length r1 = of_nat (length z)"
    using assms(1) r1(4) same_header_gzip [OF r1(4)] by (auto simp: collecting_def same_header_def)
  obtain r2 where r2: "nhr_response_check_is_finished mc r1 = Inr r2" "decoded (length z) pl r2"
      "rs_body_size r2 = rs_body_size r1" "length (blk_bytes (rs_body r2)) = 512 * (length pl div 512 + 1)"
    using check_is_finished_gzip [OF r1(2) _ h1 assms(2,3)] r1(3) assms(5) by auto
  have bl: "unat (rs_body_len r2) = length pl" using r2(2) by (auto simp: decoded_def unat_of_nat_64)
  obtain b where b: "rs_body r2 = Some b" using r2(2) by (auto simp: decoded_def)
  have "d \<noteq> []" using assms(7) by (auto simp: dividend_less_times_div not_less_iff_gr_or_eq)
  then have over: "nhr_response_add_body_data mc r2 (d @ stale') (of_nat (length d)) = Inl OutOfBounds"
    using r2(3,4) b bl size assms(6-8) by (intro add_body_data_overflows [of _ b]) simp_all
  have "\<not> is_chunked r2" "\<not> is_chunked r"
    using r2(2) assms(1) by (simp_all add: decoded_def is_chunked_def collecting_def)
  then show ?thesis using r1(1) r2(1) over by (simp add: nhr_response_append_def)
qed


definition long_text :: bytes where "long_text = replicate 511 CHR ''a''"

definition long_gzip :: bytes where "long_gzip = gz_header 0 @ long_text @ replicate 8 NUL"

definition long_started :: nhr_response where
  \<comment> \<open>what nhr_response_create leaves when the first packet has only the head\<close>
  "long_started = zero_response\<lparr>rs_status_code := 200, rs_content_length := 529,
     rs_content_encoding := NHR_CONTENT_ENCODING_GZIP, rs_body := Some (replicate 561 NUL), rs_body_size := 561\<rparr>"

lemma long_gzip_ok:
  "gzip_file long_gzip (gz_header 0) long_text (replicate 8 NUL)" "length long_gzip = 529"
  "decodes (stored_mach 8) (\<lambda>z inp pl. inp = pl) long_text long_text"
  "collecting long_gzip long_started" "resp_content long_started = []" "length long_text = 511"
proof -
  show t: "length long_text = 511" by (simp add: long_text_def)
  show l: "length long_gzip = 529" by (simp add: long_gzip_def t)
  have ne: "long_text \<noteq> []" "long_gzip \<noteq> []" using t l by auto
  show "gzip_file long_gzip (gz_header 0) long_text (replicate 8 NUL)"
    using ne t by (simp add: gzip_file_def long_gzip_def gz_header_def)
  show "decodes (stored_mach 8) (\<lambda>z inp pl. inp = pl) long_text long_text"
    using stored_inflate ne t by (simp add: decodes_def)
  show c: "resp_content long_started = []" by (simp add: long_started_def resp_content_def zero_response_def)
  show "collecting long_gzip long_started"
    using ne c l by (simp add: collecting_def) (simp add: long_started_def zero_response_def resp_ok_def resp_mem_def
        is_gzip_def NHR_CONTENT_ENCODING_GZIP_def)
qed

theorem surplus_after_gzip_overflows_witness:
  "append_packets (stored_mach 8) long_started [(long_gzip, []), (''xy'', [])] = Inl OutOfBounds"
proof -
  have r: "resp_content long_started @ long_gzip = long_gzip" "unat (rs_body_size long_started) = length long_gzip + 32"
    using long_gzip_ok(2,5) by (simp_all add: long_started_def)
  show ?thesis
    using surplus_after_gzip_overflows [OF long_gzip_ok(4,1,3) _ r, of "''xy''" "[]" "[]"] long_gzip_ok(2,6)
    by (auto simp: body_limit_def)
qed

end
