(* ===== verification/Nhr_Worker_Typed.thy ===== *)
theory Nhr_Worker_Typed
  imports Nhr_Worker_Runs Nhr_Response_Safe
begin

text \<open>
  The typing of what a client sees: in every interleaving, whatever the peer sends, the response
  handed to \<open>on_recvd_response\<close> announces no more bytes than its block has. The typing of a
  single response is lifted through the handlers and then, by the locale \<open>step_system\<close>, to
  every reachable state.
\<close>

section \<open>The response a request holds\<close>

definition holds_typed :: "sys \<Rightarrow> bool" where
  "holds_typed s \<longleftrightarrow> (\<forall>rs. rq_response (sy_req s) = Some rs \<longrightarrow> resp_typed rs)"

definition same_response :: "sys \<Rightarrow> sys \<Rightarrow> bool" where
  "same_response s s' \<longleftrightarrow> rq_response (sy_req s') = rq_response (sy_req s)"

lemma same_response_typed: "same_response s s' \<Longrightarrow> holds_typed s \<Longrightarrow> holds_typed s'"
  by (simp add: same_response_def holds_typed_def)

lemma same_response_refl [simp]: "same_response s s"
  by (simp add: same_response_def)

lemma same_response_trans: "same_response s s' \<Longrightarrow> same_response s' s'' \<Longrightarrow> same_response s s''"
  by (simp add: same_response_def)

lemma same_response_fields [simp]:
  "same_response s (set_command c s)" "same_response s (set_error e s)" "same_response s (sys_close s)"
  "same_response s (emit ev s)" "same_response s (s\<lparr>sy_pc := p\<rparr>)" "same_response s (s\<lparr>sy_start := q\<rparr>)"
  "same_response s (s\<lparr>sy_recv := rs\<rparr>)" "same_response s (s\<lparr>sy_recv := rs, sy_errno := n\<rparr>)"
  "same_response s (s\<lparr>sy_buffs := bs\<rparr>)"
  by (simp_all add: same_response_def set_command_def set_error_def sys_close_def on_req_def emit_def
      nhr_request_set_command_def nhr_request_close_def)

lemma holds_typed_set_command [simp]: "holds_typed (set_command c s) = holds_typed s"
  by (simp add: holds_typed_def set_command_def on_req_def nhr_request_set_command_def)

lemma same_response_touch: "touch s = Inr s' \<Longrightarrow> same_response s s'"
  by (auto simp: touch_def nhr_time_def r_bind_Inr_conv on_req_def same_response_def split: list.splits)

lemma same_response_check: "nhr_request_check_timeout s = Inr (b, s') \<Longrightarrow> same_response s s'"
  by (auto simp: nhr_request_check_timeout_def nhr_time_def r_bind_Inr_conv on_req_def same_response_def
      set_error_def set_command_def nhr_request_set_command_def split: list.splits if_splits)

lemma same_response_getaddr: "getaddr_loop n s = Inr (ps, s') \<Longrightarrow> same_response s s'"
proof (induction n s rule: getaddr_loop.induct)
  case (2 n s)
  then show ?case
    by (fastforce simp: same_response_def emit_def split: list.split_asm addr_answer.split_asm)
qed auto

lemma same_response_try:
  "nhr_socket s = Inr (fd, s') \<Longrightarrow> same_response s s'"
  "try_connect fd p s = Inr (b, s') \<Longrightarrow> same_response s s'"
  by (auto simp: nhr_socket_def try_connect_eq Let_def same_response_def emit_def on_req_def
      split: list.splits sock_answer.splits conn_answer.splits)

lemma same_response_each: "connect_each ps sock s = Inr (ret, s') \<Longrightarrow> same_response s s'"
proof (induction ps sock s arbitrary: s' rule: connect_each.induct)
  case (2 p ps sock s)
  obtain s1 where s1: "touch s = Inr s1" using 2(2) by (auto simp: r_bind_Inr_conv)
  obtain fd s2 where s2: "nhr_socket s1 = Inr (fd, s2)" using 2(2) s1 by (auto simp: r_bind_Inr_conv)
  obtain b s3 where s3: "(if fd \<noteq> NHR_INVALID_SOCKET then try_connect fd p s2 else Inr (False, s2)) = Inr (b, s3)"
    using 2(2) s1 s2 by (fastforce simp: r_bind_Inr_conv)
  have q: "same_response s s3"
    using same_response_touch [OF s1] same_response_try(1) [OF s2] same_response_try(2) [of fd p s2 b s3] s3
    by (auto simp: same_response_def split: if_split_asm)
  show ?case
  proof (cases b)
    case True
    with 2(2) s1 s2 s3 q show ?thesis by auto
  next
    case False
    then obtain t s4 where s4: "nhr_request_check_timeout s3 = Inr (t, s4)"
        "(if t then connect_each ps fd s4 else Inr (None, s4)) = Inr (ret, s')"
      using 2(2) s1 s2 s3 by (auto simp: r_bind_Inr_conv)
    have q4: "same_response s s4" using q same_response_check [OF s4(1)] by (rule same_response_trans)
    show ?thesis
    proof (cases t)
      case True
      with s4(2) have "connect_each ps fd s4 = Inr (ret, s')" by simp
      from 2(1) [OF s1 s2 _ s3 _ False s4(1) _ True this] q4 show ?thesis
        using same_response_trans by auto
    next
      case False
      with s4(2) q4 show ?thesis by auto
    qed
  qed
qed simp

lemma same_response_tries: "connect_tries n ps sock s = Inr (b, s') \<Longrightarrow> same_response s s'"
proof (induction n ps sock s rule: connect_tries.induct)
  case (2 n ps sock s)
  show ?case
  proof (cases "sock = NHR_INVALID_SOCKET")
    case True
    then obtain ret s1 where s1: "connect_each ps sock s = Inr (ret, s1)"
      using 2(2) by (auto simp: r_bind_Inr_conv)
    note q = same_response_each [OF s1]
    show ?thesis
    proof (cases ret)
      case None
      with 2(2) True s1 q show ?thesis by auto
    next
      case (Some fd)
      let ?s = "if fd = NHR_INVALID_SOCKET then emit (nhr_thread_sleep NHR_CONNECT_RETRY_DELAY) s1 else s1"
      have "connect_tries n ps fd ?s = Inr (b, s')" using 2(2) True s1 Some by simp
      from 2(1) [OF _ s1 refl Some this] True have "same_response ?s s'" by simp
      moreover have "same_response s1 ?s" by simp
      ultimately show ?thesis using q same_response_trans by blast
    qed
  qed (use 2(2) in simp)
qed simp

lemma same_response_connect:
  assumes "nhr_request_connect_to_host s = Inr s'"
  shows "same_response s s'"
proof -
  obtain s1 ps s2 t s3 where s3: "touch s = Inr s1" "nhr_request_connect_getaddr_info s1 = Inr (ps, s2)"
      "nhr_request_check_timeout s2 = Inr (t, s3)"
    using assms by (auto simp: nhr_request_connect_to_host_def r_bind_Inr_conv)
  then have "getaddr_loop (NHR_CONNECT_ATTEMPS - 1) s1 = Inr (ps, s2)"
    by (auto simp: nhr_request_connect_getaddr_info_def r_bind_Inr_conv)
  then have q: "same_response s s3"
    using same_response_touch [OF s3(1)] same_response_getaddr same_response_check [OF s3(3)]
      same_response_trans by blast
  show ?thesis
  proof (cases "\<not> t \<or> ps = []")
    case True
    with assms s3 q show ?thesis by (auto simp: nhr_request_connect_to_host_def)
  next
    case False
    let ?fin = "\<lambda>s. let s = emit Ev_freeaddrinfo s in
               if rq_socket (sy_req s) = NHR_INVALID_SOCKET
               then Inr (set_error nhr_error_code_failed_connect_to_host s)
               else Inr (set_command NHR_COMMAND_SEND_RAW_REQUEST s)"
    have "r_bind (connect_tries (NHR_CONNECT_ATTEMPS - 1) ps NHR_INVALID_SOCKET s3)
        (\<lambda>(go_on, s). if \<not> go_on then Inr s else ?fin s) = (Inr s' :: sys res)"
      using assms False by (simp add: nhr_request_connect_to_host_def s3)
    then obtain x where x: "connect_tries (NHR_CONNECT_ATTEMPS - 1) ps NHR_INVALID_SOCKET s3 = Inr x"
        "(case x of (go_on, s) \<Rightarrow> if \<not> go_on then Inr s else ?fin s) = (Inr s' :: sys res)"
      by (rule r_bindE)
    obtain b s4 where "x = (b, s4)" by (cases x)
    with x have s4: "connect_tries (NHR_CONNECT_ATTEMPS - 1) ps NHR_INVALID_SOCKET s3 = Inr (b, s4)"
        "(if \<not> b then Inr s4 else ?fin s4) = (Inr s' :: sys res)" by simp_all
    have q4: "same_response s s4" using same_response_tries [OF s4(1)] q same_response_trans by blast
    then have "same_response s (emit Ev_freeaddrinfo s4)" by (rule same_response_trans) simp
    then show ?thesis using s4(2) q4
      by (auto simp: Let_def split: if_splits intro: same_response_trans)
  qed
qed

lemma same_response_send_buffer:
  assumes "nhr_request_send_buffer s data n = Inr (b, s')"
  shows "same_response s s'"
proof -
  let ?s = "on_req (\<lambda>r. r\<lparr>rq_error_code := nhr_error_code_none\<rparr>) s"
  obtain d where d: "blk_read data n = Inr d"
    using assms by (auto simp: nhr_request_send_buffer_def r_bind_Inr_conv Let_def)
  show ?thesis
  proof (cases "sy_send ?s")
    case Nil
    with assms d show ?thesis by (simp add: nhr_request_send_buffer_def Let_def)
  next
    case (Cons a rest)
    with assms d show ?thesis
      by (cases a) (auto simp: nhr_request_send_buffer_def Let_def same_response_def emit_def on_req_def
          split: if_splits)
  qed
qed

lemma same_response_send:
  assumes "nhr_request_send_raw_request mc s = Inr s'"
  shows "same_response s s'"
proof -
  obtain h r sent s1 where 1: "create_header mc (sy_req s) = Inr (h, r)"
      "nhr_request_send_buffer (on_req (\<lambda>_. r) s) (fst h) (snd h) = Inr (sent, s1)"
      "(if sent then Inr (set_command NHR_COMMAND_START_WAITING_RAW_RESPONSE s1)
     else r_bind (nhr_request_check_timeout (sys_close s1)) (\<lambda>(in_time, s).
          Inr (if in_time then set_error nhr_error_code_failed_connect_to_host s else s))) = Inr s'"
    using assms unfolding send_raw_request_eq by (auto simp: r_bind_Inr_conv)
  have "rq_response r = rq_response (sy_req s)"
    using create_header_only [OF 1(1)] by (auto simp: only_headers_def)
  moreover have "rq_response (sy_req s1) = rq_response r"
    using same_response_send_buffer [OF 1(2)] by (simp add: same_response_def on_req_def)
  ultimately have q: "same_response s s1" by (simp add: same_response_def)
  show ?thesis
  proof (cases sent)
    case True
    with 1(3) q same_response_trans same_response_fields(1) show ?thesis by fastforce
  next
    case False
    with 1(3) obtain t s2 where s2: "nhr_request_check_timeout (sys_close s1) = Inr (t, s2)"
        "s' = (if t then set_error nhr_error_code_failed_connect_to_host s2 else s2)"
      by (auto simp: r_bind_Inr_conv)
    have "same_response s s2"
      using q same_response_check [OF s2(1)] same_response_fields(3) same_response_trans by blast
    with s2(2) same_response_trans show ?thesis by (cases t) auto
  qed
qed

section \<open>What recv does with it\<close>

lemma recv_loop_typed: "recv_loop mc rs buff s = Inr s' \<Longrightarrow> holds_typed s \<Longrightarrow> holds_typed s'"
proof (induction mc rs buff s rule: recv_loop.induct)
  case (2 mc d rest buff s)
  then obtain s1 x where s1: "touch s = Inr s1"
      "(case rq_response (sy_req s1) of
          Some rs \<Rightarrow> nhr_response_append mc rs (d @ drop (length d) buff) (of_nat (length d))
        | None \<Rightarrow> nhr_response_create mc (d @ drop (length d) buff) (of_nat (length d))) = Inr x"
      "recv_loop mc rest (d @ drop (length d) buff) (on_req (\<lambda>r. r\<lparr>rq_response := Some x\<rparr>) s1) = Inr s'"
    by (auto simp: r_bind_Inr_conv Let_def)
  have "holds_typed s1" using same_response_typed [OF same_response_touch [OF s1(1)]] 2(3) .
  with s1(2) have "resp_typed x"
    by (auto simp: holds_typed_def intro: create_typed append_typed split: option.split_asm)
  then have "holds_typed (on_req (\<lambda>r. r\<lparr>rq_response := Some x\<rparr>) s1)" by (simp add: holds_typed_def on_req_def)
  with 2(1) [OF refl s1] show ?case .
qed (auto simp: holds_typed_def)

lemma recv_typed:
  assumes "nhr_request_recv mc s = Inr (b, s')" "holds_typed s"
  shows "holds_typed s'"
proof -
  obtain buff buffs s1 where s1: "recv_loop mc (sy_recv s) buff (s\<lparr>sy_buffs := buffs\<rparr>) = Inr s1"
      "s' = s1 \<or> s' = sys_close s1"
    using assms(1) by (auto simp: nhr_request_recv_def r_bind_Inr_conv split: list.split_asm if_split_asm)
  have "holds_typed (s\<lparr>sy_buffs := buffs\<rparr>)" using assms(2) by (simp add: holds_typed_def)
  with recv_loop_typed [OF s1(1)] s1(2) same_response_typed [OF same_response_fields(3)] show ?thesis by blast
qed

lemma wait_typed:
  assumes "nhr_request_wait_raw_response mc s = Inr s'" "holds_typed s"
  shows "holds_typed s'"
proof -
  obtain b s1 where s1: "nhr_request_recv mc s = Inr (b, s1)"
    using assms(1) by (auto simp: nhr_request_wait_raw_response_def r_bind_Inr_conv)
  note t = recv_typed [OF s1 assms(2)]
  show ?thesis
  proof (cases b)
    case False
    with assms(1) s1 have "s' = set_command NHR_COMMAND_INFORM_RESPONSE s1"
      by (auto simp: nhr_request_wait_raw_response_def)
    with t same_response_typed show ?thesis by simp
  next
    case True
    with assms(1) s1 obtain s2 t where s2: "s2 = s1 \<or> s2 = set_command NHR_COMMAND_INFORM_RESPONSE s1"
        "nhr_request_check_timeout s2 = Inr (t, s')"
      by (fastforce simp: nhr_request_wait_raw_response_def r_bind_Inr_conv Let_def split: if_splits)
    then have "same_response s1 s2" by auto
    with same_response_check [OF s2(2)] t same_response_typed show ?thesis by blast
  qed
qed

lemma handler_typed:
  assumes "run_handler mc c s = Inr s'" "holds_typed s"
  shows "holds_typed s'"
proof (cases c)
  case NHR_COMMAND_CONNECT_TO_HOST
  with assms same_response_connect [of s s'] same_response_typed show ?thesis by (simp add: run_handler_def)
next
  case NHR_COMMAND_SEND_RAW_REQUEST
  with assms same_response_send [of mc s s'] same_response_typed show ?thesis by (simp add: run_handler_def)
next
  case NHR_COMMAND_START_WAITING_RAW_RESPONSE
  then obtain s1 where "touch s = Inr s1" "s' = set_command NHR_COMMAND_WAIT_RAW_RESPONSE s1"
    using assms(1) by (auto simp: run_handler_def nhr_request_start_waiting_raw_response_def r_bind_Inr_conv)
  with assms(2) same_response_touch same_response_typed show ?thesis by auto
next
  case NHR_COMMAND_WAIT_RAW_RESPONSE
  with assms wait_typed [of mc s s'] show ?thesis by (simp add: run_handler_def)
qed (use assms in \<open>simp_all add: run_handler_def\<close>)

section \<open>Every reachable state\<close>

fun typed_event :: "event \<Rightarrow> bool" where
  "typed_event (Ev_response (Some rs)) = resp_typed rs"
| "typed_event _ = True"

lemma quiet_typed_event: "quiet_event e \<Longrightarrow> typed_event e"
  by (cases e rule: typed_event.cases) auto

definition typed_inv :: "sys \<Rightarrow> bool" where
  "typed_inv s \<longleftrightarrow> holds_typed s \<and> list_all typed_event (sy_log s)"

lemma typed_inv_field [simp]:
  "typed_inv (s\<lparr>sy_pc := p\<rparr>) = typed_inv s" "typed_inv (s\<lparr>sy_start := q\<rparr>) = typed_inv s"
  by (simp_all add: typed_inv_def holds_typed_def)

lemma typed_inv_quiet: "quiet s s' \<Longrightarrow> holds_typed s' \<Longrightarrow> typed_inv s \<Longrightarrow> typed_inv s'"
  by (fastforce simp: typed_inv_def quiet_def list_all_iff intro: quiet_typed_event)

lemma typed_inv_inform: "typed_inv s \<Longrightarrow> typed_inv (run_inform c s)"
  by (cases c; cases "rq_response (sy_req s)";
      simp add: run_inform_def typed_inv_def holds_typed_def Let_def emit_def set_command_def on_req_def
        nhr_request_set_command_def)

lemma typed_inv_delete: "typed_inv s \<Longrightarrow> typed_inv (nhr_request_delete s)"
  by (simp add: typed_inv_def holds_typed_def nhr_request_delete_def Let_def on_req_def emit_def sys_close_def)

lemma typed_inv_worker:
  assumes n: "worker_next mc s = Some s'" and w: "winv s" and t: "typed_inv s"
  shows "typed_inv s'"
proof (cases "sy_pc s")
  case (Running c)
  show ?thesis
  proof (cases "run_handler mc c s")
    case (Inl f)
    with n t Running show ?thesis by (auto simp: worker_next_def)
  next
    case (Inr u)
    have "quiet s u"
      using handler_out(1) [OF Inr] w Running unfolding winv_def socket_inv_def command_inv_def by auto
    moreover have "holds_typed u" using handler_typed [OF Inr] t by (simp add: typed_inv_def)
    ultimately have "typed_inv u" using t by (rule typed_inv_quiet)
    with n Running Inr show ?thesis by (auto simp: worker_next_def)
  qed
next
  case (Informing c)
  with n typed_inv_inform [OF t] show ?thesis by (auto simp: worker_next_def)
next
  case Exiting
  have "typed_inv (sys_close (on_req (\<lambda>r. r\<lparr>rq_work_thread := None\<rparr>) s))"
    using t by (auto simp: typed_inv_def holds_typed_def on_req_def sys_close_def emit_def nhr_request_close_def)
  with n Exiting typed_inv_delete show ?thesis by (auto simp: worker_next_def)
qed (use n t in \<open>auto simp: worker_next_def typed_inv_def holds_typed_def emit_def nhr_thread_sleep_def\<close>)

lemma typed_inv_step:
  assumes s: "sys_step mc s s'" and w: "winv s" "typed_inv s"
  shows "typed_inv s'"
  using s
proof cases
  case worker
  with typed_inv_worker w show ?thesis by blast
next
  case cancel
  with w(2) show ?thesis
    by (auto simp: typed_inv_def holds_typed_def nhr_request_cancel_def nhr_request_set_command_def split: if_splits)
qed (use w(2) in \<open>simp_all add: typed_inv_def holds_typed_def on_req_def set_command_def nhr_request_set_command_def\<close>)

lemma typed_inv_init: "sys_init s \<Longrightarrow> typed_inv s"
  by (simp add: typed_inv_def holds_typed_def sys_init_def)

interpretation typing: step_system "\<lambda>s. sys_init s \<and> socks_ok s" "sys_step mc" "\<lambda>s. winv s \<and> typed_inv s" for mc
  by unfold_locales
     (auto intro: winv_init winv_step typed_inv_step typed_inv_init)


text \<open>
  C8: In every interleaving of worker and client and whatever the peer sends in whatever
  packets (a lying Content-Length, broken chunks, data that is not gzip), a response that reaches
  \<open>on_recvd_response\<close> is well typed: the length that nhr_response_get_body_length gives lies in
  the block that nhr_response_get_body gives, so that a client that reads what it is told to
  never leaves the block. For a body that is not compressed the size field is that of the block
  and the body is no longer than a content length that is not 0.
\<close>

theorem responses_readable:
  assumes "sys_init s" "socks_ok s" "(sys_step mc)\<^sup>*\<^sup>* s t"
    and "Ev_response (Some rs) \<in> set (sy_log t)"
  shows "unat (nhr_response_get_body_length (Some rs)) \<le> length (blk_bytes (nhr_response_get_body (Some rs)))
    \<and> unat (rs_body_len rs) \<le> length (blk_bytes (rs_body rs))
    \<and> (is_gzip rs \<or> is_deflate rs \<or> unat (rs_body_size rs) = length (blk_bytes (rs_body rs))
         \<and> (rs_content_length rs > 0 \<longrightarrow> rs_body_len rs \<le> rs_content_length rs))"
proof -
  have "typed_inv t" using typing.reachable_inv [of s mc t] assms(1-3) by simp
  with assms(4) have t: "resp_typed rs" by (fastforce simp: typed_inv_def list_all_iff)
  have "unat (ucast (rs_body_len rs) :: 32 word) \<le> unat (rs_body_len rs)"
    by (simp add: unsigned_ucast_eq take_bit_nat_less_eq_self)
  with t show ?thesis
    by (auto simp: resp_typed_def readable_def resp_ok_def resp_mem_def nhr_response_get_body_length_def
        nhr_response_get_body_def)
qed

theorem responses_readable_witness:
  "\<exists>t rs. (sys_step example_gz_mach)\<^sup>*\<^sup>* example_start t \<and> Ev_response (Some rs) \<in> set (sy_log t)
     \<and> unat (rs_body_len rs) \<le> length (blk_bytes (rs_body rs))"
proof -
  obtain t rs where t: "(sys_step example_gz_mach)\<^sup>*\<^sup>* example_start t" "Ev_response (Some rs) \<in> set (sy_log t)"
    using example_run by (force simp: exchange_log_def)
  from responses_readable [OF example_start_ok(1,2) t] t show ?thesis by blast
qed

end
