(* ===== verification/Nhr_Thread.thy ===== *)
theory Nhr_Thread
  imports Nhr_Memory
begin

text \<open>
  Threads, their recursive mutexes and the joiner of finished threads (nhr_thread.c, the POSIX
  branches). A thread that has done its work leaves itself in the joiner, and joins and frees
  the one it finds there; so each finished thread is joined by the next one. Threads are
  numbered in the order of their creation. The threads and the clients that call
  nhr_thread_create are state machines that interleave; a step is what happens between two
  points at which another thread can be seen to intervene.
\<close>

section \<open>Mutexes\<close>

record mutex =
  mx_owner :: "nat option"
  mx_depth :: nat

definition sizeof_mutex :: nat where "sizeof_mutex = 40"

definition nhr_mutex_create_recursive :: "'m mach_scheme \<Rightarrow> bool \<Rightarrow> mutex option res" where
  \<comment> \<open>the flag: every call of the pthread library answers 0\<close>
  "nhr_mutex_create_recursive mc ok =
     r_bind (nhr_malloc_zero mc sizeof_mutex) (\<lambda>_.
     r_bind (r_check ok AssertFailed) (\<lambda>_. Inr (Some \<lparr>mx_owner = None, mx_depth = 0\<rparr>)))"

definition nhr_mutex_lock :: "nat \<Rightarrow> mutex option \<Rightarrow> mutex option option" where
  \<comment> \<open>thread \<open>t\<close> locks; \<open>None\<close> while another thread holds the mutex; NULL is not locked\<close>
  "nhr_mutex_lock t mutex =
     (case mutex of
        None \<Rightarrow> Some None
      | Some m \<Rightarrow>
          if mx_owner m = None \<or> mx_owner m = Some t
          then Some (Some \<lparr>mx_owner = Some t, mx_depth = mx_depth m + 1\<rparr>)
          else None)"

definition nhr_mutex_unlock :: "nat \<Rightarrow> mutex option \<Rightarrow> mutex option" where
  \<comment> \<open>a mutex that the thread does not hold is left as it is\<close>
  "nhr_mutex_unlock t mutex =
     (case mutex of
        None \<Rightarrow> None
      | Some m \<Rightarrow>
          if mx_owner m = Some t
          then (if mx_depth m \<le> 1 then Some \<lparr>mx_owner = None, mx_depth = 0\<rparr>
                else Some (m\<lparr>mx_depth := mx_depth m - 1\<rparr>))
          else Some m)"

definition nhr_mutex_delete :: "mutex option \<Rightarrow> mutex option" where
  "nhr_mutex_delete mutex = None"

section \<open>Threads and the joiner\<close>

datatype thread_pc =
    Th_working           \<comment> \<open>in the thread function\<close>
  | Th_locking           \<comment> \<open>in nhr_threads_joiner_add, before the lock\<close>
  | Th_cleaning          \<comment> \<open>before nhr_threads_joiner_clean\<close>
  | Th_joining nat       \<comment> \<open>has taken a thread out of the joiner\<close>
  | Th_storing
  | Th_unlocking
  | Th_returning
  | Th_exited

record nhr_thread =
  thr_pc :: thread_pc
  thr_live :: bool       \<comment> \<open>the block of the thread is allocated\<close>
  thr_joined :: bool

record threads_joiner =
  jo_thread :: "nat option"
  jo_mutex :: "mutex option"

datatype client_pc = Cl_idle | Cl_making | Cl_mutex | Cl_spawning

record threads =
  ts_joiner :: "threads_joiner option"
  ts_threads :: "nhr_thread list"
  ts_clients :: "client_pc list"

definition sizeof_thread :: nat where "sizeof_thread = 24"
definition sizeof_joiner :: nat where "sizeof_joiner = 16"

definition set_pc :: "nat \<Rightarrow> thread_pc \<Rightarrow> threads \<Rightarrow> threads" where
  "set_pc t p s = s\<lparr>ts_threads := (ts_threads s)[t := (ts_threads s ! t)\<lparr>thr_pc := p\<rparr>]\<rparr>"

definition on_joiner :: "(threads_joiner \<Rightarrow> threads res) \<Rightarrow> threads \<Rightarrow> threads res" where
  \<comment> \<open>an access through \<open>_threads_joiner\<close>\<close>
  "on_joiner f s = (case ts_joiner s of None \<Rightarrow> Inl NullDeref | Some j \<Rightarrow> f j)"

definition nhr_threads_joiner_clean :: "nat \<Rightarrow> threads \<Rightarrow> threads res" where
  \<comment> \<open>up to the call of \<open>pthread_join\<close>\<close>
  "nhr_threads_joiner_clean t s =
     on_joiner (\<lambda>j.
       case jo_thread j of
         None \<Rightarrow> Inr (set_pc t Th_storing s)
       | Some u \<Rightarrow> Inr (set_pc t (Th_joining u) (s\<lparr>ts_joiner := Some (j\<lparr>jo_thread := None\<rparr>)\<rparr>))) s"

definition joiner_join :: "nat \<Rightarrow> nat \<Rightarrow> threads \<Rightarrow> threads res option" where
  \<comment> \<open>\<open>pthread_join(t->thread, &r); nhr_free(t)\<close>: blocked until thread \<open>u\<close> has exited\<close>
  "joiner_join t u s =
     (let thr = ts_threads s ! u in
      if \<not> u < length (ts_threads s) \<or> \<not> thr_live thr \<or> thr_joined thr then Some (Inl BadPointer)
      else if thr_pc thr = Th_exited
      then Some (Inr (set_pc t Th_storing
             (s\<lparr>ts_threads := (ts_threads s)[u := thr\<lparr>thr_live := False, thr_joined := True\<rparr>]\<rparr>)))
      else None)"

definition joiner_store :: "nat \<Rightarrow> threads \<Rightarrow> threads res" where
  "joiner_store t s =
     on_joiner (\<lambda>j. Inr (set_pc t Th_unlocking (s\<lparr>ts_joiner := Some (j\<lparr>jo_thread := Some t\<rparr>)\<rparr>))) s"

definition nhr_threads_joiner_add :: "nat \<Rightarrow> threads \<Rightarrow> threads res option" where
  \<comment> \<open>the next step of thread \<open>t\<close> inside the function\<close>
  "nhr_threads_joiner_add t s =
     (case thr_pc (ts_threads s ! t) of
        Th_locking \<Rightarrow>
          (case ts_joiner s of
             None \<Rightarrow> Some (Inl NullDeref)
           | Some j \<Rightarrow>
               map_option (\<lambda>m. Inr (set_pc t Th_cleaning (s\<lparr>ts_joiner := Some (j\<lparr>jo_mutex := m\<rparr>)\<rparr>)))
                 (nhr_mutex_lock t (jo_mutex j)))
      | Th_cleaning \<Rightarrow> Some (nhr_threads_joiner_clean t s)
      | Th_joining u \<Rightarrow> joiner_join t u s
      | Th_storing \<Rightarrow> Some (joiner_store t s)
      | Th_unlocking \<Rightarrow>
          Some (on_joiner (\<lambda>j. Inr (set_pc t Th_returning
            (s\<lparr>ts_joiner := Some (j\<lparr>jo_mutex := nhr_mutex_unlock t (jo_mutex j)\<rparr>)\<rparr>))) s)
      | _ \<Rightarrow> None)"

definition nhr_thread_func_priv :: "nat \<Rightarrow> threads \<Rightarrow> threads res option" where
  \<comment> \<open>the next step of thread \<open>t\<close>; \<open>None\<close> when it waits or has exited\<close>
  "nhr_thread_func_priv t s =
     (case thr_pc (ts_threads s ! t) of
        Th_working \<Rightarrow>
          if thr_live (ts_threads s ! t) then Some (Inr (set_pc t Th_locking s)) else Some (Inl BadPointer)
      | Th_returning \<Rightarrow> Some (Inr (set_pc t Th_exited s))
      | Th_exited \<Rightarrow> None
      | _ \<Rightarrow> nhr_threads_joiner_add t s)"

section \<open>Creating threads\<close>

definition set_client :: "nat \<Rightarrow> client_pc \<Rightarrow> threads \<Rightarrow> threads" where
  "set_client c p s = s\<lparr>ts_clients := (ts_clients s)[c := p]\<rparr>"

definition nhr_threads_joiner_create_ifneed :: "'m mach_scheme \<Rightarrow> bool \<Rightarrow> nat \<Rightarrow> threads \<Rightarrow> threads res" where
  \<comment> \<open>the test, the new joiner, and its mutex are three steps of client \<open>c\<close>\<close>
  "nhr_threads_joiner_create_ifneed mc ok c s =
     (case ts_clients s ! c of
        Cl_idle \<Rightarrow> Inr (set_client c (if ts_joiner s \<noteq> None then Cl_spawning else Cl_making) s)
      | Cl_making \<Rightarrow>
          r_bind (nhr_malloc_zero mc sizeof_joiner) (\<lambda>_.
          Inr (set_client c Cl_mutex (s\<lparr>ts_joiner := Some \<lparr>jo_thread = None, jo_mutex = None\<rparr>\<rparr>)))
      | Cl_mutex \<Rightarrow>
          r_bind (nhr_mutex_create_recursive mc ok) (\<lambda>m.
          on_joiner (\<lambda>j. Inr (set_client c Cl_spawning (s\<lparr>ts_joiner := Some (j\<lparr>jo_mutex := m\<rparr>)\<rparr>))) s)
      | Cl_spawning \<Rightarrow> Inr s)"

definition nhr_thread_create :: "'m mach_scheme \<Rightarrow> bool \<Rightarrow> nat \<Rightarrow> threads \<Rightarrow> threads res" where
  \<comment> \<open>the next step of client \<open>c\<close>, for a thread function that is not NULL\<close>
  "nhr_thread_create mc ok c s =
     (if ts_clients s ! c = Cl_spawning
      then r_bind (nhr_malloc_zero mc sizeof_thread) (\<lambda>_.
           r_bind (r_check ok AssertFailed) (\<lambda>_.
           Inr (set_client c Cl_idle (s\<lparr>ts_threads := ts_threads s
                  @ [\<lparr>thr_pc = Th_working, thr_live = True, thr_joined = False\<rparr>]\<rparr>))))
      else nhr_threads_joiner_create_ifneed mc ok c s)"

inductive th_step :: "'m mach_scheme \<Rightarrow> threads \<Rightarrow> threads \<Rightarrow> bool" for mc where
  thread: "t < length (ts_threads s) \<Longrightarrow> nhr_thread_func_priv t s = Some (Inr s') \<Longrightarrow> th_step mc s s'"
| client: "c < length (ts_clients s) \<Longrightarrow> nhr_thread_create mc ok c s = Inr s' \<Longrightarrow> th_step mc s s'"

definition th_init :: "nat \<Rightarrow> threads" where
  \<comment> \<open>before the first thread, with this number of clients\<close>
  "th_init n = \<lparr>ts_joiner = None, ts_threads = [], ts_clients = replicate n Cl_idle\<rparr>"

end
