(* ===== verification/Nhr_Request_Heap.thy ===== *)
theory Nhr_Request_Heap
  imports Nhr_Request_Correct Nhr_Thread
begin

text \<open>
  The request of nhr_request_public.c and its deletion in nhr_request_private.c once more, now
  with the pointers the code has: the request, its mutexes, its strings, the nodes of its maps
  and its response are blocks of the heap of \<open>Nhr_Map\<close>, and every call allocates, links and frees
  them in the order of the code. That these calls do to the represented request what the calls of
  \<open>Nhr_Request\<close> do, and that nothing leaks and nothing is freed twice, is in
  \<open>Nhr_Request_Heap_Correct\<close>.
\<close>

section \<open>Blocks\<close>

record req_block =
  hq_scheme :: ptr
  hq_host :: ptr
  hq_path :: ptr
  hq_boundary :: ptr
  hq_http_headers :: ptr
  hq_parameters :: ptr
  hq_work_mutex :: ptr
  hq_command_mutex :: ptr
  hq_response :: ptr
  hq_rest :: nhr_request   \<comment> \<open>the members that own no block; the others of this record are not used\<close>

datatype req_struct =
    Request_block req_block
  | Response_block ptr nhr_response   \<comment> \<open>the member \<open>body\<close>, and the others\<close>
  | Mutex_block mutex

type_synonym req_heap = "req_struct map_heap"

definition rq_at :: "req_heap \<Rightarrow> ptr \<Rightarrow> req_block res" where
  "rq_at h p =
     (case p of
        None \<Rightarrow> Inl NullDeref
      | Some a \<Rightarrow> (case h_get h a of Some (St (Request_block q)) \<Rightarrow> Inr q | _ \<Rightarrow> Inl BadPointer))"

definition rs_at :: "req_heap \<Rightarrow> nat \<Rightarrow> (ptr \<times> nhr_response) res" where
  "rs_at h a = (case h_get h a of Some (St (Response_block b r)) \<Rightarrow> Inr (b, r) | _ \<Rightarrow> Inl BadPointer)"

definition rq_put :: "req_heap \<Rightarrow> nat \<Rightarrow> (req_block \<Rightarrow> req_block) \<Rightarrow> req_heap res" where
  \<comment> \<open>an assignment to a member of the request\<close>
  "rq_put h a f = r_bind (rq_at h (Some a)) (\<lambda>q. Inr (h_put h a (St (Request_block (f q)))))"

definition on_rest :: "(nhr_request \<Rightarrow> nhr_request) \<Rightarrow> req_block \<Rightarrow> req_block" where
  "on_rest f q = q\<lparr>hq_rest := f (hq_rest q)\<rparr>"

definition nd_put :: "req_heap \<Rightarrow> ptr \<Rightarrow> (nhr_map_node \<Rightarrow> nhr_map_node) \<Rightarrow> req_heap res" where
  \<comment> \<open>an assignment to a member of a node\<close>
  "nd_put h lst f = r_bind (nd_at h lst) (\<lambda>n. Inr (h_put h (the lst) (Nd (f n))))"

definition store :: "req_heap \<Rightarrow> bytes option \<Rightarrow> ptr \<times> req_heap" where
  \<comment> \<open>a block that a function of \<open>Nhr_Memory\<close> or \<open>Nhr_String\<close> has allocated and filled\<close>
  "store h b =
     (case b of
        None \<Rightarrow> (None, h)
      | Some bs \<Rightarrow> (case h_new h (Blk bs) of (a, h) \<Rightarrow> (Some a, h)))"

definition ro_bind :: "'a res option \<Rightarrow> ('a \<Rightarrow> 'b res option) \<Rightarrow> 'b res option" where
  \<comment> \<open>\<open>None\<close> is a call that does not return, see nhr_map_last\<close>
  "ro_bind m f = (case m of None \<Rightarrow> None | Some (Inl e) \<Rightarrow> Some (Inl e) | Some (Inr x) \<Rightarrow> f x)"

section \<open>Creating and setting\<close>

definition empty_block :: req_block where
  "empty_block = \<lparr>hq_scheme = None, hq_host = None, hq_path = None, hq_boundary = None,
     hq_http_headers = None, hq_parameters = None, hq_work_mutex = None, hq_command_mutex = None,
     hq_response = None, hq_rest = new_request\<rparr>"

definition heap_mutex_create :: "'m mach_scheme \<Rightarrow> bool \<Rightarrow> req_heap \<Rightarrow> (ptr \<times> req_heap) res" where
  "heap_mutex_create mc ok h =
     r_bind (nhr_mutex_create_recursive mc ok) (\<lambda>m.
     case m of
       None \<Rightarrow> Inr (None, h)
     | Some x \<Rightarrow> (case h_new h (St (Mutex_block x)) of (b, h) \<Rightarrow> Inr (Some b, h)))"

definition heap_request_create :: "'m mach_scheme \<Rightarrow> bool \<Rightarrow> req_heap \<Rightarrow> (ptr \<times> req_heap) res" where
  "heap_request_create mc ok h =
     r_bind (nhr_malloc_zero mc sizeof_request) (\<lambda>_.
     case h_new h (St (Request_block empty_block)) of (a, h) \<Rightarrow>
     r_bind (heap_mutex_create mc ok h) (\<lambda>(m, h).
     r_bind (rq_put h a (\<lambda>q. q\<lparr>hq_work_mutex := m\<rparr>)) (\<lambda>h.
     r_bind (heap_mutex_create mc ok h) (\<lambda>(m, h).
     r_bind (rq_put h a (\<lambda>q. q\<lparr>hq_command_mutex := m\<rparr>)) (\<lambda>h.
     Inr (Some a, h))))))"

definition replace_string ::
    "'m mach_scheme \<Rightarrow> req_heap \<Rightarrow> nat \<Rightarrow> (req_block \<Rightarrow> ptr) \<Rightarrow> (ptr \<Rightarrow> req_block \<Rightarrow> req_block)
       \<Rightarrow> bytes option \<Rightarrow> req_heap res" where
  \<comment> \<open>\<open>nhr_string_delete(request->m); request->m = nhr_string_copy(str)\<close>\<close>
  "replace_string mc h a get upd str =
     r_bind (rq_at h (Some a)) (\<lambda>q.
     r_bind (nhr_string_delete h (get q)) (\<lambda>h.
     r_bind (nhr_string_copy mc str) (\<lambda>s.
     case store h s of (p, h) \<Rightarrow> rq_put h a (upd p))))"

definition heap_set_url ::
    "'m mach_scheme \<Rightarrow> req_heap \<Rightarrow> ptr \<Rightarrow> bytes option \<Rightarrow> bytes option \<Rightarrow> bytes option \<Rightarrow> 16 word
       \<Rightarrow> req_heap res" where
  "heap_set_url mc h request scheme host path port =
     (case request of
        None \<Rightarrow> Inr h
      | Some a \<Rightarrow>
          r_bind (replace_string mc h a hq_scheme (\<lambda>p q. q\<lparr>hq_scheme := p\<rparr>) scheme) (\<lambda>h.
          r_bind (replace_string mc h a hq_host (\<lambda>p q. q\<lparr>hq_host := p\<rparr>) host) (\<lambda>h.
          r_bind (replace_string mc h a hq_path (\<lambda>p q. q\<lparr>hq_path := p\<rparr>) path) (\<lambda>h.
          rq_put h a (on_rest (\<lambda>r. r\<lparr>rq_port := port\<rparr>))))))"

definition heap_set_method :: "req_heap \<Rightarrow> ptr \<Rightarrow> nhr_method option \<Rightarrow> req_heap res" where
  "heap_set_method h request m =
     (case request of None \<Rightarrow> Inr h | Some a \<Rightarrow> rq_put h a (on_rest (\<lambda>r. r\<lparr>rq_method := m\<rparr>)))"

section \<open>Header fields and parameters\<close>

definition heap_next_node ::
    "'m mach_scheme \<Rightarrow> req_heap \<Rightarrow> nat \<Rightarrow> (req_block \<Rightarrow> ptr) \<Rightarrow> (ptr \<Rightarrow> req_block \<Rightarrow> req_block)
       \<Rightarrow> (ptr \<times> req_heap) res option" where
  \<comment> \<open>\<open>if (!request->m) request->m = nhr_map_create(); lst = nhr_map_append(request->m)\<close>\<close>
  "heap_next_node mc h a get upd =
     ro_bind (Some (rq_at h (Some a))) (\<lambda>q.
     ro_bind (Some (if get q = None
                    then r_bind (nhr_map_create mc h) (\<lambda>(m, h). rq_put h a (upd m)) else Inr h)) (\<lambda>h.
     ro_bind (Some (rq_at h (Some a))) (\<lambda>q. nhr_map_append mc h (get q))))"

definition heap_node_string ::
    "'m mach_scheme \<Rightarrow> req_heap \<Rightarrow> ptr \<Rightarrow> (ptr \<Rightarrow> nhr_map_node \<Rightarrow> nhr_map_node) \<Rightarrow> bytes option \<Rightarrow> nat
       \<Rightarrow> req_heap res" where
  \<comment> \<open>\<open>lst->m = nhr_string_copy_len(str, len)\<close>\<close>
  "heap_node_string mc h lst upd str len =
     r_bind (nhr_string_copy_len mc str len) (\<lambda>s. case store h s of (p, h) \<Rightarrow> nd_put h lst (upd p))"

definition heap_string_entry ::
    "'m mach_scheme \<Rightarrow> req_heap \<Rightarrow> nat \<Rightarrow> (req_block \<Rightarrow> ptr) \<Rightarrow> (ptr \<Rightarrow> req_block \<Rightarrow> req_block)
       \<Rightarrow> bytes option \<Rightarrow> nat \<Rightarrow> bytes option \<Rightarrow> nat \<Rightarrow> req_heap res option" where
  "heap_string_entry mc h a get upd name name_len val val_len =
     ro_bind (heap_next_node mc h a get upd) (\<lambda>(lst, h).
     Some (r_bind (heap_node_string mc h lst (\<lambda>p n. n\<lparr>nd_key := p\<rparr>) name name_len) (\<lambda>h.
           r_bind (heap_node_string mc h lst (\<lambda>p n. n\<lparr>nd_value := V_data p\<rparr>) val val_len) (\<lambda>h.
           nd_put h lst (\<lambda>n. n\<lparr>nd_value_size := val_len, nd_value_type := NHR_MAP_VALUE_STRING\<rparr>)))))"

definition heap_add_header_field ::
    "'m mach_scheme \<Rightarrow> req_heap \<Rightarrow> ptr \<Rightarrow> bytes option \<Rightarrow> bytes option \<Rightarrow> req_heap res option" where
  "heap_add_header_field mc h request name val =
     (case request of
        None \<Rightarrow> Some (Inr h)
      | Some a \<Rightarrow>
          ro_bind (Some (strlen_or_0 name)) (\<lambda>name_len.
          ro_bind (Some (strlen_or_0 val)) (\<lambda>val_len.
          if name_len = 0 \<or> val_len = 0 then Some (Inr h)
          else ro_bind (heap_string_entry mc h a hq_http_headers (\<lambda>p q. q\<lparr>hq_http_headers := p\<rparr>)
                          name name_len val val_len) (\<lambda>h.
               Some (r_bind (c_string (blk_bytes val)) (\<lambda>v.
                     rq_put h a (on_rest (\<lambda>r.
                       let r = (if v = k_nhr_gzip then r\<lparr>rq_is_gziped := True\<rparr> else r) in
                       if v = k_nhr_deflate then r\<lparr>rq_is_deflated := True\<rparr> else r))))))))"

definition heap_add_parameter ::
    "'m mach_scheme \<Rightarrow> req_heap \<Rightarrow> ptr \<Rightarrow> bytes option \<Rightarrow> bytes option \<Rightarrow> req_heap res option" where
  "heap_add_parameter mc h request name val =
     (case request of
        None \<Rightarrow> Some (Inr h)
      | Some a \<Rightarrow>
          ro_bind (Some (strlen_or_0 name)) (\<lambda>name_len.
          ro_bind (Some (strlen_or_0 val)) (\<lambda>val_len.
          if name_len = 0 \<or> val_len = 0 then Some (Inr h)
          else ro_bind (Some (rq_at h (Some a))) (\<lambda>q.
               ro_bind (Some (r_check (rq_method (hq_rest q) \<noteq> None) AssertFailed)) (\<lambda>_.
               heap_string_entry mc h a hq_parameters (\<lambda>p q. q\<lparr>hq_parameters := p\<rparr>)
                 name name_len val val_len)))))"

definition delete_member ::
    "(req_heap \<Rightarrow> ptr option \<Rightarrow> (ptr option \<times> req_heap) res) \<Rightarrow> req_heap \<Rightarrow> nat \<Rightarrow> (req_block \<Rightarrow> ptr)
       \<Rightarrow> (ptr \<Rightarrow> req_block \<Rightarrow> req_block) \<Rightarrow> req_heap res" where
  \<comment> \<open>\<open>delete_clean(&r->m)\<close>\<close>
  "delete_member delete_clean h a get upd =
     r_bind (rq_at h (Some a)) (\<lambda>q.
     r_bind (delete_clean h (Some (get q))) (\<lambda>(p, h). rq_put h a (upd (the p))))"

definition heap_generate_new_boundary :: "'z gz_mach \<Rightarrow> req_heap \<Rightarrow> nat \<Rightarrow> req_heap res" where
  "heap_generate_new_boundary mc h a =
     r_bind (delete_member nhr_string_delete_clean h a hq_boundary (\<lambda>p q. q\<lparr>hq_boundary := p\<rparr>)) (\<lambda>h.
     r_bind (rq_at h (Some a)) (\<lambda>q.
     r_bind (nhr_request_generate_new_boundary mc (hq_rest q)) (\<lambda>r.
     case store h (rq_boundary r) of (p, h) \<Rightarrow> rq_put h a (\<lambda>q. q\<lparr>hq_boundary := p\<rparr>))))"

definition heap_add_data_parameter ::
    "'z gz_mach \<Rightarrow> req_heap \<Rightarrow> ptr \<Rightarrow> bytes option \<Rightarrow> bytes option \<Rightarrow> bytes option \<Rightarrow> nat
       \<Rightarrow> req_heap res option" where
  "heap_add_data_parameter mc h request name file_name data data_size =
     (case (request, data) of
        (Some a, Some d) \<Rightarrow>
          if data_size = 0 then Some (Inr h)
          else
          ro_bind (Some (strlen_or_0 name)) (\<lambda>name_len.
          ro_bind (Some (strlen_or_0 file_name)) (\<lambda>file_name_len.
          if name_len = 0 \<or> file_name_len = 0 then Some (Inr h)
          else
          ro_bind (Some (rq_at h (Some a))) (\<lambda>q.
          ro_bind (Some (r_check (rq_method (hq_rest q) \<noteq> None) AssertFailed)) (\<lambda>_.
          ro_bind (Some (nhr_malloc mc data_size)) (\<lambda>dd.
          ro_bind (Some (mem_read d data_size)) (\<lambda>src.
          ro_bind (Some (memcpy_to dd 0 src)) (\<lambda>dd.
          case store h dd of (dp, h) \<Rightarrow>
          ro_bind (heap_next_node mc h a hq_parameters (\<lambda>p q. q\<lparr>hq_parameters := p\<rparr>)) (\<lambda>(lst, h).
          Some (
            r_bind (heap_node_string mc h lst (\<lambda>p n. n\<lparr>nd_key := p\<rparr>) name name_len) (\<lambda>h.
            r_bind (heap_node_string mc h lst (\<lambda>p n. n\<lparr>nd_reserved := V_data p\<rparr>) file_name file_name_len) (\<lambda>h.
            r_bind (nd_put h lst (\<lambda>n. n\<lparr>nd_reserved_size := file_name_len,
                      nd_reserved_type := NHR_MAP_VALUE_STRING, nd_value := V_data dp,
                      nd_value_size := data_size, nd_value_type := NHR_MAP_VALUE_DATA\<rparr>)) (\<lambda>h.
            r_bind (rq_put h a (on_rest (\<lambda>r. r\<lparr>rq_is_have_data_parameter := True\<rparr>))) (\<lambda>h.
            r_bind (rq_at h (Some a)) (\<lambda>q.
            if hq_boundary q = None then heap_generate_new_boundary mc h a else Inr h))))))))))))))
      | _ \<Rightarrow> Some (Inr h))"

section \<open>Deleting\<close>

definition heap_mutex_delete :: "req_heap \<Rightarrow> ptr \<Rightarrow> req_heap res" where
  "heap_mutex_delete h mutex = (if mutex \<noteq> None then nhr_free h mutex else Inr h)"

definition nhr_response_delete :: "req_heap \<Rightarrow> ptr \<Rightarrow> req_heap res" where
  "nhr_response_delete h r =
     r_bind (case r of None \<Rightarrow> Inr h | Some a \<Rightarrow> r_bind (rs_at h a) (\<lambda>(body, _). nhr_free h body)) (\<lambda>h.
     nhr_free h r)"

definition heap_request_delete :: "req_heap \<Rightarrow> nat \<Rightarrow> req_heap res" where
  "heap_request_delete h a =
     r_bind (rq_put h a (on_rest nhr_request_close)) (\<lambda>h.
     r_bind (delete_member nhr_string_delete_clean h a hq_scheme (\<lambda>p q. q\<lparr>hq_scheme := p\<rparr>)) (\<lambda>h.
     r_bind (delete_member nhr_string_delete_clean h a hq_host (\<lambda>p q. q\<lparr>hq_host := p\<rparr>)) (\<lambda>h.
     r_bind (delete_member nhr_string_delete_clean h a hq_path (\<lambda>p q. q\<lparr>hq_path := p\<rparr>)) (\<lambda>h.
     r_bind (delete_member nhr_map_delete_clean h a hq_http_headers (\<lambda>p q. q\<lparr>hq_http_headers := p\<rparr>)) (\<lambda>h.
     r_bind (delete_member nhr_map_delete_clean h a hq_parameters (\<lambda>p q. q\<lparr>hq_parameters := p\<rparr>)) (\<lambda>h.
     r_bind (rq_at h (Some a)) (\<lambda>q.
     r_bind (heap_mutex_delete h (hq_work_mutex q)) (\<lambda>h.
     r_bind (heap_mutex_delete h (hq_command_mutex q)) (\<lambda>h.
     r_bind (nhr_response_delete h (hq_response q)) (\<lambda>h.
     r_bind (delete_member nhr_string_delete_clean h a hq_boundary (\<lambda>p q. q\<lparr>hq_boundary := p\<rparr>)) (\<lambda>h.
     nhr_free h (Some a))))))))))))"

definition heap_request_cancel :: "req_heap \<Rightarrow> ptr \<Rightarrow> req_heap res" where
  "heap_request_cancel h request =
     (case request of
        None \<Rightarrow> Inr h
      | Some a \<Rightarrow>
          r_bind (rq_at h (Some a)) (\<lambda>q.
          if rq_work_thread (hq_rest q) \<noteq> None
          then rq_put h a (on_rest (\<lambda>r. nhr_request_set_command r NHR_COMMAND_END))
          else r_bind (rq_put h a (on_rest nhr_request_close)) (\<lambda>h. heap_request_delete h a)))"

end
