(* ===== verification/Nhr_Response_Heap.thy ===== *)
theory Nhr_Response_Heap
  imports Nhr_Request_Heap Nhr_Worker
begin

text \<open>
  Receiving a response (nhr_response.c and nhr_request_recv) with the pointers the code has: the
  response and its body are blocks of the heap of \<open>Nhr_Request_Heap\<close>, the body is reallocated as it
  grows and replaced when it has been decompressed. The members of the response other than \<open>body\<close>
  are read and set by the functions of \<open>Nhr_Response\<close>. That these calls do to the represented response
  what the calls of \<open>Nhr_Response\<close> do is in \<open>Nhr_Response_Heap_Correct\<close>.
\<close>

section \<open>Blocks\<close>

definition blk_at :: "req_heap \<Rightarrow> ptr \<Rightarrow> bytes option res" where
  "blk_at h p =
     (case p of
        None \<Rightarrow> Inr None
      | Some a \<Rightarrow> (case h_get h a of Some (Blk b) \<Rightarrow> Inr (Some b) | _ \<Rightarrow> Inl BadPointer))"

definition heap_realloc :: "'m mach_scheme \<Rightarrow> req_heap \<Rightarrow> ptr \<Rightarrow> nat \<Rightarrow> (ptr \<times> req_heap) res" where
  \<comment> \<open>the block always moves, so that an old pointer to it is a bad one; for size 0 it is not freed\<close>
  "heap_realloc mc h mem new_size =
     (if new_size > 0
      then r_bind (blk_at h mem) (\<lambda>old.
           r_bind (nhr_realloc mc old new_size) (\<lambda>b.
           r_bind (nhr_free h mem) (\<lambda>h. Inr (store h b))))
      else Inr (None, h))"

definition heap_memcpy :: "req_heap \<Rightarrow> ptr \<Rightarrow> nat \<Rightarrow> bytes \<Rightarrow> req_heap res" where
  "heap_memcpy h mem off data =
     r_bind (blk_at h mem) (\<lambda>b.
     r_bind (memcpy_to b off data) (\<lambda>b.
     case (mem, b) of (Some a, Some bs) \<Rightarrow> Inr (h_put h a (Blk bs)) | _ \<Rightarrow> Inr h))"

definition rs_put :: "req_heap \<Rightarrow> nat \<Rightarrow> ptr \<Rightarrow> nhr_response \<Rightarrow> req_heap" where
  "rs_put h a body r = h_put h a (St (Response_block body r))"

definition rs_apply :: "req_heap \<Rightarrow> nat \<Rightarrow> (nhr_response \<Rightarrow> nhr_response res) \<Rightarrow> req_heap res" where
  \<comment> \<open>a call that reads and sets members other than \<open>body\<close>\<close>
  "rs_apply h a f = r_bind (rs_at h a) (\<lambda>(body, r). r_bind (f r) (\<lambda>r. Inr (rs_put h a body r)))"

section \<open>The body\<close>

definition heap_response_ungzip :: "'z gz_mach \<Rightarrow> req_heap \<Rightarrow> nat \<Rightarrow> req_heap res" where
  "heap_response_ungzip mc h a =
     r_bind (rs_at h a) (\<lambda>(body, r).
     r_bind (blk_at h body) (\<lambda>b.
     if b = None \<or> rs_body_len r = 0 then Inr h
     else r_bind (if is_gzip r
                  then nhr_gz_decompress mc b (unat (rs_body_len r)) NHR_GZ_METHOD_GZIP
                  else if is_deflate r
                  then nhr_gz_decompress mc b (unat (rs_body_len r)) NHR_GZ_METHOD_DEFLATE
                  else Inr None) (\<lambda>d.
          case d of
            None \<Rightarrow> Inr h
          | Some (decompressed, decompressed_size) \<Rightarrow>
              (case store h decompressed of (p, h) \<Rightarrow>
               if p \<noteq> None \<and> decompressed_size > 0
               then r_bind (nhr_free h body) (\<lambda>h.
                    Inr (rs_put h a p (r\<lparr>rs_body_len := of_nat decompressed_size\<rparr>)))
               else nhr_free h p))))"

definition heap_response_add_body_data :: "'z gz_mach \<Rightarrow> req_heap \<Rightarrow> nat \<Rightarrow> bytes \<Rightarrow> size_t \<Rightarrow> req_heap res" where
  "heap_response_add_body_data mc h a data data_size =
     r_bind (rs_at h a) (\<lambda>(body, r).
     let required = rs_body_len r + data_size in
     r_bind (if required > rs_body_size r
             then r_bind (heap_realloc mc h body (unat required)) (\<lambda>(body, h).
                  Inr (rs_put h a body (r\<lparr>rs_body_size := required\<rparr>)))
             else Inr h) (\<lambda>h.
     r_bind (rs_at h a) (\<lambda>(body, r).
     r_bind (mem_read data (unat data_size)) (\<lambda>d.
     r_bind (heap_memcpy h body (unat (rs_body_len r)) d) (\<lambda>h.
     Inr (rs_put h a body (nhr_response_fix_body_len (r\<lparr>rs_body_len := rs_body_len r + data_size\<rparr>))))))))"

function heap_response_read_chunks :: "'z gz_mach \<Rightarrow> req_heap \<Rightarrow> nat \<Rightarrow> bytes \<Rightarrow> req_heap res" where
  "heap_response_read_chunks mc h a str =
     r_bind (sscanf_X str) (\<lambda>n1.
     r_bind (if n1 = None then sscanf_X str else Inr n1) (\<lambda>n.
     case n of
       None \<Rightarrow> Inr h
     | Some chunk_len \<Rightarrow>
         r_bind (skip_while isxdigit str) (\<lambda>str1.
         if chunk_len = 0
         then r_bind (strncmp_eq str1 k_nhr_double_CRLF) (\<lambda>e.
              if e then rs_apply h a (\<lambda>r. Inr (r\<lparr>rs_is_all_chunks_processed := True\<rparr>)) else Inr h)
         else r_bind (ptr_add k_nhr_CRLF_length str1) (\<lambda>str2.
              r_bind (heap_response_add_body_data mc h a str2 (ucast chunk_len)) (\<lambda>h1.
              r_bind (ptr_add (unat chunk_len) str2) (\<lambda>str3.
              r_bind (ptr_add k_nhr_CRLF_length str3) (\<lambda>str4.
              heap_response_read_chunks mc h1 a str4)))))))"
  by pat_completeness auto
termination
proof (relation "measure (\<lambda>(mc, h, a, str). length str)", goal_cases)
  case (2 mc h a str n1 n chunk_len str1 str2 h1 str3 str4)
  then have "length str1 \<le> length str" "str2 = drop 2 str1" "2 \<le> length str1"
    by (auto simp: ptr_add_Inr_conv k_nhr_CRLF_length_def dest: skip_while_length)
  moreover from 2 have "length str4 \<le> length str2"
    by (auto simp: ptr_add_Inr_conv)
  ultimately show ?case by simp
qed simp

declare heap_response_read_chunks.simps [simp del]

definition heap_response_parse_body :: "'z gz_mach \<Rightarrow> req_heap \<Rightarrow> nat \<Rightarrow> bytes \<Rightarrow> size_t \<Rightarrow> req_heap res" where
  "heap_response_parse_body mc h a received received_len =
     r_bind (strstr received k_nhr_double_CRLF) (\<lambda>sub.
     case sub of
       None \<Rightarrow> Inr h
     | Some sub \<Rightarrow>
         let skiped = (of_nat (length received - length sub) :: size_t) in
         if skiped > of_nat k_nhr_double_CRLF_length
         then r_bind (ptr_add k_nhr_double_CRLF_length sub) (\<lambda>sub.
              let skiped = skiped + of_nat k_nhr_double_CRLF_length in
              r_bind (rs_at h a) (\<lambda>(_, r).
              r_bind (if is_chunked r then heap_response_read_chunks mc h a sub
                      else let body_len = received_len - skiped;
                               body_size = (if rs_content_length r > body_len
                                            then rs_content_length r + 32 else body_len) in
                           r_bind (nhr_malloc mc (unat body_size)) (\<lambda>b.
                           case store h b of (body, h) \<Rightarrow>
                           r_bind (mem_read sub (unat body_len)) (\<lambda>d.
                           r_bind (heap_memcpy h body 0 d) (\<lambda>h.
                           Inr (rs_put h a body (r\<lparr>rs_body_len := body_len, rs_body_size := body_size\<rparr>))))))
                (\<lambda>h. rs_apply h a (\<lambda>r. Inr (nhr_response_fix_body_len r)))))
         else Inr h)"

section \<open>Creating, appending, receiving\<close>

definition heap_response_check_is_finished :: "'z gz_mach \<Rightarrow> req_heap \<Rightarrow> nat \<Rightarrow> req_heap res" where
  "heap_response_check_is_finished mc h a =
     r_bind (rs_at h a) (\<lambda>(_, r).
     if \<not> nhr_response_is_finished_receiving r then Inr h
     else r_bind (if is_gzip r \<or> is_deflate r then heap_response_ungzip mc h a else Inr h) (\<lambda>h.
          rs_apply h a (\<lambda>r. Inr (r\<lparr>rs_is_finished := True\<rparr>))))"

definition heap_response_create :: "'z gz_mach \<Rightarrow> req_heap \<Rightarrow> bytes \<Rightarrow> size_t \<Rightarrow> (ptr \<times> req_heap) res" where
  "heap_response_create mc h received received_len =
     r_bind (nhr_malloc_zero mc sizeof_response) (\<lambda>_.
     case h_new h (St (Response_block None zero_response)) of (a, h) \<Rightarrow>
     r_bind (rs_apply h a (\<lambda>r. nhr_response_parse_status_code r received)) (\<lambda>h.
     r_bind (rs_at h a) (\<lambda>(_, r).
     r_bind (if rs_status_code r \<noteq> 0
             then r_bind (rs_apply h a (\<lambda>r. nhr_response_parse_content_length r received)) (\<lambda>h.
                  r_bind (rs_apply h a (\<lambda>r. nhr_response_parse_transfer_encoding r received)) (\<lambda>h.
                  r_bind (rs_apply h a (\<lambda>r. nhr_response_parse_content_encoding r received)) (\<lambda>h.
                  heap_response_parse_body mc h a received received_len)))
             else Inr h) (\<lambda>h.
     r_bind (heap_response_check_is_finished mc h a) (\<lambda>h. Inr (Some a, h))))))"

definition heap_response_append :: "'z gz_mach \<Rightarrow> req_heap \<Rightarrow> nat \<Rightarrow> bytes \<Rightarrow> size_t \<Rightarrow> req_heap res" where
  "heap_response_append mc h a received received_len =
     r_bind (rs_at h a) (\<lambda>(_, r).
     r_bind (if is_chunked r then heap_response_read_chunks mc h a received
             else heap_response_add_body_data mc h a received received_len) (\<lambda>h.
     heap_response_check_is_finished mc h a))"

fun heap_recv_loop ::
    "'z gz_mach \<Rightarrow> recv_answer list \<Rightarrow> bytes \<Rightarrow> int list \<Rightarrow> req_heap \<Rightarrow> nat \<Rightarrow> (int list \<times> req_heap) res" where
  \<comment> \<open>the loop of nhr_request_recv for the request at \<open>a\<close>, with the answers of \<open>recv\<close> and the clock\<close>
  "heap_recv_loop mc [] buff clock h a = Inl OutOfFuel"
| "heap_recv_loop mc (Recv_data d # rest) buff clock h a =
     (let buff = d @ drop (length d) buff in
      case clock of
        [] \<Rightarrow> Inl OutOfFuel
      | now # clock \<Rightarrow>
          r_bind (rq_put h a (on_rest (\<lambda>r. r\<lparr>rq_last_time := now\<rparr>))) (\<lambda>h.
          r_bind (rq_at h (Some a)) (\<lambda>q.
          r_bind (case hq_response q of
                    Some b \<Rightarrow> heap_response_append mc h b buff (of_nat (length d))
                  | None \<Rightarrow> r_bind (heap_response_create mc h buff (of_nat (length d))) (\<lambda>(p, h).
                            rq_put h a (\<lambda>q. q\<lparr>hq_response := p\<rparr>))) (\<lambda>h.
          heap_recv_loop mc rest buff clock h a))))"
| "heap_recv_loop mc (Recv_eof # rest) buff clock h a = Inr (clock, h)"
| "heap_recv_loop mc (Recv_fail e # rest) buff clock h a = Inr (clock, h)"

text \<open>
  The calls of nhr_request_recv that one request makes, each with the answers of \<open>recv\<close>, what its
  local buffer holds before, and the clock; in between the worker touches no block of the request.
\<close>

type_synonym recv_round = "recv_answer list \<times> bytes \<times> int list"

fun recv_rounds :: "'z gz_mach \<Rightarrow> recv_round list \<Rightarrow> sys \<Rightarrow> sys res" where
  "recv_rounds mc [] s = Inr s"
| "recv_rounds mc ((answers, buff, clock) # rounds) s =
     r_bind (recv_loop mc answers buff (s\<lparr>sy_clock := clock\<rparr>)) (recv_rounds mc rounds)"

fun heap_recv_rounds :: "'z gz_mach \<Rightarrow> recv_round list \<Rightarrow> req_heap \<Rightarrow> nat \<Rightarrow> req_heap res" where
  "heap_recv_rounds mc [] h a = Inr h"
| "heap_recv_rounds mc ((answers, buff, clock) # rounds) h a =
     r_bind (heap_recv_loop mc answers buff clock h a) (\<lambda>(_, h). heap_recv_rounds mc rounds h a)"

end
