(* ===== verification/Nhr_Heap_Ownership.thy ===== *)
theory Nhr_Heap_Ownership
  imports Nhr_Request_Heap "HOL-Library.Multiset"
begin

text \<open>
  Who owns which block of the heap. \<open>owns h0 h ps\<close> says that the heap is \<open>h0\<close> and, apart from it,
  exactly the blocks \<open>ps\<close>, each with one owner; allocating, assigning and freeing are followed through
  it, then the steps of a map and, by the interface \<open>member\<close>, the steps on a pointer member of a
  request.
\<close>

section \<open>Ownership\<close>

definition owns :: "'b heap \<Rightarrow> 'b heap \<Rightarrow> ptr list \<Rightarrow> bool" where
  "owns h0 h ps \<longleftrightarrow> distinct (addresses ps)
     \<and> (\<forall>a. Some a \<in> set ps \<longrightarrow> h_get h a \<noteq> None \<and> h_get h0 a = None)
     \<and> (\<forall>a. Some a \<notin> set ps \<longrightarrow> h_get h a = h_get h0 a)"

definition same_at :: "'b heap \<Rightarrow> 'b heap \<Rightarrow> ptr list \<Rightarrow> bool" where
  "same_at h h' ps \<longleftrightarrow> (\<forall>a. Some a \<in> set ps \<longrightarrow> h_get h' a = h_get h a)"

lemma owns_init: "owns h h []"
  by (simp add: owns_def)

lemma owns_all_freed: "owns h0 h [] \<Longrightarrow> h_get h a = h_get h0 a"
  by (simp add: owns_def)

lemma mset_addresses: "mset ps = mset qs \<Longrightarrow> mset (addresses ps) = mset (addresses qs)"
proof -
  assume m: "mset ps = mset qs"
  have "mset (addresses ps) = (\<Sum>p \<in># mset ps. mset (case_option [] (\<lambda>a. [a]) p))" for ps :: "ptr list"
    by (induction ps) (auto simp: mset_concat)
  with m show ?thesis by simp
qed

lemma owns_perm: "owns h0 h ps \<Longrightarrow> mset ps = mset qs \<Longrightarrow> owns h0 h qs"
  unfolding owns_def using mset_eq_imp_distinct_iff [OF mset_addresses] mset_eq_setD by metis

lemma owns_None: "owns h0 h (None # ps) = owns h0 h ps"
  by (auto simp: owns_def)

lemma owns_alloc:
  assumes "owns h0 h ps"
  shows "owns h0 (h @ [Some b]) (Some (length h) # ps)" "same_at h (h @ [Some b]) ps"
    "h_get (h @ [Some b]) (length h) = Some b" "Some (length h) \<notin> set ps"
proof -
  have get: "h_get (h @ [Some b]) x = (if x = length h then Some b else h_get h x)" for x
    using h_get_new(1) [of h b x] by (simp add: h_new_def)
  show new: "Some (length h) \<notin> set ps" using assms h_get_fresh [of h] unfolding owns_def by blast
  show "owns h0 (h @ [Some b]) (Some (length h) # ps)"
    using assms new h_get_fresh [of h] in_addresses [of "length h" ps]
    unfolding owns_def by (auto simp: get)
  show "same_at h (h @ [Some b]) ps" using new by (auto simp: same_at_def get)
  show "h_get (h @ [Some b]) (length h) = Some b" by (simp add: get)
qed

lemma owns_disjoint:
  assumes "owns h0 h (ps @ qs)" "Some a \<in> set ps"
  shows "Some a \<notin> set qs"
  using assms distinct_addresses_append [of ps qs a] by (simp add: owns_def)

lemma owns_put:
  assumes "owns h0 h (Some a # ps)"
  shows "owns h0 (h_put h a b) (Some a # ps)" "same_at h (h_put h a b) ps" "h_get (h_put h a b) a = Some b"
proof -
  have al: "h_get h a \<noteq> None" using assms by (auto simp: owns_def)
  note get = h_get_put [OF this]
  have new: "Some a \<notin> set ps" using owns_disjoint [of h0 h "[Some a]" ps a] assms by simp
  show "owns h0 (h_put h a b) (Some a # ps)" using assms by (auto simp: owns_def get)
  show "same_at h (h_put h a b) ps" using new by (auto simp: same_at_def get)
  show "h_get (h_put h a b) a = Some b" by (simp add: get)
qed

lemma owns_free:
  assumes "owns h0 h (p # ps)"
  shows "\<exists>h'. nhr_free h p = Inr h' \<and> owns h0 h' ps \<and> same_at h h' ps"
proof (cases p)
  case None
  with assms show ?thesis by (simp add: owns_None same_at_def)
next
  case (Some a)
  then have al: "h_get h a \<noteq> None" using assms by (auto simp: owns_def)
  have new: "Some a \<notin> set ps" using owns_disjoint [of h0 h "[Some a]" ps a] assms Some by simp
  have "owns h0 (h[a := None]) ps"
    using assms Some new by (auto simp: owns_def h_get_free)
  moreover have "same_at h (h[a := None]) ps" using new by (auto simp: same_at_def h_get_free)
  ultimately show ?thesis using Some al by (simp add: nhr_free_Some)
qed

lemma owns_release:
  "owns h0 h (qs @ ps) \<Longrightarrow> \<exists>h'. heap.release_all h qs = Inr h' \<and> owns h0 h' ps \<and> same_at h h' ps"
proof (induction qs arbitrary: h)
  case Nil
  then show ?case by (simp add: same_at_def)
next
  case (Cons q qs)
  obtain h1 where h1: "nhr_free h q = Inr h1" "owns h0 h1 (qs @ ps)" "same_at h h1 (qs @ ps)"
    using owns_free [of h0 h q "qs @ ps"] Cons.prems by auto
  with Cons.IH [OF h1(2)] show ?case by (auto simp: same_at_def)
qed

lemma same_at_trans: "same_at h h' ps \<Longrightarrow> same_at h' h'' ps \<Longrightarrow> same_at h h'' ps"
  by (simp add: same_at_def)

lemma same_at_sub: "same_at h h' ps \<Longrightarrow> set qs \<subseteq> set ps \<Longrightarrow> same_at h h' qs"
  by (auto simp: same_at_def)

section \<open>Strings and maps under ownership\<close>

lemma load_same: "same_at h h' ps \<Longrightarrow> p \<in> set ps \<Longrightarrow> load h' p = load h p"
  by (auto simp: same_at_def load_def split: option.split)

lemma owns_store:
  assumes "owns h0 h ps" "store h b = (p, h')"
  shows "owns h0 h' (p # ps)" "same_at h h' ps" "load h' p = b" "p \<noteq> None \<Longrightarrow> b \<noteq> None"
  using assms owns_alloc [OF assms(1)]
  by (auto simp: store_def h_new_def load_def owns_None same_at_def split: option.split_asm)

definition node_ok :: "nhr_map_node \<Rightarrow> bool" where
  \<comment> \<open>the pointers of the node are its own\<close>
  "node_ok n \<longleftrightarrow> (\<exists>p. nd_value n = V_data p) \<and> (\<exists>p. nd_reserved n = V_data p)
     \<and> nd_value_type n \<le> NHR_MAP_VALUE_STRING \<and> nd_reserved_type n \<le> NHR_MAP_VALUE_STRING"

definition map_ok :: "'x map_heap \<Rightarrow> ptr \<Rightarrow> (nat \<times> nhr_map_node) list \<Rightarrow> bool" where
  "map_ok h m xs \<longleftrightarrow> map_path h m xs \<and> (\<forall>(a, n) \<in> set xs. node_ok n)"

lemma node_ok_zero [simp]: "node_ok zero_node"
  by (simp add: node_ok_def NHR_MAP_VALUE_STRING_def)

lemma map_ok_wf:
  assumes "map_ok h m xs" "owns h0 h (map_owned xs @ ps)"
  shows "map_wf h m xs"
  using assms
  by (auto simp: map_ok_def map_wf_def owns_def node_ok_def value_wf_def)

lemma entry_of_same:
  assumes "node_ok n" "same_at h h' ps" "set (node_owned (a, n)) \<subseteq> set ps"
  shows "entry_of h' n = entry_of h n"
proof -
  have l: "load h' p = load h p" if "p \<in> set (node_owned (a, n))" for p
    using assms(2,3) that by (blast intro: load_same)
  obtain p q where "nd_value n = V_data p" "nd_reserved n = V_data q"
      "nd_value_type n \<le> NHR_MAP_VALUE_STRING" "nd_reserved_type n \<le> NHR_MAP_VALUE_STRING"
    using assms(1) by (auto simp: node_ok_def)
  then show ?thesis
    using l [of p] l [of q] l [of "nd_key n"]
    by (simp add: entry_of_def load_value_def node_owned_def value_owned_def)
qed

lemma map_ok_same:
  assumes "map_ok h m xs" "same_at h h' (map_owned xs)"
  shows "map_ok h' m xs" "map_entries h' xs = map_entries h xs"
proof -
  have "h_get h' a = h_get h a" if "(a, n) \<in> set xs" for a n
    using assms(2) node_addr_owned [OF that] by (simp add: same_at_def)
  then have "\<forall>a \<in> fst ` set xs. h_get h' a = h_get h a" by auto
  moreover have "map_path h m xs" using assms(1) by (simp add: map_ok_def)
  ultimately have "map_path h' m xs" by (rule map_path_cong [rotated])
  then show "map_ok h' m xs" using assms(1) by (simp add: map_ok_def)
  have "entry_of h' n = entry_of h n" if x: "(a, n) \<in> set xs" for a n
  proof -
    have "node_ok n" "set (node_owned (a, n)) \<subseteq> set (map_owned xs)"
      using assms(1) x by (auto simp: map_ok_def map_owned_def)
    then show ?thesis using assms(2) by (intro entry_of_same)
  qed
  then show "map_entries h' xs = map_entries h xs" by (auto simp: map_entries_def)
qed

lemma map_delete_owned:
  assumes "map_ok h m xs" "owns h0 h (map_owned xs @ ps)"
  shows "\<exists>h'. nhr_map_delete h m = Inr h' \<and> owns h0 h' ps \<and> same_at h h' ps"
  using owns_release [OF assms(2)] nhr_map_delete_eq [OF map_ok_wf [OF assms]] by simp

section \<open>Appending to a map\<close>

definition all_used :: "(nat \<times> nhr_map_node) list \<Rightarrow> bool" where
  "all_used xs \<longleftrightarrow> (\<forall>(a, n) \<in> set xs. nd_value_type n \<noteq> 0)"

lemma append_path_used:
  assumes "xs \<noteq> []" "all_used xs"
  shows "append_path h xs = (butlast xs @ [(fst (last xs), (snd (last xs))\<lparr>nd_next := Some (length h)\<rparr>)])
           @ [(length h, zero_node)]"
    "map_owned (append_path h xs) = map_owned xs @ [None, None, None, Some (length h)]"
proof -
  obtain ys a n where xs: "xs = ys @ [(a, n)]"
    using assms(1) by (metis append_butlast_last_id surj_pair)
  then have "nd_value_type n \<noteq> 0" using assms(2) by (simp add: all_used_def)
  with xs show "append_path h xs = (butlast xs @ [(fst (last xs), (snd (last xs))\<lparr>nd_next := Some (length h)\<rparr>)])
           @ [(length h, zero_node)]"
    "map_owned (append_path h xs) = map_owned xs @ [None, None, None, Some (length h)]"
    by (simp_all add: append_path_def)
qed

lemma node_ok_next [simp]: "node_ok (n\<lparr>nd_next := q\<rparr>) = node_ok n"
  by (simp add: node_ok_def)

lemma append_owned:
  assumes m: "map_ok h m xs" "xs \<noteq> []" "all_used xs" and o: "owns h0 h (map_owned xs @ ps)" and mc: "sizes_fit mc"
  shows "\<exists>h' ys s. nhr_map_append mc h m = Some (Inr (Some s, h')) \<and> map_ok h' m (ys @ [(s, zero_node)])
    \<and> all_used ys \<and> owns h0 h' (map_owned (ys @ [(s, zero_node)]) @ ps) \<and> same_at h h' ps
    \<and> map_entries h' ys = map_entries h xs"
proof -
  let ?xs = "append_path h xs" and ?s = "length h"
  let ?ys = "butlast xs @ [(fst (last xs), (snd (last xs))\<lparr>nd_next := Some (length h)\<rparr>)]"
  have split: "?xs = ?ys @ [(?s, zero_node)]" and own: "map_owned ?xs = map_owned xs @ [None, None, None, Some ?s]"
    using append_path_used [OF m(2,3)] by simp_all
  note wf = map_ok_wf [OF m(1) o]
  obtain h' where h': "nhr_map_append mc h m = Some (Inr (Some ?s, h'))" "map_wf h' m ?xs"
      "\<forall>q. load h' q = load h q" "\<forall>x. x \<notin> fst ` set ?xs \<longrightarrow> h_get h' x = h_get h x"
    using nhr_map_append_wf [OF wf m(2) mc] split by auto
  have frame: "h_get h' x = h_get h x" if "Some x \<notin> set (map_owned ?xs)" for x
  proof -
    have "x \<notin> fst ` set ?xs" using that node_addr_owned [of x] by fastforce
    with h'(4) show ?thesis by blast
  qed
  have new: "Some ?s \<notin> set (map_owned xs @ ps)" using o h_get_fresh [of h] unfolding owns_def by blast
  have apart: "Some x \<notin> set (map_owned ?xs)" if "Some x \<in> set ps" for x
    using owns_disjoint [of h0 h ps "map_owned xs" x] owns_perm [OF o, of "ps @ map_owned xs"] that new
    by (auto simp: own)
  have "h_get h0 ?s = None" using o new h_get_fresh [of h] unfolding owns_def by metis
  moreover have "distinct (addresses (map_owned ?xs @ ps))"
    using o new in_addresses [of ?s "map_owned xs"] in_addresses [of ?s ps] by (simp add: own owns_def)
  moreover have "h_get h' x \<noteq> None" if "Some x \<in> set (map_owned ?xs)" for x
    using h'(2) that by (simp add: map_wf_def)
  moreover have "h_get h' x = h_get h x" if "Some x \<in> set ps" for x using frame apart that by blast
  ultimately have "owns h0 h' (map_owned ?xs @ ps)"
    using o frame by (auto simp: owns_def own)
  moreover have "same_at h h' ps" using frame apart by (simp add: same_at_def)
  moreover have "map_ok h' m ?xs"
  proof -
    have "node_ok (snd (last xs))" using m(1,2) by (metis (no_types, lifting) map_ok_def case_prodD last_in_set surjective_pairing)
    moreover have "\<forall>(a, n) \<in> set (butlast xs). node_ok n" using m(1) by (auto simp: map_ok_def dest: in_set_butlastD)
    ultimately show ?thesis using h'(2) by (auto simp: map_ok_def map_wf_def split)
  qed
  moreover have "map_entries h' ?ys = map_entries h xs"
  proof -
    have "entry_of h' n = entry_of h n" for n
      using h'(3) by (auto simp: entry_of_def load_value_def split: nhr_map_value.split)
    moreover obtain zs a n where "xs = zs @ [(a, n)]"
      using m(2) by (metis append_butlast_last_id surj_pair)
    ultimately show ?thesis by (simp add: map_entries_def)
  qed
  moreover have "all_used ?ys"
    using m(3) last_in_set [OF m(2)] by (cases "last xs") (auto simp: all_used_def dest: in_set_butlastD)
  ultimately show ?thesis using h'(1) split by metis
qed

section \<open>Filling a node\<close>

lemma owns_addresses:
  assumes "owns h0 h ps" "mset (addresses ps) = mset (addresses qs)"
  shows "owns h0 h qs"
proof -
  have "Some a \<in> set ps \<longleftrightarrow> Some a \<in> set qs" for a
    using mset_eq_setD [OF assms(2)] in_addresses [of a ps] in_addresses [of a qs] by simp
  with assms mset_eq_imp_distinct_iff [OF assms(2)] show ?thesis by (simp add: owns_def)
qed

lemma map_ok_nodes:
  assumes "map_ok h m xs" "\<And>a n. (a, n) \<in> set xs \<Longrightarrow> h_get h' a = h_get h a"
  shows "map_ok h' m xs"
proof -
  have "map_path h m xs" "\<forall>a \<in> fst ` set xs. h_get h' a = h_get h a"
    using assms by (auto simp: map_ok_def)
  then have "map_path h' m xs" by (rule map_path_cong)
  with assms(1) show ?thesis by (simp add: map_ok_def)
qed

lemma same_at_nodes:
  assumes "same_at h h' ps" "set (map_owned ys) \<subseteq> set ps"
  shows "\<forall>x \<in> fst ` set ys. h_get h' x = h_get h x"
proof
  fix x assume "x \<in> fst ` set ys"
  then obtain n where "(x, n) \<in> set ys" by auto
  then have "Some x \<in> set ps" using node_addr_owned assms(2) by blast
  with assms(1) show "h_get h' x = h_get h x" by (simp add: same_at_def)
qed

lemma map_path_last: "map_path h p (xs @ [(a, n)]) \<Longrightarrow> nd_next n = None"
  by (induction xs arbitrary: p) auto

lemma map_path_change_last:
  "map_path h p (xs @ [(a, n)]) \<Longrightarrow> h_get h' a = Some (Nd n') \<Longrightarrow> nd_next n' = nd_next n \<Longrightarrow>
     \<forall>x \<in> fst ` set xs. h_get h' x = h_get h x \<Longrightarrow> map_path h' p (xs @ [(a, n')])"
  by (induction xs arbitrary: p) auto

lemma node_assign:
  assumes m: "map_ok h m (ys @ [(s, n)])" and o: "owns h0 h (Some s # map_owned ys @ ps)"
    and f: "nd_next (f n) = nd_next n" "node_ok (f n)"
  shows "\<exists>h'. nd_put h (Some s) f = Inr h' \<and> map_ok h' m (ys @ [(s, f n)])
    \<and> owns h0 h' (Some s # map_owned ys @ ps) \<and> same_at h h' (map_owned ys @ ps)"
proof -
  let ?h' = "h_put h s (Nd (f n))"
  note p = owns_put [OF o, of "Nd (f n)"]
  have path: "map_path h m (ys @ [(s, n)])" using m by (simp add: map_ok_def)
  then have "nd_at h (Some s) = Inr n" using map_path_node [OF path, of s n] by (simp add: nd_at_def)
  then have "nd_put h (Some s) f = Inr ?h'" by (simp add: nd_put_def)
  moreover have "\<forall>x \<in> fst ` set ys. h_get ?h' x = h_get h x"
    by (rule same_at_nodes [OF p(2)]) simp
  then have "map_path ?h' m (ys @ [(s, f n)])"
    by (rule map_path_change_last [OF path p(3) f(1)])
  then have "map_ok ?h' m (ys @ [(s, f n)])" using m f(2) by (simp add: map_ok_def)
  ultimately show ?thesis using p(1,2) by blast
qed

lemma same_entries:
  assumes "map_ok h m (ys @ [(s, n)])" "same_at h h' (map_owned ys @ ps)"
  shows "map_entries h' ys = map_entries h ys"
proof -
  have "entry_of h' n = entry_of h n" if x: "(a, n) \<in> set ys" for a n
  proof -
    have "node_ok n" "set (node_owned (a, n)) \<subseteq> set (map_owned ys)"
      using assms(1) x by (auto simp: map_ok_def map_owned_def)
    then show ?thesis using assms(2) by (intro entry_of_same [of n h h' "map_owned ys @ ps" a]) auto
  qed
  then show ?thesis by (auto simp: map_entries_def)
qed

lemma node_string_step:
  assumes c: "nhr_string_copy_len mc str len = Inr b" and m: "map_ok h m (ys @ [(s, n)])"
    and o: "owns h0 h (Some s # map_owned ys @ ps)"
    and f: "\<And>p. nd_next (upd p n) = nd_next n" "\<And>p. node_ok (upd p n)"
  shows "\<exists>h' p. heap_node_string mc h (Some s) upd str len = Inr h' \<and> map_ok h' m (ys @ [(s, upd p n)])
    \<and> owns h0 h' (Some s # map_owned ys @ p # ps) \<and> same_at h h' (map_owned ys @ ps) \<and> load h' p = b"
proof -
  obtain p h1 where st: "store h b = (p, h1)" by (cases "store h b")
  note w = owns_store [OF o st]
  have o1: "owns h0 h1 (Some s # map_owned ys @ p # ps)" by (rule owns_perm [OF w(1)]) simp
  have m1: "map_ok h1 m (ys @ [(s, n)])"
  proof (rule map_ok_nodes [OF m])
    fix a n' assume "(a, n') \<in> set (ys @ [(s, n)])"
    moreover have "\<forall>x \<in> fst ` set ys. h_get h1 x = h_get h x"
      by (rule same_at_nodes [OF w(2)]) auto
    ultimately show "h_get h1 a = h_get h a" using w(2) by (auto simp: same_at_def)
  qed
  obtain h' where h': "nd_put h1 (Some s) (upd p) = Inr h'" "map_ok h' m (ys @ [(s, upd p n)])"
      "owns h0 h' (Some s # map_owned ys @ p # ps)" "same_at h1 h' (map_owned ys @ p # ps)"
    using node_assign [of h1 m ys s n h0 "p # ps" "upd p", OF m1 o1 f] by blast
  have "load h' p = b" using load_same [OF h'(4), of p] w(3) by simp
  moreover have "same_at h h' (map_owned ys @ ps)" using w(2) h'(4) by (auto simp: same_at_def)
  ultimately show ?thesis using h'(1-3) c st by (auto simp: heap_node_string_def)
qed

lemma fill_string:
  assumes m: "map_ok h m (ys @ [(s, zero_node)])" "all_used ys" and o: "owns h0 h (Some s # map_owned ys @ ps)"
    and c: "nhr_string_copy_len mc name name_len = Inr k" "nhr_string_copy_len mc val val_len = Inr v"
  shows "\<exists>h' n. r_bind (heap_node_string mc h (Some s) (\<lambda>p n. n\<lparr>nd_key := p\<rparr>) name name_len) (\<lambda>h.
           r_bind (heap_node_string mc h (Some s) (\<lambda>p n. n\<lparr>nd_value := V_data p\<rparr>) val val_len) (\<lambda>h.
           nd_put h (Some s) (\<lambda>n. n\<lparr>nd_value_size := val_len, nd_value_type := NHR_MAP_VALUE_STRING\<rparr>))) = Inr h'
    \<and> map_ok h' m (ys @ [(s, n)]) \<and> all_used (ys @ [(s, n)]) \<and> owns h0 h' (map_owned (ys @ [(s, n)]) @ ps)
    \<and> same_at h h' ps \<and> map_entries h' (ys @ [(s, n)]) = map_entries h ys
        @ [zero_entry\<lparr>me_key := k, me_value := v, me_value_size := val_len, me_value_type := NHR_MAP_VALUE_STRING\<rparr>]"
proof -
  obtain h1 p1 where h1: "heap_node_string mc h (Some s) (\<lambda>p n. n\<lparr>nd_key := p\<rparr>) name name_len = Inr h1"
      "map_ok h1 m (ys @ [(s, zero_node\<lparr>nd_key := p1\<rparr>)])" "owns h0 h1 (Some s # map_owned ys @ p1 # ps)"
      "same_at h h1 (map_owned ys @ ps)" "load h1 p1 = k"
    using node_string_step [OF c(1) m(1) o, of "\<lambda>p n. n\<lparr>nd_key := p\<rparr>"]
    by (auto simp: node_ok_def NHR_MAP_VALUE_defs)
  obtain h2 p2 where h2: "heap_node_string mc h1 (Some s) (\<lambda>p n. n\<lparr>nd_value := V_data p\<rparr>) val val_len = Inr h2"
      "map_ok h2 m (ys @ [(s, zero_node\<lparr>nd_key := p1, nd_value := V_data p2\<rparr>)])"
      "owns h0 h2 (Some s # map_owned ys @ p2 # p1 # ps)" "same_at h1 h2 (map_owned ys @ p1 # ps)" "load h2 p2 = v"
    using node_string_step [OF c(2) h1(2,3), of "\<lambda>p n. n\<lparr>nd_value := V_data p\<rparr>"]
    by (auto simp: node_ok_def NHR_MAP_VALUE_defs)
  let ?n = "zero_node\<lparr>nd_key := p1, nd_value := V_data p2, nd_value_size := val_len,
      nd_value_type := NHR_MAP_VALUE_STRING\<rparr>"
  obtain h' where h': "nd_put h2 (Some s) (\<lambda>n. n\<lparr>nd_value_size := val_len, nd_value_type := NHR_MAP_VALUE_STRING\<rparr>) = Inr h'"
      "map_ok h' m (ys @ [(s, ?n)])" "owns h0 h' (Some s # map_owned ys @ p2 # p1 # ps)"
      "same_at h2 h' (map_owned ys @ p2 # p1 # ps)"
    using node_assign [OF h2(2,3), of "\<lambda>n. n\<lparr>nd_value_size := val_len, nd_value_type := NHR_MAP_VALUE_STRING\<rparr>"]
    by (auto simp: node_ok_def NHR_MAP_VALUE_defs)
  have "load h' p1 = k" using load_same [OF h'(4), of p1] load_same [OF h2(4), of p1] h1(5) by simp
  moreover have "load h' p2 = v" using load_same [OF h'(4), of p2] h2(5) by simp
  moreover have ys: "same_at h h' (map_owned ys @ ps)" using h1(4) h2(4) h'(4) by (simp add: same_at_def)
  moreover have "map_entries h' ys = map_entries h ys"
    using same_entries [OF m(1) ys] .
  ultimately have "map_entries h' (ys @ [(s, ?n)]) = map_entries h ys
        @ [zero_entry\<lparr>me_key := k, me_value := v, me_value_size := val_len, me_value_type := NHR_MAP_VALUE_STRING\<rparr>]"
    by (simp add: map_entries_def entry_of_def load_value_def zero_entry_def load_def)
  moreover have "owns h0 h' (map_owned (ys @ [(s, ?n)]) @ ps)"
    by (rule owns_addresses [OF h'(3)]) (simp add: node_owned_def value_owned_def NHR_MAP_VALUE_defs)
  moreover have "all_used (ys @ [(s, ?n)])" using m(2) by (simp add: all_used_def NHR_MAP_VALUE_defs)
  moreover have "same_at h h' ps" using ys by (simp add: same_at_def)
  ultimately show ?thesis using h1(1) h2(1) h'(1,2) by (intro exI [of _ h'] exI [of _ ?n]) simp
qed

lemma fill_data:
  assumes m: "map_ok h m (ys @ [(s, zero_node)])" "all_used ys"
    and o: "owns h0 h (Some s # map_owned ys @ dp # ps)" and d: "load h dp = d"
    and c: "nhr_string_copy_len mc name name_len = Inr k" "nhr_string_copy_len mc file file_len = Inr f"
  shows "\<exists>h1 h2 h' n. heap_node_string mc h (Some s) (\<lambda>p n. n\<lparr>nd_key := p\<rparr>) name name_len = Inr h1
    \<and> heap_node_string mc h1 (Some s) (\<lambda>p n. n\<lparr>nd_reserved := V_data p\<rparr>) file file_len = Inr h2
    \<and> nd_put h2 (Some s) (\<lambda>n. n\<lparr>nd_reserved_size := file_len, nd_reserved_type := NHR_MAP_VALUE_STRING,
         nd_value := V_data dp, nd_value_size := sz, nd_value_type := NHR_MAP_VALUE_DATA\<rparr>) = Inr h'
    \<and> map_ok h' m (ys @ [(s, n)]) \<and> all_used (ys @ [(s, n)]) \<and> owns h0 h' (map_owned (ys @ [(s, n)]) @ ps)
    \<and> same_at h h' ps \<and> map_entries h' (ys @ [(s, n)]) = map_entries h ys
        @ [zero_entry\<lparr>me_key := k, me_reserved := f, me_reserved_size := file_len,
             me_reserved_type := NHR_MAP_VALUE_STRING, me_value := d, me_value_size := sz,
             me_value_type := NHR_MAP_VALUE_DATA\<rparr>]"
proof -
  obtain h1 p1 where h1: "heap_node_string mc h (Some s) (\<lambda>p n. n\<lparr>nd_key := p\<rparr>) name name_len = Inr h1"
      "map_ok h1 m (ys @ [(s, zero_node\<lparr>nd_key := p1\<rparr>)])" "owns h0 h1 (Some s # map_owned ys @ p1 # dp # ps)"
      "same_at h h1 (map_owned ys @ dp # ps)" "load h1 p1 = k"
    using node_string_step [OF c(1) m(1) o, of "\<lambda>p n. n\<lparr>nd_key := p\<rparr>"]
    by (auto simp: node_ok_def NHR_MAP_VALUE_defs)
  obtain h2 p2 where h2: "heap_node_string mc h1 (Some s) (\<lambda>p n. n\<lparr>nd_reserved := V_data p\<rparr>) file file_len = Inr h2"
      "map_ok h2 m (ys @ [(s, zero_node\<lparr>nd_key := p1, nd_reserved := V_data p2\<rparr>)])"
      "owns h0 h2 (Some s # map_owned ys @ p2 # p1 # dp # ps)" "same_at h1 h2 (map_owned ys @ p1 # dp # ps)"
      "load h2 p2 = f"
    using node_string_step [OF c(2) h1(2,3), of "\<lambda>p n. n\<lparr>nd_reserved := V_data p\<rparr>"]
    by (auto simp: node_ok_def NHR_MAP_VALUE_defs)
  let ?g = "\<lambda>n. n\<lparr>nd_reserved_size := file_len, nd_reserved_type := NHR_MAP_VALUE_STRING,
         nd_value := V_data dp, nd_value_size := sz, nd_value_type := NHR_MAP_VALUE_DATA\<rparr>"
  let ?n = "?g (zero_node\<lparr>nd_key := p1, nd_reserved := V_data p2\<rparr>)"
  obtain h' where h': "nd_put h2 (Some s) ?g = Inr h'"
      "map_ok h' m (ys @ [(s, ?n)])" "owns h0 h' (Some s # map_owned ys @ p2 # p1 # dp # ps)"
      "same_at h2 h' (map_owned ys @ p2 # p1 # dp # ps)"
    using node_assign [OF h2(2,3), of ?g] by (auto simp: node_ok_def NHR_MAP_VALUE_defs)
  have "load h' p1 = k" using load_same [OF h'(4), of p1] load_same [OF h2(4), of p1] h1(5) by simp
  moreover have "load h' p2 = f" using load_same [OF h'(4), of p2] h2(5) by simp
  moreover have "load h' dp = d"
    using load_same [OF h'(4), of dp] load_same [OF h2(4), of dp] load_same [OF h1(4), of dp] d by simp
  moreover have ys: "same_at h h' (map_owned ys @ ps)" using h1(4) h2(4) h'(4) by (simp add: same_at_def)
  moreover have "map_entries h' ys = map_entries h ys"
    using same_entries [OF m(1) ys] .
  ultimately have "map_entries h' (ys @ [(s, ?n)]) = map_entries h ys
        @ [zero_entry\<lparr>me_key := k, me_reserved := f, me_reserved_size := file_len,
             me_reserved_type := NHR_MAP_VALUE_STRING, me_value := d, me_value_size := sz,
             me_value_type := NHR_MAP_VALUE_DATA\<rparr>]"
    by (simp add: map_entries_def entry_of_def load_value_def zero_entry_def)
  moreover have "owns h0 h' (map_owned (ys @ [(s, ?n)]) @ ps)"
    by (rule owns_addresses [OF h'(3)]) (simp add: node_owned_def value_owned_def NHR_MAP_VALUE_defs)
  moreover have "all_used (ys @ [(s, ?n)])" using m(2) by (simp add: all_used_def NHR_MAP_VALUE_defs)
  moreover have "same_at h h' ps" using ys by (simp add: same_at_def)
  ultimately show ?thesis using h1(1) h2(1) h'(1,2)
    by (intro exI [of _ h1] exI [of _ h2] exI [of _ h'] exI [of _ ?n]) simp
qed

section \<open>The members of a request\<close>

abbreviation request_in :: "req_heap \<Rightarrow> nat \<Rightarrow> req_block \<Rightarrow> bool" where
  "request_in h a q \<equiv> h_get h a = Some (St (Request_block q))"

lemma rq_at_in [simp]: "request_in h a q \<Longrightarrow> rq_at h (Some a) = Inr q"
  by (simp add: rq_at_def)

lemma ro_bind_simps [simp]:
  "ro_bind None f = None" "ro_bind (Some (Inl e)) f = Some (Inl e)" "ro_bind (Some (Inr x)) f = f x"
  by (simp_all add: ro_bind_def)

lemma rq_assign:
  assumes "request_in h a q" "owns h0 h (Some a # ps)"
  shows "\<exists>h'. rq_put h a f = Inr h' \<and> request_in h' a (f q) \<and> owns h0 h' (Some a # ps) \<and> same_at h h' ps"
  using assms owns_put [OF assms(2)] by (simp add: rq_put_def)

lemma request_in_same: "request_in h a q \<Longrightarrow> same_at h h' ps \<Longrightarrow> Some a \<in> set ps \<Longrightarrow> request_in h' a q"
  by (simp add: same_at_def)

text \<open>The interface of a pointer member to the calls that change it.\<close>

locale member =
  fixes get :: "req_block \<Rightarrow> ptr" and upd :: "ptr \<Rightarrow> req_block \<Rightarrow> req_block"
  assumes get_upd: "get (upd p q) = p" and upd_get: "upd (get q) q = q"
begin

lemma replace:
  assumes g: "request_in h a q" and o: "owns h0 h (Some a # get q # ps)" and c: "nhr_string_copy mc str = Inr b"
  shows "\<exists>h' p. replace_string mc h a get upd str = Inr h' \<and> request_in h' a (upd p q)
    \<and> owns h0 h' (Some a # p # ps) \<and> same_at h h' ps \<and> load h' p = b \<and> (p \<noteq> None \<longrightarrow> load h' p \<noteq> None)"
proof -
  have "owns h0 h (get q # Some a # ps)" by (rule owns_perm [OF o]) simp
  then obtain h1 where h1: "nhr_free h (get q) = Inr h1" "owns h0 h1 (Some a # ps)" "same_at h h1 (Some a # ps)"
    using owns_free by blast
  obtain p h2 where st: "store h1 b = (p, h2)" by (cases "store h1 b")
  note w = owns_store [OF h1(2) st]
  have g2: "request_in h2 a q" using g h1(3) w(2) by (simp add: same_at_def)
  have "owns h0 h2 (Some a # p # ps)" by (rule owns_perm [OF w(1)]) simp
  then obtain h' where h': "rq_put h2 a (upd p) = Inr h'" "request_in h' a (upd p q)"
      "owns h0 h' (Some a # p # ps)" "same_at h2 h' (p # ps)"
    using rq_assign [OF g2] by blast
  have "replace_string mc h a get upd str = Inr h'"
    using g h1(1) c st h'(1) by (simp add: replace_string_def nhr_string_delete_def)
  moreover have "same_at h h' ps" using h1(3) w(2) h'(4) by (simp add: same_at_def)
  moreover have "load h' p = b" "p \<noteq> None \<longrightarrow> load h' p \<noteq> None"
    using load_same [OF h'(4), of p] w(3,4) by simp_all
  ultimately show ?thesis using h'(2,3) by blast
qed

lemma delete_string:
  assumes g: "request_in h a q" and o: "owns h0 h (Some a # get q # ps)"
  shows "\<exists>h'. delete_member nhr_string_delete_clean h a get upd = Inr h' \<and> request_in h' a (upd None q)
    \<and> owns h0 h' (Some a # ps) \<and> same_at h h' ps"
proof -
  have "owns h0 h (get q # Some a # ps)" by (rule owns_perm [OF o]) simp
  then obtain h1 where h1: "nhr_free h (get q) = Inr h1" "owns h0 h1 (Some a # ps)" "same_at h h1 (Some a # ps)"
    using owns_free by blast
  then have "request_in h1 a q" using g by (simp add: same_at_def)
  from rq_assign [OF this h1(2), of "upd None"] h1 g show ?thesis
    by (auto simp: delete_member_def nhr_string_delete_clean_def same_at_def)
qed

lemma delete_map:
  assumes g: "request_in h a q" and m: "map_ok h (get q) xs" and o: "owns h0 h (Some a # map_owned xs @ ps)"
  shows "\<exists>h'. delete_member nhr_map_delete_clean h a get upd = Inr h' \<and> request_in h' a (upd None q)
    \<and> owns h0 h' (Some a # ps) \<and> same_at h h' ps"
proof -
  have "owns h0 h (map_owned xs @ Some a # ps)" by (rule owns_perm [OF o]) simp
  then obtain h1 where h1: "nhr_map_delete h (get q) = Inr h1" "owns h0 h1 (Some a # ps)" "same_at h h1 (Some a # ps)"
    using map_delete_owned [OF m] by blast
  then have "request_in h1 a q" using g by (simp add: same_at_def)
  from rq_assign [OF this h1(2), of "upd None"] h1 g show ?thesis
    by (auto simp: delete_member_def nhr_map_delete_clean_def same_at_def)
qed

lemma next_node:
  assumes g: "request_in h a q" and m: "map_ok h (get q) xs" "all_used xs"
    and o: "owns h0 h (Some a # map_owned xs @ ps)" and mc: "sizes_fit mc"
  shows "\<exists>h' s ys m. heap_next_node mc h a get upd = Some (Inr (Some s, h')) \<and> request_in h' a (upd m q)
    \<and> map_ok h' m (ys @ [(s, zero_node)]) \<and> all_used ys \<and> owns h0 h' (Some s # map_owned ys @ Some a # ps)
    \<and> same_at h h' ps \<and> map_entries h' ys = map_entries h xs"
proof (cases "xs = []")
  case False
  then have ne: "get q \<noteq> None" using m(1) by (cases xs) (auto simp: map_ok_def)
  have "owns h0 h (map_owned xs @ Some a # ps)" by (rule owns_perm [OF o]) simp
  from append_owned [OF m(1) False m(2) this mc] obtain h' ys s where h':
      "nhr_map_append mc h (get q) = Some (Inr (Some s, h'))" "map_ok h' (get q) (ys @ [(s, zero_node)])"
      "all_used ys" "owns h0 h' (map_owned (ys @ [(s, zero_node)]) @ Some a # ps)" "same_at h h' (Some a # ps)"
      "map_entries h' ys = map_entries h xs" by blast
  have "owns h0 h' (Some s # map_owned ys @ Some a # ps)" by (rule owns_addresses [OF h'(4)]) simp
  moreover have "request_in h' a (upd (get q) q)" "same_at h h' ps"
    using g h'(5) by (simp_all add: upd_get same_at_def)
  moreover have "heap_next_node mc h a get upd = Some (Inr (Some s, h'))"
    using g ne h'(1) by (auto simp: heap_next_node_def)
  ultimately show ?thesis using h'(2,3,6) by blast
next
  case True
  then have none: "get q = None" using m(1) by (simp add: map_ok_def)
  let ?s = "length h" and ?h1 = "h @ [Some (Nd zero_node)]"
  have oa: "owns h0 h (Some a # ps)" using o True by simp
  note al = owns_alloc(1-3) [OF oa, of "Nd zero_node"]
  have "request_in ?h1 a q" using g al(2) by (simp add: same_at_def)
  moreover have "owns h0 ?h1 (Some a # Some ?s # ps)" by (rule owns_perm [OF al(1)]) simp
  ultimately obtain h2 where h2: "rq_put ?h1 a (upd (Some ?s)) = Inr h2" "request_in h2 a (upd (Some ?s) q)"
      "owns h0 h2 (Some a # Some ?s # ps)" "same_at ?h1 h2 (Some ?s # ps)"
    using rq_assign by blast
  have z: "h_get h2 ?s = Some (Nd zero_node)" using h2(4) al(3) by (simp add: same_at_def)
  then have path: "map_path h2 (Some ?s) ([] @ [(?s, zero_node)])" by simp
  have "nhr_map_append mc h2 (Some ?s) = Some (Inr (Some ?s, h2))"
    using nhr_map_last_path [OF path] z by (simp add: nhr_map_append_def nhr_map_append_to_def nd_at_def)
  then have "heap_next_node mc h a get upd = Some (Inr (Some ?s, h2))"
    using g none h2(1,2) mc by (simp add: heap_next_node_def nhr_map_create_eq get_upd)
  moreover have "owns h0 h2 (Some ?s # map_owned [] @ Some a # ps)" by (rule owns_perm [OF h2(3)]) simp
  moreover have "map_ok h2 (Some ?s) ([] @ [(?s, zero_node)])" using path by (simp add: map_ok_def)
  moreover have "same_at h h2 ps" using al(2) h2(4) by (simp add: same_at_def)
  moreover have "all_used []" "map_entries h2 [] = map_entries h xs"
    using True by (simp_all add: all_used_def map_entries_def)
  ultimately show ?thesis using h2(2) by blast
qed

lemma string_entry:
  assumes g: "request_in h a q" and m: "map_ok h (get q) xs" "all_used xs"
    and o: "owns h0 h (Some a # map_owned xs @ ps)" and mc: "sizes_fit mc"
    and c: "nhr_string_copy_len mc name name_len = Inr k" "nhr_string_copy_len mc val val_len = Inr v"
  shows "\<exists>h' zs m. heap_string_entry mc h a get upd name name_len val val_len = Some (Inr h')
    \<and> request_in h' a (upd m q) \<and> map_ok h' m zs \<and> zs \<noteq> [] \<and> all_used zs
    \<and> owns h0 h' (Some a # map_owned zs @ ps) \<and> same_at h h' ps \<and> map_entries h' zs = map_entries h xs
        @ [zero_entry\<lparr>me_key := k, me_value := v, me_value_size := val_len, me_value_type := NHR_MAP_VALUE_STRING\<rparr>]"
proof -
  obtain h1 s ys m where h1: "heap_next_node mc h a get upd = Some (Inr (Some s, h1))" "request_in h1 a (upd m q)"
      "map_ok h1 m (ys @ [(s, zero_node)])" "all_used ys" "owns h0 h1 (Some s # map_owned ys @ Some a # ps)"
      "same_at h h1 ps" "map_entries h1 ys = map_entries h xs"
    using next_node [OF g m o mc] by blast
  obtain h' n where h': "r_bind (heap_node_string mc h1 (Some s) (\<lambda>p n. n\<lparr>nd_key := p\<rparr>) name name_len) (\<lambda>h.
           r_bind (heap_node_string mc h (Some s) (\<lambda>p n. n\<lparr>nd_value := V_data p\<rparr>) val val_len) (\<lambda>h.
           nd_put h (Some s) (\<lambda>n. n\<lparr>nd_value_size := val_len, nd_value_type := NHR_MAP_VALUE_STRING\<rparr>))) = Inr h'"
      "map_ok h' m (ys @ [(s, n)])" "all_used (ys @ [(s, n)])" "owns h0 h' (map_owned (ys @ [(s, n)]) @ Some a # ps)"
      "same_at h1 h' (Some a # ps)" "map_entries h' (ys @ [(s, n)]) = map_entries h1 ys
        @ [zero_entry\<lparr>me_key := k, me_value := v, me_value_size := val_len, me_value_type := NHR_MAP_VALUE_STRING\<rparr>]"
    using fill_string [OF h1(3-5) c] by blast
  have "owns h0 h' (Some a # map_owned (ys @ [(s, n)]) @ ps)" by (rule owns_perm [OF h'(4)]) simp
  moreover have "same_at h h' ps" "request_in h' a (upd m q)"
    using h1(2,6) h'(5) by (simp_all add: same_at_def)
  moreover have "heap_string_entry mc h a get upd name name_len val val_len = Some (Inr h')"
    using h1(1) h'(1) by (simp add: heap_string_entry_def)
  ultimately show ?thesis using h'(2,3,6) h1(7) by (intro exI [of _ h'] exI [of _ "ys @ [(s, n)]"] exI [of _ m]) simp
qed

end

interpretation headers: member hq_http_headers "\<lambda>p q. q\<lparr>hq_http_headers := p\<rparr>"
  by unfold_locales simp_all

interpretation parameters: member hq_parameters "\<lambda>p q. q\<lparr>hq_parameters := p\<rparr>"
  by unfold_locales simp_all

end
