(* ===== verification/Nhr_Request_Heap_Correct.thy ===== *)
theory Nhr_Request_Heap_Correct
  imports Nhr_Heap_Ownership
begin

text \<open>
  The value that the blocks of a request represent, and the two guarantees that follow from the
  ownership of these blocks: the calls on the heap refine the calls on values of \<open>Nhr_Request\<close>, and
  cancelling a request gives back all it has ever allocated, once.
\<close>

section \<open>What a request on the heap represents\<close>

type_synonym response_parts = "(nat \<times> ptr \<times> nhr_response) option"

definition response_owned :: "response_parts \<Rightarrow> ptr list" where
  "response_owned w = (case w of None \<Rightarrow> [] | Some (b, p, r) \<Rightarrow> [p, Some b])"

definition response_in :: "req_heap \<Rightarrow> ptr \<Rightarrow> response_parts \<Rightarrow> bool" where
  "response_in h m w \<longleftrightarrow> (case w of None \<Rightarrow> m = None
     | Some (b, p, r) \<Rightarrow> m = Some b \<and> h_get h b = Some (St (Response_block p r))
         \<and> (p \<noteq> None \<longrightarrow> load h p \<noteq> None))"

definition strings_in :: "req_heap \<Rightarrow> ptr list \<Rightarrow> bool" where
  "strings_in h ps \<longleftrightarrow> (\<forall>p \<in> set ps. p \<noteq> None \<longrightarrow> load h p \<noteq> None)"

lemma strings_in_same:
  "strings_in h ps \<Longrightarrow> same_at h h' qs \<Longrightarrow> set ps \<subseteq> set qs \<Longrightarrow> strings_in h' ps"
  by (auto simp: strings_in_def dest: load_same)

definition request_rep ::
    "req_heap \<Rightarrow> req_heap \<Rightarrow> nat \<Rightarrow> req_block \<Rightarrow> (nat \<times> nhr_map_node) list \<Rightarrow> (nat \<times> nhr_map_node) list
       \<Rightarrow> response_parts \<Rightarrow> bool" where
  \<comment> \<open>the heap is \<open>h0\<close> and the blocks of the request at \<open>a\<close>\<close>
  "request_rep h0 h a q xs ys w \<longleftrightarrow> request_in h a q
     \<and> map_ok h (hq_http_headers q) xs \<and> all_used xs \<and> map_ok h (hq_parameters q) ys \<and> all_used ys
     \<and> response_in h (hq_response q) w \<and> strings_in h [hq_scheme q, hq_host q, hq_path q, hq_boundary q]
     \<and> owns h0 h (Some a # [hq_scheme q, hq_host q, hq_path q, hq_boundary q] @ map_owned xs @ map_owned ys
          @ [hq_work_mutex q, hq_command_mutex q] @ response_owned w)"

definition map_value :: "req_heap \<Rightarrow> (nat \<times> nhr_map_node) list \<Rightarrow> map_entry list option" where
  "map_value h xs = (if xs = [] then None else Some (map_entries h xs))"

definition response_value :: "req_heap \<Rightarrow> response_parts \<Rightarrow> nhr_response option" where
  "response_value h w = map_option (\<lambda>(b, p, r). r\<lparr>rs_body := load h p\<rparr>) w"

definition request_value ::
    "req_heap \<Rightarrow> req_block \<Rightarrow> (nat \<times> nhr_map_node) list \<Rightarrow> (nat \<times> nhr_map_node) list \<Rightarrow> response_parts
       \<Rightarrow> nhr_request" where
  "request_value h q xs ys w = (hq_rest q)\<lparr>rq_scheme := load h (hq_scheme q), rq_host := load h (hq_host q),
     rq_path := load h (hq_path q), rq_boundary := load h (hq_boundary q), rq_http_headers := map_value h xs,
     rq_parameters := map_value h ys, rq_response := response_value h w\<rparr>"

definition represents :: "req_heap \<Rightarrow> req_heap \<Rightarrow> nat \<Rightarrow> nhr_request \<Rightarrow> bool" where
  "represents h0 h a r \<longleftrightarrow> (\<exists>q xs ys w. request_rep h0 h a q xs ys w \<and> r = request_value h q xs ys w)"

lemma response_same:
  assumes "response_in h m w" "same_at h h' ps" "set (response_owned w) \<subseteq> set ps"
  shows "response_in h' m w" "response_value h' w = response_value h w"
  using assms
  by (auto simp: response_in_def response_value_def response_owned_def same_at_def load_same [OF assms(2)]
      split: option.splits)

lemma map_same:
  assumes "map_ok h m xs" "same_at h h' ps" "set (map_owned xs) \<subseteq> set ps"
  shows "map_ok h' m xs" "map_value h' xs = map_value h xs"
  using map_ok_same [OF assms(1) same_at_sub [OF assms(2,3)]] by (simp_all add: map_value_def)

lemma representsI:
  "request_rep h0 h a q xs ys w \<Longrightarrow> r = request_value h q xs ys w \<Longrightarrow> represents h0 h a r"
  by (auto simp: represents_def)

text \<open>An assignment to a member that owns nothing.\<close>

lemma rest_assign:
  assumes r: "request_rep h0 h a q xs ys w"
  shows "\<exists>h'. rq_put h a (on_rest f) = Inr h' \<and> request_rep h0 h' a (on_rest f q) xs ys w
    \<and> request_value h' (on_rest f q) xs ys w = request_value h (on_rest f q) xs ys w"
proof -
  let ?ps = "[hq_scheme q, hq_host q, hq_path q, hq_boundary q] @ map_owned xs @ map_owned ys
          @ [hq_work_mutex q, hq_command_mutex q] @ response_owned w"
  note d = r [unfolded request_rep_def]
  obtain h' where h': "rq_put h a (on_rest f) = Inr h'" "request_in h' a (on_rest f q)"
      "owns h0 h' (Some a # ?ps)" "same_at h h' ?ps"
    using rq_assign [of h a q h0 ?ps "on_rest f"] d by blast
  have m: "map_ok h' (hq_http_headers q) xs" "map_value h' xs = map_value h xs"
      "map_ok h' (hq_parameters q) ys" "map_value h' ys = map_value h ys"
      "response_in h' (hq_response q) w" "response_value h' w = response_value h w"
    using d by (auto intro: map_same [OF _ h'(4)] response_same [OF _ h'(4)])
  have "strings_in h' [hq_scheme q, hq_host q, hq_path q, hq_boundary q]"
    using d by (auto intro: strings_in_same [OF _ h'(4)])
  with d h'(2,3) m have "request_rep h0 h' a (on_rest f q) xs ys w"
    by (simp add: request_rep_def on_rest_def)
  moreover have "request_value h' (on_rest f q) xs ys w = request_value h (on_rest f q) xs ys w"
    using m load_same [OF h'(4)] by (simp add: request_value_def on_rest_def)
  ultimately show ?thesis using h'(1) by blast
qed

section \<open>String members\<close>

lemma rep_owns:
  "request_rep h0 h a q xs ys w \<Longrightarrow> owns h0 h (Some a # [hq_scheme q, hq_host q, hq_path q, hq_boundary q]
     @ map_owned xs @ map_owned ys @ [hq_work_mutex q, hq_command_mutex q] @ response_owned w)"
  by (simp add: request_rep_def)

lemma strings_changed:
  assumes r: "request_rep h0 h a q xs ys w" and g: "request_in h' a q'"
    and s: "same_at h h' (map_owned xs @ map_owned ys @ response_owned w)"
    and eq: "hq_http_headers q' = hq_http_headers q" "hq_parameters q' = hq_parameters q"
      "hq_response q' = hq_response q" "hq_rest q' = hq_rest q"
    and i: "strings_in h' [hq_scheme q', hq_host q', hq_path q', hq_boundary q']"
    and o: "owns h0 h' (Some a # [hq_scheme q', hq_host q', hq_path q', hq_boundary q'] @ map_owned xs @ map_owned ys
          @ [hq_work_mutex q', hq_command_mutex q'] @ response_owned w)"
  shows "request_rep h0 h' a q' xs ys w"
    "request_value h' q' xs ys w = (request_value h q xs ys w)\<lparr>rq_scheme := load h' (hq_scheme q'),
       rq_host := load h' (hq_host q'), rq_path := load h' (hq_path q'), rq_boundary := load h' (hq_boundary q')\<rparr>"
proof -
  note d = r [unfolded request_rep_def]
  have m: "map_ok h' (hq_http_headers q) xs" "map_value h' xs = map_value h xs"
      "map_ok h' (hq_parameters q) ys" "map_value h' ys = map_value h ys"
      "response_in h' (hq_response q) w" "response_value h' w = response_value h w"
    using d by (auto intro: map_same [OF _ s] response_same [OF _ s])
  show "request_rep h0 h' a q' xs ys w" using d m eq o i g by (simp add: request_rep_def)
  show "request_value h' q' xs ys w = (request_value h q xs ys w)\<lparr>rq_scheme := load h' (hq_scheme q'),
       rq_host := load h' (hq_host q'), rq_path := load h' (hq_path q'), rq_boundary := load h' (hq_boundary q')\<rparr>"
    using m eq by (simp add: request_value_def)
qed

text \<open>The interface of a member that owns a string.\<close>

locale string_member = member get upd
  for get :: "req_block \<Rightarrow> ptr" and upd :: "ptr \<Rightarrow> req_block \<Rightarrow> req_block" +
  fixes others :: "req_block \<Rightarrow> ptr list" and set_value :: "bytes option \<Rightarrow> nhr_request \<Rightarrow> nhr_request"
  assumes others: "mset [hq_scheme q, hq_host q, hq_path q, hq_boundary q] = mset (get q # others q)"
      "others (upd p q) = others q"
    and keeps: "hq_http_headers (upd p q) = hq_http_headers q" "hq_parameters (upd p q) = hq_parameters q"
      "hq_response (upd p q) = hq_response q" "hq_rest (upd p q) = hq_rest q"
      "hq_work_mutex (upd p q) = hq_work_mutex q" "hq_command_mutex (upd p q) = hq_command_mutex q"
    and value_upd: "(\<And>x. x \<in> set (others q) \<Longrightarrow> l' x = l x) \<Longrightarrow>
      (r\<lparr>rq_scheme := l (hq_scheme q), rq_host := l (hq_host q), rq_path := l (hq_path q),
         rq_boundary := l (hq_boundary q)\<rparr>)\<lparr>rq_scheme := l' (hq_scheme (upd p q)), rq_host := l' (hq_host (upd p q)),
         rq_path := l' (hq_path (upd p q)), rq_boundary := l' (hq_boundary (upd p q))\<rparr>
      = set_value (l' p) (r\<lparr>rq_scheme := l (hq_scheme q), rq_host := l (hq_host q), rq_path := l (hq_path q),
         rq_boundary := l (hq_boundary q)\<rparr>)"
begin

lemma changed:
  assumes r: "request_rep h0 h a q xs ys w" and g: "request_in h' a (upd p q)"
    and o: "owns h0 h' (Some a # p # others q @ map_owned xs @ map_owned ys
          @ [hq_work_mutex q, hq_command_mutex q] @ response_owned w)"
    and s: "same_at h h' (others q @ map_owned xs @ map_owned ys
          @ [hq_work_mutex q, hq_command_mutex q] @ response_owned w)"
    and l: "p \<noteq> None \<Longrightarrow> load h' p \<noteq> None"
  shows "request_rep h0 h' a (upd p q) xs ys w"
    "request_value h' (upd p q) xs ys w = set_value (load h' p) (request_value h q xs ys w)"
proof -
  let ?u = "upd p q"
  have ms: "mset [hq_scheme ?u, hq_host ?u, hq_path ?u, hq_boundary ?u] = mset (p # others q)"
    using others(1) [of ?u] others(2) by (simp only: get_upd)
  then have o': "owns h0 h' (Some a # [hq_scheme ?u, hq_host ?u, hq_path ?u, hq_boundary ?u] @ map_owned xs
      @ map_owned ys @ [hq_work_mutex ?u, hq_command_mutex ?u] @ response_owned w)"
    by (intro owns_perm [OF o]) (simp add: keeps)
  have s': "same_at h h' (map_owned xs @ map_owned ys @ response_owned w)"
    by (rule same_at_sub [OF s]) auto
  have "strings_in h [hq_scheme q, hq_host q, hq_path q, hq_boundary q]" using r by (simp add: request_rep_def)
  then have "strings_in h (get q # others q)" unfolding strings_in_def mset_eq_setD [OF others(1) [of q]] .
  then have "strings_in h (others q)" by (simp add: strings_in_def)
  then have "strings_in h' (p # others q)" using strings_in_same [OF _ s, of "others q"] l by (auto simp: strings_in_def)
  then have i: "strings_in h' [hq_scheme ?u, hq_host ?u, hq_path ?u, hq_boundary ?u]"
    unfolding strings_in_def mset_eq_setD [OF ms] .
  note c = strings_changed [OF r g s' keeps(1-4) i o']
  show "request_rep h0 h' a ?u xs ys w" by (rule c(1))
  let ?r = "(hq_rest q)\<lparr>rq_http_headers := map_value h xs, rq_parameters := map_value h ys,
      rq_response := response_value h w\<rparr>"
  have v: "request_value h q xs ys w = ?r\<lparr>rq_scheme := load h (hq_scheme q), rq_host := load h (hq_host q),
      rq_path := load h (hq_path q), rq_boundary := load h (hq_boundary q)\<rparr>"
    by (simp add: request_value_def)
  have "load h' x = load h x" if "x \<in> set (others q)" for x using load_same [OF s, of x] that by simp
  then show "request_value h' ?u xs ys w = set_value (load h' p) (request_value h q xs ys w)"
    unfolding c(2) v by (rule value_upd)
qed

lemma set_member:
  assumes r: "request_rep h0 h a q xs ys w" and c: "nhr_string_copy mc str = Inr b"
  shows "\<exists>h' q'. replace_string mc h a get upd str = Inr h' \<and> request_rep h0 h' a q' xs ys w
    \<and> request_value h' q' xs ys w = set_value b (request_value h q xs ys w)"
proof -
  let ?ps = "others q @ map_owned xs @ map_owned ys @ [hq_work_mutex q, hq_command_mutex q] @ response_owned w"
  have g: "request_in h a q" using r by (simp add: request_rep_def)
  have o: "owns h0 h (Some a # get q # ?ps)"
    using others(1) [of q] by (intro owns_perm [OF rep_owns [OF r]]) simp
  obtain h' p where h': "replace_string mc h a get upd str = Inr h'"
      "request_in h' a (upd p q)" "owns h0 h' (Some a # p # ?ps)" "same_at h h' ?ps" "load h' p = b"
      "p \<noteq> None \<Longrightarrow> load h' p \<noteq> None"
    using replace [OF g o c] by blast
  from changed [OF r h'(2-4,6)] h'(1,5) show ?thesis by auto
qed

end

interpretation scheme: string_member hq_scheme "\<lambda>p q. q\<lparr>hq_scheme := p\<rparr>"
    "\<lambda>q. [hq_host q, hq_path q, hq_boundary q]" "\<lambda>b r. r\<lparr>rq_scheme := b\<rparr>"
  by unfold_locales simp_all

interpretation host: string_member hq_host "\<lambda>p q. q\<lparr>hq_host := p\<rparr>"
    "\<lambda>q. [hq_scheme q, hq_path q, hq_boundary q]" "\<lambda>b r. r\<lparr>rq_host := b\<rparr>"
  by unfold_locales simp_all

interpretation path: string_member hq_path "\<lambda>p q. q\<lparr>hq_path := p\<rparr>"
    "\<lambda>q. [hq_scheme q, hq_host q, hq_boundary q]" "\<lambda>b r. r\<lparr>rq_path := b\<rparr>"
  by unfold_locales simp_all

interpretation boundary: string_member hq_boundary "\<lambda>p q. q\<lparr>hq_boundary := p\<rparr>"
    "\<lambda>q. [hq_scheme q, hq_host q, hq_path q]" "\<lambda>b r. r\<lparr>rq_boundary := b\<rparr>"
  by unfold_locales simp_all

section \<open>The calls refine those on values\<close>

lemma heap_set_url_refines:
  assumes r: "represents h0 h a r" and v: "nhr_request_set_url mc (Some r) s ho p port = Inr (Some r')"
  shows "\<exists>h'. heap_set_url mc h (Some a) s ho p port = Inr h' \<and> represents h0 h' a r'"
proof -
  obtain q xs ys w where q: "request_rep h0 h a q xs ys w" "r = request_value h q xs ys w"
    using r by (auto simp: represents_def)
  obtain b1 b2 b3 where b: "nhr_string_copy mc s = Inr b1" "nhr_string_copy mc ho = Inr b2"
      "nhr_string_copy mc p = Inr b3" "r' = r\<lparr>rq_scheme := b1, rq_host := b2, rq_path := b3, rq_port := port\<rparr>"
    using v by (auto simp: nhr_request_set_url_def elim!: r_bindE)
  obtain h1 q1 where h1: "replace_string mc h a hq_scheme (\<lambda>p q. q\<lparr>hq_scheme := p\<rparr>) s = Inr h1"
      "request_rep h0 h1 a q1 xs ys w" "request_value h1 q1 xs ys w = r\<lparr>rq_scheme := b1\<rparr>"
    using scheme.set_member [OF q(1) b(1)] q(2) by blast
  obtain h2 q2 where h2: "replace_string mc h1 a hq_host (\<lambda>p q. q\<lparr>hq_host := p\<rparr>) ho = Inr h2"
      "request_rep h0 h2 a q2 xs ys w" "request_value h2 q2 xs ys w = r\<lparr>rq_scheme := b1, rq_host := b2\<rparr>"
    using host.set_member [OF h1(2) b(2)] h1(3) by auto
  obtain h3 q3 where h3: "replace_string mc h2 a hq_path (\<lambda>p q. q\<lparr>hq_path := p\<rparr>) p = Inr h3"
      "request_rep h0 h3 a q3 xs ys w"
      "request_value h3 q3 xs ys w = r\<lparr>rq_scheme := b1, rq_host := b2, rq_path := b3\<rparr>"
    using path.set_member [OF h2(2) b(3)] h2(3) by auto
  obtain h4 where h4: "rq_put h3 a (on_rest (\<lambda>r. r\<lparr>rq_port := port\<rparr>)) = Inr h4"
      "request_rep h0 h4 a (on_rest (\<lambda>r. r\<lparr>rq_port := port\<rparr>) q3) xs ys w"
      "request_value h4 (on_rest (\<lambda>r. r\<lparr>rq_port := port\<rparr>) q3) xs ys w
         = request_value h3 (on_rest (\<lambda>r. r\<lparr>rq_port := port\<rparr>) q3) xs ys w"
    using rest_assign [OF h3(2)] by blast
  have "request_value h3 (on_rest (\<lambda>r. r\<lparr>rq_port := port\<rparr>) q3) xs ys w
      = (request_value h3 q3 xs ys w)\<lparr>rq_port := port\<rparr>"
    by (simp add: request_value_def on_rest_def)
  then have "r' = request_value h4 (on_rest (\<lambda>r. r\<lparr>rq_port := port\<rparr>) q3) xs ys w"
    unfolding h4(3) h3(3) b(4) by simp
  with h4(2) have "represents h0 h4 a r'" by (rule representsI)
  then show ?thesis using h1(1) h2(1) h3(1) h4(1) by (simp add: heap_set_url_def)
qed

lemma heap_set_method_refines:
  assumes r: "represents h0 h a r"
  shows "\<exists>h'. heap_set_method h (Some a) m = Inr h' \<and> represents h0 h' a (r\<lparr>rq_method := m\<rparr>)"
proof -
  obtain q xs ys w where q: "request_rep h0 h a q xs ys w" "r = request_value h q xs ys w"
    using r by (auto simp: represents_def)
  obtain h' where h': "rq_put h a (on_rest (\<lambda>r. r\<lparr>rq_method := m\<rparr>)) = Inr h'"
      "request_rep h0 h' a (on_rest (\<lambda>r. r\<lparr>rq_method := m\<rparr>) q) xs ys w"
      "request_value h' (on_rest (\<lambda>r. r\<lparr>rq_method := m\<rparr>) q) xs ys w
         = request_value h (on_rest (\<lambda>r. r\<lparr>rq_method := m\<rparr>) q) xs ys w"
    using rest_assign [OF q(1)] by blast
  have "r\<lparr>rq_method := m\<rparr> = request_value h' (on_rest (\<lambda>r. r\<lparr>rq_method := m\<rparr>) q) xs ys w"
    unfolding h'(3) q(2) by (simp add: request_value_def on_rest_def)
  with h'(1,2) show ?thesis by (auto simp: heap_set_method_def intro: representsI)
qed

lemma entries_next_rep:
  assumes "all_used xs" "sizes_fit mc"
  shows "entries_next mc (map_value h xs) = Inr (map_entries h xs @ [zero_entry])"
proof (cases "xs = []")
  case True
  then show ?thesis using assms(2)
    by (simp add: entries_next_def map_value_def entries_create_eq entries_append_eq map_entries_def zero_entry_def)
next
  case False
  obtain zs a n where xs: "xs = zs @ [(a, n)]" using False by (metis append_butlast_last_id surj_pair)
  then have "nd_value_type n \<noteq> 0" using assms(1) by (simp add: all_used_def)
  with xs assms(2) show ?thesis
    by (simp add: entries_next_def map_value_def entries_append_eq map_entries_def entry_of_def)
qed

lemma entries_set_last_snoc [simp]: "entries_set_last f (es @ [e]) = es @ [f e]"
  by (simp add: entries_set_last_def)

lemma heap_headers_refines:
  assumes r: "request_rep h0 h a q xs ys w" and mc: "sizes_fit mc"
    and v: "string_entry mc (map_value h xs) name name_len val val_len = Inr es"
  shows "\<exists>h' q' zs. heap_string_entry mc h a hq_http_headers (\<lambda>p q. q\<lparr>hq_http_headers := p\<rparr>)
       name name_len val val_len = Some (Inr h') \<and> request_rep h0 h' a q' zs ys w
    \<and> request_value h' q' zs ys w = (request_value h q xs ys w)\<lparr>rq_http_headers := Some es\<rparr>"
proof -
  let ?ps = "[hq_scheme q, hq_host q, hq_path q, hq_boundary q] @ map_owned ys
          @ [hq_work_mutex q, hq_command_mutex q] @ response_owned w"
  note d = r [unfolded request_rep_def]
  have u: "all_used xs" using d by simp
  obtain k vv where c: "nhr_string_copy_len mc name name_len = Inr k" "nhr_string_copy_len mc val val_len = Inr vv"
    and es: "es = map_entries h xs @ [zero_entry\<lparr>me_key := k, me_value := vv, me_value_size := val_len,
      me_value_type := NHR_MAP_VALUE_STRING\<rparr>]"
    using v unfolding string_entry_def entries_next_rep [OF u mc] by (auto elim!: r_bindE)
  have o: "owns h0 h (Some a # map_owned xs @ ?ps)" by (rule owns_perm [OF rep_owns [OF r]]) simp
  obtain h' zs m where h': "heap_string_entry mc h a hq_http_headers (\<lambda>p q. q\<lparr>hq_http_headers := p\<rparr>)
       name name_len val val_len = Some (Inr h')" "request_in h' a (q\<lparr>hq_http_headers := m\<rparr>)" "map_ok h' m zs"
      "zs \<noteq> []" "all_used zs" "owns h0 h' (Some a # map_owned zs @ ?ps)" "same_at h h' ?ps" "map_entries h' zs = es"
    using headers.string_entry [OF _ _ u o mc c] d es by blast
  have m: "map_ok h' (hq_parameters q) ys" "map_value h' ys = map_value h ys"
      "response_in h' (hq_response q) w" "response_value h' w = response_value h w"
    using d by (auto intro: map_same [OF _ h'(7)] response_same [OF _ h'(7)])
  have "owns h0 h' (Some a # [hq_scheme q, hq_host q, hq_path q, hq_boundary q] @ map_owned zs @ map_owned ys
          @ [hq_work_mutex q, hq_command_mutex q] @ response_owned w)"
    by (rule owns_perm [OF h'(6)]) simp
  moreover have "strings_in h' [hq_scheme q, hq_host q, hq_path q, hq_boundary q]"
    using d by (auto intro: strings_in_same [OF _ h'(7)])
  ultimately have "request_rep h0 h' a (q\<lparr>hq_http_headers := m\<rparr>) zs ys w"
    using h'(2,3,5) m d by (simp add: request_rep_def)
  moreover have "request_value h' (q\<lparr>hq_http_headers := m\<rparr>) zs ys w
      = (request_value h q xs ys w)\<lparr>rq_http_headers := Some es\<rparr>"
    using m h'(4,8) load_same [OF h'(7)] by (simp add: request_value_def map_value_def)
  ultimately show ?thesis using h'(1) by blast
qed

lemma parameters_changed:
  assumes r: "request_rep h0 h a q xs ys w" and g: "request_in h' a (q\<lparr>hq_parameters := m\<rparr>)"
    and m: "map_ok h' m zs" "zs \<noteq> []" "all_used zs" "map_entries h' zs = es"
    and o: "owns h0 h' (Some a # map_owned zs @ [hq_scheme q, hq_host q, hq_path q, hq_boundary q] @ map_owned xs
          @ [hq_work_mutex q, hq_command_mutex q] @ response_owned w)"
    and s: "same_at h h' ([hq_scheme q, hq_host q, hq_path q, hq_boundary q] @ map_owned xs
          @ [hq_work_mutex q, hq_command_mutex q] @ response_owned w)"
  shows "request_rep h0 h' a (q\<lparr>hq_parameters := m\<rparr>) xs zs w"
    "request_value h' (q\<lparr>hq_parameters := m\<rparr>) xs zs w = (request_value h q xs ys w)\<lparr>rq_parameters := Some es\<rparr>"
proof -
  note d = r [unfolded request_rep_def]
  have x: "map_ok h' (hq_http_headers q) xs" "map_value h' xs = map_value h xs"
      "response_in h' (hq_response q) w" "response_value h' w = response_value h w"
    using d by (auto intro: map_same [OF _ s] response_same [OF _ s])
  have "owns h0 h' (Some a # [hq_scheme q, hq_host q, hq_path q, hq_boundary q] @ map_owned xs @ map_owned zs
          @ [hq_work_mutex q, hq_command_mutex q] @ response_owned w)"
    by (rule owns_perm [OF o]) simp
  moreover have "strings_in h' [hq_scheme q, hq_host q, hq_path q, hq_boundary q]"
    using d by (auto intro: strings_in_same [OF _ s])
  ultimately show "request_rep h0 h' a (q\<lparr>hq_parameters := m\<rparr>) xs zs w"
    using g m x d by (simp add: request_rep_def)
  show "request_value h' (q\<lparr>hq_parameters := m\<rparr>) xs zs w = (request_value h q xs ys w)\<lparr>rq_parameters := Some es\<rparr>"
    using x m load_same [OF s] by (simp add: request_value_def map_value_def)
qed

lemma rep_owns_parameters:
  "request_rep h0 h a q xs ys w \<Longrightarrow> owns h0 h (Some a # map_owned ys @ [hq_scheme q, hq_host q, hq_path q,
     hq_boundary q] @ map_owned xs @ [hq_work_mutex q, hq_command_mutex q] @ response_owned w)"
  by (drule rep_owns, erule owns_perm) simp

lemma heap_parameters_refines:
  assumes r: "request_rep h0 h a q xs ys w" and mc: "sizes_fit mc"
    and v: "string_entry mc (map_value h ys) name name_len val val_len = Inr es"
  shows "\<exists>h' q' zs. heap_string_entry mc h a hq_parameters (\<lambda>p q. q\<lparr>hq_parameters := p\<rparr>)
       name name_len val val_len = Some (Inr h') \<and> request_rep h0 h' a q' xs zs w
    \<and> request_value h' q' xs zs w = (request_value h q xs ys w)\<lparr>rq_parameters := Some es\<rparr>"
proof -
  note d = r [unfolded request_rep_def] and o = rep_owns_parameters [OF r]
  have u: "all_used ys" using d by simp
  obtain k vv where c: "nhr_string_copy_len mc name name_len = Inr k" "nhr_string_copy_len mc val val_len = Inr vv"
    and es: "es = map_entries h ys @ [zero_entry\<lparr>me_key := k, me_value := vv, me_value_size := val_len,
      me_value_type := NHR_MAP_VALUE_STRING\<rparr>]"
    using v unfolding string_entry_def entries_next_rep [OF u mc] by (auto elim!: r_bindE)
  from parameters.string_entry [OF _ _ u o mc c] d es parameters_changed [OF r] show ?thesis by blast
qed

lemma heap_add_header_field_refines:
  assumes r: "represents h0 h a r" and mc: "sizes_fit mc"
    and v: "nhr_request_add_header_field mc (Some r) name val = Inr (Some r')"
  shows "\<exists>h'. heap_add_header_field mc h (Some a) name val = Some (Inr h') \<and> represents h0 h' a r'"
proof -
  obtain q xs ys w where q: "request_rep h0 h a q xs ys w" "r = request_value h q xs ys w"
    using r by (auto simp: represents_def)
  have v: "rq_add_header_field mc r name val = Inr r'"
    using v by (auto simp: nhr_request_add_header_field_def elim!: r_bindE)
  obtain nl vl where l: "strlen_or_0 name = Inr nl" "strlen_or_0 val = Inr vl"
    using v unfolding rq_add_header_field_def by (auto elim!: r_bindE)
  show ?thesis
  proof (cases "nl = 0 \<or> vl = 0")
    case True
    with v l have "r' = r" by (auto simp: rq_add_header_field_def)
    with r l True show ?thesis by (auto simp: heap_add_header_field_def)
  next
    case False
    let ?f = "\<lambda>v r. let r = (if v = k_nhr_gzip then r\<lparr>rq_is_gziped := True\<rparr> else r) in
                       if v = k_nhr_deflate then r\<lparr>rq_is_deflated := True\<rparr> else r"
    have "r_bind (string_entry mc (rq_http_headers r) name nl val vl) (\<lambda>es.
          r_bind (c_string (blk_bytes val)) (\<lambda>v. Inr (?f v (r\<lparr>rq_http_headers := Some es\<rparr>)))) = Inr r'"
      using v l False by (simp add: rq_add_header_field_def Let_def)
    moreover have "rq_http_headers r = map_value h xs" using q(2) by (simp add: request_value_def)
    ultimately obtain es v where es: "string_entry mc (map_value h xs) name nl val vl = Inr es"
        "c_string (blk_bytes val) = Inr v" "r' = ?f v (r\<lparr>rq_http_headers := Some es\<rparr>)"
      by (auto elim!: r_bindE)
    obtain h1 q1 zs where h1: "heap_string_entry mc h a hq_http_headers (\<lambda>p q. q\<lparr>hq_http_headers := p\<rparr>)
         name nl val vl = Some (Inr h1)" "request_rep h0 h1 a q1 zs ys w"
        "request_value h1 q1 zs ys w = r\<lparr>rq_http_headers := Some es\<rparr>"
      using heap_headers_refines [OF q(1) mc es(1)] q(2) by blast
    obtain h2 where h2: "rq_put h1 a (on_rest (?f v)) = Inr h2" "request_rep h0 h2 a (on_rest (?f v) q1) zs ys w"
        "request_value h2 (on_rest (?f v) q1) zs ys w = request_value h1 (on_rest (?f v) q1) zs ys w"
      using rest_assign [OF h1(2)] by blast
    have "request_value h1 (on_rest (?f v) q1) zs ys w = ?f v (request_value h1 q1 zs ys w)"
      by (simp add: request_value_def on_rest_def Let_def)
    then have "r' = request_value h2 (on_rest (?f v) q1) zs ys w" unfolding h2(3) h1(3) es(3) by simp
    with h2(2) have "represents h0 h2 a r'" by (rule representsI)
    moreover have "heap_add_header_field mc h (Some a) name val = Some (Inr h2)"
      using l False h1(1) es(2) h2(1) by (simp add: heap_add_header_field_def)
    ultimately show ?thesis by blast
  qed
qed

lemma heap_add_parameter_refines:
  assumes r: "represents h0 h a r" and mc: "sizes_fit mc"
    and v: "nhr_request_add_parameter mc (Some r) name val = Inr (Some r')"
  shows "\<exists>h'. heap_add_parameter mc h (Some a) name val = Some (Inr h') \<and> represents h0 h' a r'"
proof -
  obtain q xs ys w where q: "request_rep h0 h a q xs ys w" "r = request_value h q xs ys w"
    using r by (auto simp: represents_def)
  obtain nl vl where l: "strlen_or_0 name = Inr nl" "strlen_or_0 val = Inr vl"
    using v unfolding nhr_request_add_parameter_def by (auto elim!: r_bindE)
  show ?thesis
  proof (cases "nl = 0 \<or> vl = 0")
    case True
    with v l have "r' = r" by (auto simp: nhr_request_add_parameter_def)
    with r l True show ?thesis by (auto simp: heap_add_parameter_def)
  next
    case False
    have par: "rq_parameters r = map_value h ys" "rq_method r = rq_method (hq_rest q)"
      using q(2) by (simp_all add: request_value_def)
    then obtain es where es: "r_check (rq_method (hq_rest q) \<noteq> None) AssertFailed = Inr ()"
        "string_entry mc (map_value h ys) name nl val vl = Inr es" "r' = r\<lparr>rq_parameters := Some es\<rparr>"
      using v l False by (auto simp: nhr_request_add_parameter_def elim!: r_bindE)
    obtain h1 q1 zs where h1: "heap_string_entry mc h a hq_parameters (\<lambda>p q. q\<lparr>hq_parameters := p\<rparr>)
         name nl val vl = Some (Inr h1)" "request_rep h0 h1 a q1 xs zs w"
        "request_value h1 q1 xs zs w = r\<lparr>rq_parameters := Some es\<rparr>"
      using heap_parameters_refines [OF q(1) mc es(2)] q(2) by blast
    have "represents h0 h1 a r'" using h1(2) by (rule representsI) (simp add: es(3) h1(3))
    moreover have "heap_add_parameter mc h (Some a) name val = Some (Inr h1)"
      using l False h1(1) es(1) q(1) by (simp add: heap_add_parameter_def request_rep_def)
    ultimately show ?thesis by blast
  qed
qed

lemma generate_boundary_shape:
  assumes "nhr_request_generate_new_boundary mc r = Inr r'"
  shows "\<exists>b. r' = r\<lparr>rq_boundary := b\<rparr> \<and> (\<forall>u. nhr_request_generate_new_boundary mc u = Inr (u\<lparr>rq_boundary := b\<rparr>))"
  using assms by (auto simp: nhr_request_generate_new_boundary_def Let_def elim!: r_bindE)

lemma clean_empty_boundary:
  assumes "request_in h a q" "hq_boundary q = None"
  shows "delete_member nhr_string_delete_clean h a hq_boundary (\<lambda>p q. q\<lparr>hq_boundary := p\<rparr>) = Inr h"
proof -
  have "h ! a = Some (St (Request_block q))"
    using assms(1) by (simp add: h_get_def rq_at_def split: if_splits option.splits map_block.splits req_struct.splits)
  then have "h_put h a (St (Request_block (q\<lparr>hq_boundary := None\<rparr>))) = h"
    using assms(2) by (cases q) (simp add: h_put_def, metis list_update_id)
  then show ?thesis
    using assms by (simp add: delete_member_def nhr_string_delete_clean_def nhr_free_def rq_put_def)
qed

lemma heap_boundary_refines:
  assumes r: "request_rep h0 h a q xs ys w" and none: "hq_boundary q = None"
    and v: "nhr_request_generate_new_boundary mc (request_value h q xs ys w) = Inr r'"
  shows "\<exists>h'. heap_generate_new_boundary mc h a = Inr h' \<and> represents h0 h' a r'"
proof -
  obtain b where b: "r' = (request_value h q xs ys w)\<lparr>rq_boundary := b\<rparr>"
      "\<And>u. nhr_request_generate_new_boundary mc u = Inr (u\<lparr>rq_boundary := b\<rparr>)"
    using generate_boundary_shape [OF v] by blast
  let ?ps = "[hq_scheme q, hq_host q, hq_path q] @ map_owned xs @ map_owned ys
          @ [hq_work_mutex q, hq_command_mutex q] @ response_owned w"
  have g: "request_in h a q" using r by (simp add: request_rep_def)
  have "owns h0 h (None # Some a # ?ps)" using none by (intro owns_perm [OF rep_owns [OF r]]) simp
  then have o: "owns h0 h (Some a # ?ps)" by (simp only: owns_None)
  obtain p h1 where st: "store h b = (p, h1)" by (cases "store h b")
  note s = owns_store [OF o st]
  have g1: "request_in h1 a q" using g s(2) by (simp add: same_at_def)
  have "owns h0 h1 (Some a # p # ?ps)" by (rule owns_perm [OF s(1)]) simp
  then obtain h' where h': "rq_put h1 a (\<lambda>q. q\<lparr>hq_boundary := p\<rparr>) = Inr h'" "request_in h' a (q\<lparr>hq_boundary := p\<rparr>)"
      "owns h0 h' (Some a # p # ?ps)" "same_at h1 h' (p # ?ps)"
    using rq_assign [OF g1] by blast
  have same: "same_at h h' ?ps" using s(2) h'(4) by (simp add: same_at_def)
  have l: "load h' p = b" "p \<noteq> None \<Longrightarrow> load h' p \<noteq> None"
    using load_same [OF h'(4), of p] s(3,4) by simp_all
  have "represents h0 h' a r'"
    by (rule representsI [OF boundary.changed(1) [OF r h'(2,3) same l(2)]])
       (simp_all add: l b(1) boundary.changed(2) [OF r h'(2,3) same l(2)])
  moreover have "heap_generate_new_boundary mc h a = Inr h'"
    using g b(2) st h'(1) clean_empty_boundary [OF g none] by (simp add: heap_generate_new_boundary_def)
  ultimately show ?thesis by blast
qed

lemma data_on_heap:
  assumes "nhr_malloc mc n = Inr dd" "mem_read d n = Inr src" "memcpy_to dd 0 src = Inr b" "n \<noteq> 0"
  shows "b \<noteq> None"
  using assms by (auto simp: nhr_malloc_Inr_conv memcpy_to_Inr_conv)

lemma heap_data_entry_refines:
  assumes r: "request_rep h0 h a q xs ys w" and mc: "sizes_fit mc" and d: "store h dd = (dp, h1)"
    and c: "nhr_string_copy_len mc name name_len = Inr k" "nhr_string_copy_len mc file file_len = Inr f"
    and n: "heap_next_node mc h1 a hq_parameters (\<lambda>p q. q\<lparr>hq_parameters := p\<rparr>) = Some (Inr (lst, h2))"
  shows "\<exists>h3 h4 h5 q' zs. heap_node_string mc h2 lst (\<lambda>p n. n\<lparr>nd_key := p\<rparr>) name name_len = Inr h3
    \<and> heap_node_string mc h3 lst (\<lambda>p n. n\<lparr>nd_reserved := V_data p\<rparr>) file file_len = Inr h4
    \<and> nd_put h4 lst (\<lambda>n. n\<lparr>nd_reserved_size := file_len, nd_reserved_type := NHR_MAP_VALUE_STRING,
         nd_value := V_data dp, nd_value_size := sz, nd_value_type := NHR_MAP_VALUE_DATA\<rparr>) = Inr h5
    \<and> request_rep h0 h5 a q' xs zs w \<and> hq_boundary q' = hq_boundary q
    \<and> request_value h5 q' xs zs w = (request_value h q xs ys w)\<lparr>rq_parameters := Some (map_entries h ys
        @ [zero_entry\<lparr>me_key := k, me_reserved := f, me_reserved_size := file_len,
             me_reserved_type := NHR_MAP_VALUE_STRING, me_value := dd, me_value_size := sz,
             me_value_type := NHR_MAP_VALUE_DATA\<rparr>])\<rparr>"
proof -
  let ?ps = "[hq_scheme q, hq_host q, hq_path q, hq_boundary q] @ map_owned xs
          @ [hq_work_mutex q, hq_command_mutex q] @ response_owned w"
  note rep = r [unfolded request_rep_def] and st = owns_store [OF rep_owns_parameters [OF r] d]
  have u: "all_used ys" using rep by simp
  have g1: "request_in h1 a q" using rep st(2) by (simp add: same_at_def)
  have "same_at h h1 (map_owned ys)" by (rule same_at_sub [OF st(2)]) auto
  then have m1: "map_ok h1 (hq_parameters q) ys" "map_entries h1 ys = map_entries h ys"
    using map_ok_same rep by blast+
  have o1: "owns h0 h1 (Some a # map_owned ys @ dp # ?ps)" by (rule owns_perm [OF st(1)]) simp
  obtain s zs m where h2: "lst = Some s" "request_in h2 a (q\<lparr>hq_parameters := m\<rparr>)"
      "map_ok h2 m (zs @ [(s, zero_node)])" "all_used zs" "owns h0 h2 (Some s # map_owned zs @ Some a # dp # ?ps)"
      "same_at h1 h2 (dp # ?ps)" "map_entries h2 zs = map_entries h1 ys"
    using parameters.next_node [OF g1 m1(1) u o1 mc] n by auto
  have o2: "owns h0 h2 (Some s # map_owned zs @ dp # Some a # ?ps)" by (rule owns_perm [OF h2(5)]) simp
  have "load h2 dp = dd" using load_same [OF h2(6), of dp] st(3) by simp
  from fill_data [OF h2(3,4) o2 this c, where sz = sz] obtain h3 h4 h5 n where h5:
      "heap_node_string mc h2 (Some s) (\<lambda>p n. n\<lparr>nd_key := p\<rparr>) name name_len = Inr h3"
      "heap_node_string mc h3 (Some s) (\<lambda>p n. n\<lparr>nd_reserved := V_data p\<rparr>) file file_len = Inr h4"
      "nd_put h4 (Some s) (\<lambda>n. n\<lparr>nd_reserved_size := file_len, nd_reserved_type := NHR_MAP_VALUE_STRING,
         nd_value := V_data dp, nd_value_size := sz, nd_value_type := NHR_MAP_VALUE_DATA\<rparr>) = Inr h5"
      "map_ok h5 m (zs @ [(s, n)])" "all_used (zs @ [(s, n)])"
      "owns h0 h5 (map_owned (zs @ [(s, n)]) @ Some a # ?ps)" "same_at h2 h5 (Some a # ?ps)"
      "map_entries h5 (zs @ [(s, n)]) = map_entries h2 zs
        @ [zero_entry\<lparr>me_key := k, me_reserved := f, me_reserved_size := file_len,
             me_reserved_type := NHR_MAP_VALUE_STRING, me_value := dd, me_value_size := sz,
             me_value_type := NHR_MAP_VALUE_DATA\<rparr>]" by blast
  have g5: "request_in h5 a (q\<lparr>hq_parameters := m\<rparr>)" "same_at h h5 ?ps"
    using h2(2,6) h5(7) st(2) by (simp_all add: same_at_def)
  have o5: "owns h0 h5 (Some a # map_owned (zs @ [(s, n)]) @ ?ps)" by (rule owns_perm [OF h5(6)]) simp
  note pc = parameters_changed [OF r g5(1) h5(4) _ h5(5,8) o5 g5(2)]
  show ?thesis
    using h5(1-3) h2(1,7) m1(2) pc
    by (intro exI [of _ h3] exI [of _ h4] exI [of _ h5] exI [of _ "q\<lparr>hq_parameters := m\<rparr>"]
        exI [of _ "zs @ [(s, n)]"]) simp
qed


definition data_entry :: "bytes option \<Rightarrow> bytes option \<Rightarrow> nat \<Rightarrow> bytes option \<Rightarrow> nat \<Rightarrow> map_entry" where
  "data_entry k f fl dd n = zero_entry\<lparr>me_key := k, me_reserved := f, me_reserved_size := fl,
     me_reserved_type := NHR_MAP_VALUE_STRING, me_value := dd, me_value_size := n,
     me_value_type := NHR_MAP_VALUE_DATA\<rparr>"

abbreviation with_data :: "map_entry list \<Rightarrow> nhr_request \<Rightarrow> nhr_request" where
  "with_data es r \<equiv> r\<lparr>rq_parameters := Some es, rq_is_have_data_parameter := True\<rparr>"

lemma add_data_value:
  assumes v: "nhr_request_add_data_parameter mc (Some r) name file (Some d) n = Inr (Some r')" and n: "n \<noteq> 0"
    and l: "strlen_or_0 name = Inr nl" "strlen_or_0 file = Inr fl" "nl \<noteq> 0" "fl \<noteq> 0"
    and m: "entries_next mc (rq_parameters r) = Inr (es @ [zero_entry])"
  shows "\<exists>d0 src dd k f. rq_method r \<noteq> None \<and> nhr_malloc mc n = Inr d0 \<and> mem_read d n = Inr src
    \<and> memcpy_to d0 0 src = Inr dd \<and> nhr_string_copy_len mc name nl = Inr k \<and> nhr_string_copy_len mc file fl = Inr f
    \<and> (if rq_boundary r = None
       then nhr_request_generate_new_boundary mc (with_data (es @ [data_entry k f fl dd n]) r) = Inr r'
       else r' = with_data (es @ [data_entry k f fl dd n]) r)"
  using v n l m unfolding data_entry_def
  by (cases "rq_boundary r"; simp add: nhr_request_add_data_parameter_def Let_def) (auto elim!: r_bindE)

lemma add_data_heap:
  assumes q: "request_rep h0 h a q xs ys w" and mc: "sizes_fit mc" and n: "n \<noteq> 0"
    and l: "strlen_or_0 name = Inr nl" "strlen_or_0 file = Inr fl" "nl \<noteq> 0" "fl \<noteq> 0"
    and b: "rq_method (hq_rest q) \<noteq> None" "nhr_malloc mc n = Inr d0" "mem_read d n = Inr src"
      "memcpy_to d0 0 src = Inr dd" "nhr_string_copy_len mc name nl = Inr k" "nhr_string_copy_len mc file fl = Inr f"
  shows "\<exists>h' q' zs. heap_add_data_parameter mc h (Some a) name file (Some d) n
      = Some (if hq_boundary q = None then heap_generate_new_boundary mc h' a else Inr h')
    \<and> request_rep h0 h' a q' xs zs w \<and> hq_boundary q' = hq_boundary q
    \<and> request_value h' q' xs zs w
      = with_data (map_entries h ys @ [data_entry k f fl dd n]) (request_value h q xs ys w)"
proof -
  note d = q [unfolded request_rep_def] and o = rep_owns_parameters [OF q]
  obtain dp h1 where st: "store h dd = (dp, h1)" by (cases "store h dd")
  note s = owns_store [OF o st]
  have g1: "request_in h1 a q" using d s(2) by (simp add: same_at_def)
  have "same_at h h1 (map_owned ys)" by (rule same_at_sub [OF s(2)]) auto
  then have m1: "map_ok h1 (hq_parameters q) ys" using map_ok_same d by blast
  have o1: "owns h0 h1 (Some a # map_owned ys @ dp # [hq_scheme q, hq_host q, hq_path q, hq_boundary q]
      @ map_owned xs @ [hq_work_mutex q, hq_command_mutex q] @ response_owned w)"
    by (rule owns_perm [OF s(1)]) simp
  have "all_used ys" using d by simp
  from parameters.next_node [OF g1 m1 this o1 mc] obtain lst h2 where
    h2: "heap_next_node mc h1 a hq_parameters (\<lambda>p q. q\<lparr>hq_parameters := p\<rparr>) = Some (Inr (lst, h2))" by blast
  from heap_data_entry_refines [OF q mc st b(5,6) h2, of n] obtain h3 h4 h5 q' zs where
    h5: "heap_node_string mc h2 lst (\<lambda>p n. n\<lparr>nd_key := p\<rparr>) name nl = Inr h3"
      "heap_node_string mc h3 lst (\<lambda>p n. n\<lparr>nd_reserved := V_data p\<rparr>) file fl = Inr h4"
      "nd_put h4 lst (\<lambda>m. m\<lparr>nd_reserved_size := fl, nd_reserved_type := NHR_MAP_VALUE_STRING,
         nd_value := V_data dp, nd_value_size := n, nd_value_type := NHR_MAP_VALUE_DATA\<rparr>) = Inr h5"
      "request_rep h0 h5 a q' xs zs w" "hq_boundary q' = hq_boundary q"
      "request_value h5 q' xs zs w = (request_value h q xs ys w)\<lparr>rq_parameters :=
         Some (map_entries h ys @ [data_entry k f fl dd n])\<rparr>"
    unfolding data_entry_def by blast
  let ?f = "\<lambda>r. r\<lparr>rq_is_have_data_parameter := True\<rparr>"
  obtain h6 where h6: "rq_put h5 a (on_rest ?f) = Inr h6" "request_rep h0 h6 a (on_rest ?f q') xs zs w"
      "request_value h6 (on_rest ?f q') xs zs w = request_value h5 (on_rest ?f q') xs zs w"
    using rest_assign [OF h5(4)] by blast
  have "request_value h5 (on_rest ?f q') xs zs w = ?f (request_value h5 q' xs zs w)"
    by (simp add: request_value_def on_rest_def)
  moreover have "heap_add_data_parameter mc h (Some a) name file (Some d) n
      = Some (if hq_boundary q = None then heap_generate_new_boundary mc h6 a else Inr h6)"
    using n l d b(1-4) st h2 h5(1-3,5) h6(1,2)
    by (simp add: heap_add_data_parameter_def request_rep_def on_rest_def r_check_def)
  ultimately show ?thesis using h6(2,3) h5(5,6)
    by (intro exI [of _ h6] exI [of _ "on_rest ?f q'"] exI [of _ zs]) (simp add: on_rest_def)
qed

lemma heap_add_data_parameter_refines:
  assumes r: "represents h0 h a r" and mc: "sizes_fit mc"
    and v: "nhr_request_add_data_parameter mc (Some r) name file data n = Inr (Some r')"
  shows "\<exists>h'. heap_add_data_parameter mc h (Some a) name file data n = Some (Inr h') \<and> represents h0 h' a r'"
proof -
  obtain q xs ys w where q: "request_rep h0 h a q xs ys w" "r = request_value h q xs ys w"
    using r by (auto simp: represents_def)
  consider (nothing) "data = None \<or> n = 0" | (data) d where "data = Some d" "n \<noteq> 0"
    by (cases data; cases "n = 0") auto
  then show ?thesis
  proof cases
    case nothing
    then have "r' = r" "heap_add_data_parameter mc h (Some a) name file data n = Some (Inr h)"
      using v by (cases data; auto simp: nhr_request_add_data_parameter_def heap_add_data_parameter_def)+
    with r show ?thesis by simp
  next
    case data
    obtain nl fl where l: "strlen_or_0 name = Inr nl" "strlen_or_0 file = Inr fl"
      using v data unfolding nhr_request_add_data_parameter_def by (auto elim!: r_bindE)
    show ?thesis
    proof (cases "nl = 0 \<or> fl = 0")
      case True
      with v l data have "r' = r" by (auto simp: nhr_request_add_data_parameter_def)
      with r l data True show ?thesis by (auto simp: heap_add_data_parameter_def)
    next
      case False
      have par: "rq_parameters r = map_value h ys" "rq_method r = rq_method (hq_rest q)"
          "rq_boundary r = None \<longleftrightarrow> hq_boundary q = None" and u: "all_used ys"
        using q by (auto simp: request_value_def request_rep_def strings_in_def load_def)
      have "entries_next mc (rq_parameters r) = Inr (map_entries h ys @ [zero_entry])"
        using entries_next_rep [OF u mc] par(1) by simp
      from add_data_value [OF v [unfolded data(1)] data(2) l _ _ this] False obtain d0 src dd k f where
        b: "rq_method r \<noteq> None" "nhr_malloc mc n = Inr d0" "mem_read d n = Inr src" "memcpy_to d0 0 src = Inr dd"
          "nhr_string_copy_len mc name nl = Inr k" "nhr_string_copy_len mc file fl = Inr f"
        and r': "if rq_boundary r = None
          then nhr_request_generate_new_boundary mc (with_data (map_entries h ys @ [data_entry k f fl dd n]) r) = Inr r'
          else r' = with_data (map_entries h ys @ [data_entry k f fl dd n]) r" by auto
      have "rq_method (hq_rest q) \<noteq> None" using b(1) par(2) by simp
      from add_data_heap [OF q(1) mc data(2) l _ _ this b(2-6)] False obtain h' q' zs where
        h': "heap_add_data_parameter mc h (Some a) name file (Some d) n
            = Some (if hq_boundary q = None then heap_generate_new_boundary mc h' a else Inr h')"
          "request_rep h0 h' a q' xs zs w" "hq_boundary q' = hq_boundary q"
          "request_value h' q' xs zs w = with_data (map_entries h ys @ [data_entry k f fl dd n]) r"
        unfolding q(2) by auto
      show ?thesis
      proof (cases "hq_boundary q = None")
        case True
        with r' par(3) h'(3,4) heap_boundary_refines [OF h'(2)] show ?thesis using h'(1) data(1) by auto
      next
        case False
        with r' par(3) h'(4) have "r' = request_value h' q' xs zs w" by simp
        with h'(2) have "represents h0 h' a r'" by (rule representsI)
        with h'(1) False data(1) show ?thesis by simp
      qed
    qed
  qed
qed

section \<open>Creating and deleting\<close>

definition room :: "'m mach_scheme \<Rightarrow> bool" where
  \<comment> \<open>the structures can be allocated\<close>
  "room mc \<longleftrightarrow> sizes_fit mc \<and> sizeof_request \<le> mc_limit mc \<and> sizeof_mutex \<le> mc_limit mc"

lemma heap_mutex_create_eq:
  "room mc \<Longrightarrow> heap_mutex_create mc True h
     = Inr (Some (length h), h @ [Some (St (Mutex_block \<lparr>mx_owner = None, mx_depth = 0\<rparr>))])"
  by (simp add: heap_mutex_create_def nhr_mutex_create_recursive_def nhr_malloc_zero_def nhr_malloc_ok room_def
      sizeof_mutex_def h_new_def r_check_def)

lemma heap_create_represents:
  assumes "room mc"
  shows "\<exists>a h. heap_request_create mc True h0 = Inr (Some a, h) \<and> represents h0 h a new_request"
proof -
  let ?a = "length h0" and ?m = "St (Mutex_block \<lparr>mx_owner = None, mx_depth = 0\<rparr>)"
  define h1 where "h1 = h0 @ [Some (St (Request_block empty_block))]"
  have 1: "owns h0 h1 [Some ?a]" "request_in h1 ?a empty_block"
    unfolding h1_def by (rule owns_alloc [OF owns_init])+
  define h2 where "h2 = h1 @ [Some ?m]"
  have 2: "owns h0 h2 [Some (length h1), Some ?a]" "request_in h2 ?a empty_block"
    unfolding h2_def using owns_alloc(1,2) [OF 1(1), of ?m] 1(2) by (simp_all add: same_at_def)
  let ?q1 = "empty_block\<lparr>hq_work_mutex := Some (length h1)\<rparr>"
  have "owns h0 h2 (Some ?a # [Some (length h1)])" by (rule owns_perm [OF 2(1)]) simp
  then obtain h3 where 3: "rq_put h2 ?a (\<lambda>q. q\<lparr>hq_work_mutex := Some (length h1)\<rparr>) = Inr h3" "request_in h3 ?a ?q1"
      "owns h0 h3 (Some ?a # [Some (length h1)])"
    using rq_assign [OF 2(2)] by blast
  define h4 where "h4 = h3 @ [Some ?m]"
  have 4: "owns h0 h4 [Some (length h3), Some ?a, Some (length h1)]" "request_in h4 ?a ?q1"
    unfolding h4_def using owns_alloc(1,2) [OF 3(3), of ?m] 3(2) by (simp_all add: same_at_def)
  let ?q2 = "?q1\<lparr>hq_command_mutex := Some (length h3)\<rparr>"
  have "owns h0 h4 (Some ?a # [Some (length h1), Some (length h3)])" by (rule owns_perm [OF 4(1)]) simp
  then obtain h5 where 5: "rq_put h4 ?a (\<lambda>q. q\<lparr>hq_command_mutex := Some (length h3)\<rparr>) = Inr h5"
      "request_in h5 ?a ?q2" "owns h0 h5 (Some ?a # [Some (length h1), Some (length h3)])"
    using rq_assign [OF 4(2)] by blast
  have "owns h0 h5 (Some ?a # [None, None, None, None, Some (length h1), Some (length h3)])"
    by (rule owns_addresses [OF 5(3)]) simp
  then have "request_rep h0 h5 ?a ?q2 [] [] None"
    using 5(2) by (simp add: request_rep_def map_ok_def all_used_def response_in_def response_owned_def
        strings_in_def empty_block_def)
  moreover have "new_request = request_value h5 ?q2 [] [] None"
    by (simp add: request_value_def map_value_def response_value_def empty_block_def new_request_def load_def)
  ultimately have "represents h0 h5 ?a new_request" by (rule representsI)
  moreover have "heap_request_create mc True h0 = Inr (Some ?a, h5)"
    using assms 3(1) 5(1) unfolding h4_def h2_def h1_def
    by (simp add: heap_request_create_def nhr_malloc_zero_def nhr_malloc_ok room_def sizeof_request_def
        heap_mutex_create_eq h_new_def)
  ultimately show ?thesis by blast
qed

lemma response_delete_owned:
  assumes "response_in h m w" "owns h0 h (response_owned w @ ps)"
  shows "\<exists>h'. nhr_response_delete h m = Inr h' \<and> owns h0 h' ps \<and> same_at h h' ps"
proof (cases w)
  case None
  with assms show ?thesis by (simp add: response_in_def response_owned_def nhr_response_delete_def same_at_def)
next
  case (Some x)
  obtain b p r where x: "x = (b, p, r)" by (cases x)
  with Some assms have m: "m = Some b" "h_get h b = Some (St (Response_block p r))" "owns h0 h (p # Some b # ps)"
    by (simp_all add: response_in_def response_owned_def)
  obtain h1 where h1: "nhr_free h p = Inr h1" "owns h0 h1 (Some b # ps)" "same_at h h1 (Some b # ps)"
    using owns_free [OF m(3)] by blast
  from owns_free [OF h1(2)] h1 m show ?thesis
    by (auto simp: nhr_response_delete_def rs_at_def same_at_def)
qed

lemma mutex_delete_owned:
  assumes "owns h0 h (m # ps)"
  shows "\<exists>h'. heap_mutex_delete h m = Inr h' \<and> owns h0 h' ps \<and> same_at h h' ps"
  using owns_free [OF assms] by (auto simp: heap_mutex_delete_def)

abbreviation no_members :: "req_block \<Rightarrow> req_block" where
  "no_members q \<equiv> q\<lparr>hq_scheme := None, hq_host := None, hq_path := None, hq_http_headers := None,
     hq_parameters := None\<rparr>"

lemma members_deleted:
  assumes r: "request_rep h0 h a q xs ys w"
  shows "\<exists>h2 h3 h4 h5 h6.
      delete_member nhr_string_delete_clean h a hq_scheme (\<lambda>p q. q\<lparr>hq_scheme := p\<rparr>) = Inr h2
    \<and> delete_member nhr_string_delete_clean h2 a hq_host (\<lambda>p q. q\<lparr>hq_host := p\<rparr>) = Inr h3
    \<and> delete_member nhr_string_delete_clean h3 a hq_path (\<lambda>p q. q\<lparr>hq_path := p\<rparr>) = Inr h4
    \<and> delete_member nhr_map_delete_clean h4 a hq_http_headers (\<lambda>p q. q\<lparr>hq_http_headers := p\<rparr>) = Inr h5
    \<and> delete_member nhr_map_delete_clean h5 a hq_parameters (\<lambda>p q. q\<lparr>hq_parameters := p\<rparr>) = Inr h6
    \<and> request_in h6 a (no_members q) \<and> response_in h6 (hq_response q) w
    \<and> owns h0 h6 (hq_work_mutex q # hq_command_mutex q # response_owned w @ [Some a, hq_boundary q])"
proof -
  let ?ms = "[hq_work_mutex q, hq_command_mutex q] @ response_owned w"
  note d = r [unfolded request_rep_def]
  have o1: "owns h0 h (Some a # hq_scheme q # hq_host q # hq_path q # map_owned xs @ map_owned ys @ ?ms
      @ [hq_boundary q])"
    by (rule owns_perm [OF rep_owns [OF r]]) simp
  obtain h2 where h2: "delete_member nhr_string_delete_clean h a hq_scheme (\<lambda>p q. q\<lparr>hq_scheme := p\<rparr>) = Inr h2"
      "request_in h2 a (q\<lparr>hq_scheme := None\<rparr>)"
      "owns h0 h2 (Some a # hq_host q # hq_path q # map_owned xs @ map_owned ys @ ?ms @ [hq_boundary q])"
      "same_at h h2 (hq_host q # hq_path q # map_owned xs @ map_owned ys @ ?ms @ [hq_boundary q])"
    using scheme.delete_string [OF _ o1] d by blast
  obtain h3 where h3: "delete_member nhr_string_delete_clean h2 a hq_host (\<lambda>p q. q\<lparr>hq_host := p\<rparr>) = Inr h3"
      "request_in h3 a (q\<lparr>hq_scheme := None, hq_host := None\<rparr>)"
      "owns h0 h3 (Some a # hq_path q # map_owned xs @ map_owned ys @ ?ms @ [hq_boundary q])"
      "same_at h2 h3 (hq_path q # map_owned xs @ map_owned ys @ ?ms @ [hq_boundary q])"
    using host.delete_string [OF h2(2), of h0] h2(3) by auto
  obtain h4 where h4: "delete_member nhr_string_delete_clean h3 a hq_path (\<lambda>p q. q\<lparr>hq_path := p\<rparr>) = Inr h4"
      "request_in h4 a (q\<lparr>hq_scheme := None, hq_host := None, hq_path := None\<rparr>)"
      "owns h0 h4 (Some a # map_owned xs @ map_owned ys @ ?ms @ [hq_boundary q])"
      "same_at h3 h4 (map_owned xs @ map_owned ys @ ?ms @ [hq_boundary q])"
    using path.delete_string [OF h3(2), of h0] h3(3) by auto
  have s4: "same_at h h4 (map_owned xs @ map_owned ys @ ?ms @ [hq_boundary q])"
    using h2(4) h3(4) h4(4) by (simp add: same_at_def)
  have m4: "map_ok h4 (hq_http_headers q) xs" "map_ok h4 (hq_parameters q) ys" "response_in h4 (hq_response q) w"
    using d by (auto intro: map_same [OF _ s4] response_same [OF _ s4])
  obtain h5 where h5: "delete_member nhr_map_delete_clean h4 a hq_http_headers (\<lambda>p q. q\<lparr>hq_http_headers := p\<rparr>) = Inr h5"
      "request_in h5 a (q\<lparr>hq_scheme := None, hq_host := None, hq_path := None, hq_http_headers := None\<rparr>)"
      "owns h0 h5 (Some a # map_owned ys @ ?ms @ [hq_boundary q])"
      "same_at h4 h5 (map_owned ys @ ?ms @ [hq_boundary q])"
    using headers.delete_map [OF h4(2) _ h4(3)] m4(1) by auto
  have m5: "map_ok h5 (hq_parameters q) ys" "response_in h5 (hq_response q) w"
    using m4(2,3) by (auto intro: map_same [OF _ h5(4)] response_same [OF _ h5(4)])
  obtain h6 where h6: "delete_member nhr_map_delete_clean h5 a hq_parameters (\<lambda>p q. q\<lparr>hq_parameters := p\<rparr>) = Inr h6"
      "request_in h6 a (q\<lparr>hq_scheme := None, hq_host := None, hq_path := None, hq_http_headers := None,
         hq_parameters := None\<rparr>)"
      "owns h0 h6 (Some a # ?ms @ [hq_boundary q])" "same_at h5 h6 (?ms @ [hq_boundary q])"
    using parameters.delete_map [OF h5(2) _ h5(3)] m5(1) by auto
  have "response_in h6 (hq_response q) w" by (rule response_same(1) [OF m5(2) h6(4)]) auto
  moreover have "owns h0 h6 (hq_work_mutex q # hq_command_mutex q # response_owned w @ [Some a, hq_boundary q])"
    by (rule owns_perm [OF h6(3)]) simp
  ultimately show ?thesis using h2(1) h3(1) h4(1) h5(1) h6(1,2) by blast
qed

lemma request_delete_owned:
  assumes r: "request_rep h0 h a q xs ys w"
  shows "\<exists>h'. heap_request_delete h a = Inr h' \<and> owns h0 h' []"
proof -
  obtain h1 where h1: "rq_put h a (on_rest nhr_request_close) = Inr h1"
      "request_rep h0 h1 a (on_rest nhr_request_close q) xs ys w"
    using rest_assign [OF r] by blast
  let ?q = "on_rest nhr_request_close q"
  from members_deleted [OF h1(2)] obtain h2 h3 h4 h5 h6 where
    dm: "delete_member nhr_string_delete_clean h1 a hq_scheme (\<lambda>p q. q\<lparr>hq_scheme := p\<rparr>) = Inr h2"
      "delete_member nhr_string_delete_clean h2 a hq_host (\<lambda>p q. q\<lparr>hq_host := p\<rparr>) = Inr h3"
      "delete_member nhr_string_delete_clean h3 a hq_path (\<lambda>p q. q\<lparr>hq_path := p\<rparr>) = Inr h4"
      "delete_member nhr_map_delete_clean h4 a hq_http_headers (\<lambda>p q. q\<lparr>hq_http_headers := p\<rparr>) = Inr h5"
      "delete_member nhr_map_delete_clean h5 a hq_parameters (\<lambda>p q. q\<lparr>hq_parameters := p\<rparr>) = Inr h6"
    and g6: "request_in h6 a (no_members ?q)" and m6: "response_in h6 (hq_response ?q) w"
    and o6: "owns h0 h6 (hq_work_mutex ?q # hq_command_mutex ?q # response_owned w @ [Some a, hq_boundary ?q])"
    by blast
  obtain h7 where h7: "heap_mutex_delete h6 (hq_work_mutex ?q) = Inr h7"
      "owns h0 h7 (hq_command_mutex ?q # response_owned w @ [Some a, hq_boundary ?q])"
      "same_at h6 h7 (hq_command_mutex ?q # response_owned w @ [Some a, hq_boundary ?q])"
    using mutex_delete_owned [OF o6] by blast
  obtain h8 where h8: "heap_mutex_delete h7 (hq_command_mutex ?q) = Inr h8"
      "owns h0 h8 (response_owned w @ [Some a, hq_boundary ?q])"
      "same_at h7 h8 (response_owned w @ [Some a, hq_boundary ?q])"
    using mutex_delete_owned [OF h7(2)] by blast
  have s8: "same_at h6 h8 (response_owned w @ [Some a, hq_boundary ?q])" using h7(3) h8(3) by (simp add: same_at_def)
  have m8: "response_in h8 (hq_response ?q) w" by (rule response_same(1) [OF m6 s8]) auto
  obtain h9 where h9: "nhr_response_delete h8 (hq_response ?q) = Inr h9" "owns h0 h9 [Some a, hq_boundary ?q]"
      "same_at h8 h9 [Some a, hq_boundary ?q]"
    using response_delete_owned [OF m8 h8(2)] by blast
  have g9: "request_in h9 a (no_members ?q)"
    using g6 s8 h9(3) by (simp add: same_at_def)
  obtain h10 where h10: "delete_member nhr_string_delete_clean h9 a hq_boundary (\<lambda>p q. q\<lparr>hq_boundary := p\<rparr>) = Inr h10"
      "owns h0 h10 [Some a]"
    using boundary.delete_string [OF g9, of h0 "[]"] h9(2) by auto
  from owns_free [OF h10(2)] show ?thesis
    using h1(1) dm g6 h7(1) h8(1) h9(1) h10(1)
    by (auto simp: heap_request_delete_def)
qed

section \<open>Sequences of calls\<close>

datatype client_call =
    Set_url "bytes option" "bytes option" "bytes option" "16 word"
  | Set_method "nhr_method option"
  | Add_header_field "bytes option" "bytes option"
  | Add_param "bytes option" "bytes option"
  | Add_data_param "bytes option" "bytes option" "bytes option" nat

fun value_call :: "'z gz_mach \<Rightarrow> nhr_request option \<Rightarrow> client_call \<Rightarrow> nhr_request option res" where
  "value_call mc r (Set_url s h p port) = nhr_request_set_url mc r s h p port"
| "value_call mc r (Set_method m) = Inr (nhr_request_set_method r m)"
| "value_call mc r (Add_header_field k v) = nhr_request_add_header_field mc r k v"
| "value_call mc r (Add_param k v) = nhr_request_add_parameter mc r k v"
| "value_call mc r (Add_data_param k f d n) = nhr_request_add_data_parameter mc r k f d n"

fun heap_call :: "'z gz_mach \<Rightarrow> req_heap \<Rightarrow> ptr \<Rightarrow> client_call \<Rightarrow> req_heap res option" where
  "heap_call mc h a (Set_url s ho p port) = Some (heap_set_url mc h a s ho p port)"
| "heap_call mc h a (Set_method m) = Some (heap_set_method h a m)"
| "heap_call mc h a (Add_header_field k v) = heap_add_header_field mc h a k v"
| "heap_call mc h a (Add_param k v) = heap_add_parameter mc h a k v"
| "heap_call mc h a (Add_data_param k f d n) = heap_add_data_parameter mc h a k f d n"

fun value_calls :: "'z gz_mach \<Rightarrow> nhr_request option \<Rightarrow> client_call list \<Rightarrow> nhr_request option res" where
  "value_calls mc r [] = Inr r"
| "value_calls mc r (c # cs) = r_bind (value_call mc r c) (\<lambda>r. value_calls mc r cs)"

fun heap_calls :: "'z gz_mach \<Rightarrow> req_heap \<Rightarrow> ptr \<Rightarrow> client_call list \<Rightarrow> req_heap res option" where
  "heap_calls mc h a [] = Some (Inr h)"
| "heap_calls mc h a (c # cs) = ro_bind (heap_call mc h a c) (\<lambda>h. heap_calls mc h a cs)"

lemma heap_call_refines:
  assumes "represents h0 h a r" "sizes_fit mc" "value_call mc (Some r) c = Inr (Some r')"
  shows "\<exists>h'. heap_call mc h (Some a) c = Some (Inr h') \<and> represents h0 h' a r'"
proof (cases c)
  case (Set_url s ho p port)
  with assms heap_set_url_refines [of h0 h a r mc s ho p port r'] show ?thesis by auto
next
  case (Set_method m)
  with assms heap_set_method_refines [of h0 h a r m] show ?thesis by (auto simp: nhr_request_set_method_def)
next
  case (Add_header_field k v)
  with assms heap_add_header_field_refines [of h0 h a r mc k v r'] show ?thesis by auto
next
  case (Add_param k v)
  with assms heap_add_parameter_refines [of h0 h a r mc k v r'] show ?thesis by auto
next
  case (Add_data_param k f d n)
  with assms heap_add_data_parameter_refines [of h0 h a r mc k f d n r'] show ?thesis by auto
qed

lemma value_call_some:
  assumes "value_call mc (Some r) c = Inr x"
  shows "\<exists>r'. x = Some r'"
proof (cases c)
  case (Add_data_param k f d n)
  with assms show ?thesis
    by (auto simp: nhr_request_add_data_parameter_def Let_def elim!: r_bindE split: option.split_asm if_split_asm)
next
  case (Add_param k v)
  with assms show ?thesis
    by (auto simp: nhr_request_add_parameter_def elim!: r_bindE split: if_split_asm)
qed (use assms in \<open>auto simp: nhr_request_set_url_def nhr_request_set_method_def nhr_request_add_header_field_def
       elim!: r_bindE\<close>)

lemma heap_calls_follow:
  assumes "represents h0 h a r" "sizes_fit mc" "value_calls mc (Some r) cs = Inr (Some r')"
  shows "\<exists>h'. heap_calls mc h (Some a) cs = Some (Inr h') \<and> represents h0 h' a r'"
  using assms(1,3)
proof (induction cs arbitrary: h r)
  case Nil
  then show ?case by simp
next
  case (Cons c cs)
  obtain x where x: "value_call mc (Some r) c = Inr x" "value_calls mc x cs = Inr (Some r')"
    using Cons.prems(2) by (auto elim!: r_bindE)
  obtain r1 where "x = Some r1" using value_call_some [OF x(1)] by blast
  with x heap_call_refines [OF Cons.prems(1) assms(2)] obtain h1 where
    "heap_call mc h (Some a) c = Some (Inr h1)" "represents h0 h1 a r1" by blast
  with Cons.IH [of h1 r1] x(2) \<open>x = Some r1\<close> show ?case by auto
qed

definition same_worker :: "nhr_request \<Rightarrow> nhr_request \<Rightarrow> bool" where
  \<comment> \<open>what the calls of the client leave alone\<close>
  "same_worker r r' \<longleftrightarrow> rq_work_thread r' = rq_work_thread r \<and> rq_response r' = rq_response r"

lemma value_call_worker:
  assumes "value_call mc (Some r) c = Inr (Some r')"
  shows "same_worker r r'"
proof -
  have h: "same_worker r u" if "rq_add_header_field mc r k v = Inr u" for u k v
    using that by (auto simp: same_worker_def rq_add_header_field_def Let_def elim!: r_bindE split: if_split_asm)
  have b: "same_worker u u'" if "nhr_request_generate_new_boundary mc u = Inr u'" for u u'
    using generate_boundary_shape [OF that] by (auto simp: same_worker_def)
  show ?thesis
  proof (cases c)
    case (Add_data_param k f d n)
    with assms show ?thesis
      by (auto simp: same_worker_def nhr_request_add_data_parameter_def Let_def elim!: r_bindE
          split: option.split_asm if_split_asm dest!: b)
  next
    case (Add_param k v)
    with assms show ?thesis
      by (auto simp: same_worker_def nhr_request_add_parameter_def elim!: r_bindE split: if_split_asm)
  qed (use assms in \<open>auto simp: same_worker_def nhr_request_set_url_def nhr_request_set_method_def
         nhr_request_add_header_field_def elim!: r_bindE dest!: h\<close>)
qed

lemma value_calls_worker: "value_calls mc (Some r) cs = Inr (Some r') \<Longrightarrow> same_worker r r'"
proof (induction cs arbitrary: r)
  case (Cons c cs)
  obtain x where x: "value_call mc (Some r) c = Inr x" "value_calls mc x cs = Inr (Some r')"
    using Cons.prems by (auto elim!: r_bindE)
  then obtain r1 where "x = Some r1" using value_call_some by blast
  with x Cons.IH [of r1] value_call_worker [of mc r c r1] show ?case by (simp add: same_worker_def)
qed (simp add: same_worker_def)

lemma cancel_gives_back:
  assumes "represents h0 h a r" "rq_work_thread r = None"
  shows "\<exists>h'. heap_request_cancel h (Some a) = Inr h' \<and> (\<forall>b. h_get h' b = h_get h0 b) \<and> h_get h' a = None"
proof -
  obtain q xs ys w where q: "request_rep h0 h a q xs ys w" "r = request_value h q xs ys w"
    using assms(1) by (auto simp: represents_def)
  have t: "rq_work_thread (hq_rest q) = None" using assms(2) q(2) by (simp add: request_value_def)
  obtain h1 where h1: "rq_put h a (on_rest nhr_request_close) = Inr h1"
      "request_rep h0 h1 a (on_rest nhr_request_close q) xs ys w"
    using rest_assign [OF q(1)] by blast
  obtain h' where h': "heap_request_delete h1 a = Inr h'" "owns h0 h' []"
    using request_delete_owned [OF h1(2)] by blast
  have "h_get h0 a = None" using rep_owns [OF q(1)] by (simp add: owns_def)
  moreover have "heap_request_cancel h (Some a) = Inr h'"
    using q(1) t h1(1) h'(1) by (simp add: heap_request_cancel_def request_rep_def)
  ultimately show ?thesis using owns_all_freed [OF h'(2)] by auto
qed

text \<open>Deleting any request gives back what it owns, its response included, and nothing else.\<close>

lemma request_delete_frees:
  assumes "represents h0 h a r"
  shows "\<exists>h'. heap_request_delete h a = Inr h' \<and> (\<forall>b. h_get h' b = h_get h0 b)"
  using assms request_delete_owned owns_all_freed by (fastforce simp: represents_def)

section \<open>The guarantees\<close>

text \<open>
  C17: the calls of the interface on the heap, with every string, node and mutex a block of its own,
  refine the calls on values: whenever the calls on the value succeed, nhr_request_create and the
  same calls on the heap return without a fault, and what the blocks of the request then say is the
  value. So every result about the value holds of the linked structures.
\<close>

theorem heap_calls_refine:
  assumes "room mc" "value_calls mc (Some new_request) cs = Inr (Some r)"
  shows "\<exists>a h h'. heap_request_create mc True h0 = Inr (Some a, h) \<and> heap_calls mc h (Some a) cs = Some (Inr h')
    \<and> represents h0 h' a r"
proof -
  obtain a h where h: "heap_request_create mc True h0 = Inr (Some a, h)" "represents h0 h a new_request"
    using heap_create_represents [OF assms(1)] by blast
  with heap_calls_follow [OF h(2) _ assms(2)] assms(1) show ?thesis by (auto simp: room_def)
qed

text \<open>
  C18: no sequence of calls of the interface leaks, and none frees twice: after nhr_request_create and
  any successful sequence of nhr_request_set_url, nhr_request_set_method and the calls that add
  header fields and parameters, nhr_request_cancel frees each block that was allocated exactly once
  (a second free would be a fault) and leaves the heap as it was; cancelling once more is the fault
  of a pointer to a freed block.
\<close>

theorem request_memory_returned:
  assumes "room mc" "value_calls mc (Some new_request) cs = Inr (Some r)"
  shows "\<exists>a h h1 h2. heap_request_create mc True h0 = Inr (Some a, h)
    \<and> heap_calls mc h (Some a) cs = Some (Inr h1) \<and> heap_request_cancel h1 (Some a) = Inr h2
    \<and> (\<forall>b. h_get h2 b = h_get h0 b) \<and> heap_request_cancel h2 (Some a) = Inl BadPointer"
proof -
  obtain a h where h: "heap_request_create mc True h0 = Inr (Some a, h)" "represents h0 h a new_request"
    using heap_create_represents [OF assms(1)] by blast
  obtain h1 where h1: "heap_calls mc h (Some a) cs = Some (Inr h1)" "represents h0 h1 a r"
    using heap_calls_follow [OF h(2) _ assms(2)] assms(1) by (auto simp: room_def)
  have "rq_work_thread r = None" using value_calls_worker [OF assms(2)] by (simp add: same_worker_def new_request_def)
  from cancel_gives_back [OF h1(2) this] obtain h2 where
    h2: "heap_request_cancel h1 (Some a) = Inr h2" "\<forall>b. h_get h2 b = h_get h0 b" "h_get h2 a = None" by blast
  then have "heap_request_cancel h2 (Some a) = Inl BadPointer"
    by (simp add: heap_request_cancel_def rq_at_def)
  with h(1) h1(1) h2(1,2) show ?thesis by blast
qed

definition example_calls :: "client_call list" where
  \<comment> \<open>two addresses, so that the strings of the first are freed\<close>
  "example_calls = [Set_url (Some (cstr ''http'')) (Some (cstr ''h.org'')) (Some (cstr ''/get'')) 80,
     Set_method (Some nhr_method_POST), Add_header_field (Some (cstr ''Accept'')) (Some (cstr ''*'')),
     Add_param (Some (cstr ''a'')) (Some (cstr ''1'')),
     Add_data_param (Some (cstr ''f'')) (Some (cstr ''f.txt'')) (Some ''data'') 4,
     Set_url (Some (cstr ''http'')) (Some (cstr ''w.org'')) (Some (cstr ''/post'')) 8080]"

lemma example_room: "room example_gz_mach" "sizes_fit example_gz_mach"
  by (simp_all add: room_def sizes_fit_def sizeof_map_node_def sizeof_request_def sizeof_mutex_def)

lemma example_calls_run: "\<exists>r. value_calls example_gz_mach (Some new_request) example_calls = Inr (Some r)
   \<and> rq_path r = Some (cstr ''/post'')"
proof -
  have u: "nhr_request_set_url example_gz_mach (Some r) (Some (cstr s)) (Some (cstr h)) (Some (cstr p)) port
      = Inr (Some (r\<lparr>rq_scheme := Some (cstr s), rq_host := Some (cstr h), rq_path := Some (cstr p), rq_port := port\<rparr>))"
    if "text_arg example_gz_mach s" "text_arg example_gz_mach h" "text_arg example_gz_mach p" for r s h p port
    using that by (simp add: nhr_request_set_url_def text_arg_def nhr_string_copy_string)
  let ?r = "(new_request\<lparr>rq_scheme := Some (cstr ''http''), rq_host := Some (cstr ''h.org''),
      rq_path := Some (cstr ''/get''), rq_port := 80\<rparr>)\<lparr>rq_method := Some nhr_method_POST\<rparr>"
  let ?cs = "[Add_header ''Accept'' ''*'', Add_parameter ''a'' ''1'', Add_data ''f'' ''f.txt'' ''data'']"
  have "request_ok ?r" "rq_method ?r \<noteq> None" using request_ok_new by (simp_all add: request_ok_def)
  moreover have "\<forall>c \<in> set ?cs. call_ok example_gz_mach c" by (simp add: text_arg_def)
  ultimately obtain r where r: "api_calls example_gz_mach (Some ?r) ?cs = Inr (Some r)"
    using api_calls_ok [OF example_room(2)] by blast
  then obtain r1 r2 where "nhr_request_add_header_field example_gz_mach (Some ?r) (Some (cstr ''Accept'')) (Some (cstr ''*'')) = Inr r1"
      "nhr_request_add_parameter example_gz_mach r1 (Some (cstr ''a'')) (Some (cstr ''1'')) = Inr r2"
      "nhr_request_add_data_parameter example_gz_mach r2 (Some (cstr ''f'')) (Some (cstr ''f.txt'')) (Some ''data'') 4 = Inr (Some r)"
    by (auto simp: numeral_eq_Suc elim!: r_bindE)
  then show ?thesis
    by (simp add: example_calls_def u text_arg_def nhr_request_set_method_def)
qed

theorem heap_calls_refine_witness:
  "\<exists>a h h' r. heap_request_create example_gz_mach True [] = Inr (Some a, h)
    \<and> heap_calls example_gz_mach h (Some a) example_calls = Some (Inr h') \<and> represents [] h' a r
    \<and> rq_path r = Some (cstr ''/post'')"
proof -
  obtain r where r: "value_calls example_gz_mach (Some new_request) example_calls = Inr (Some r)"
      "rq_path r = Some (cstr ''/post'')"
    using example_calls_run by blast
  from heap_calls_refine [OF example_room(1) r(1), of "[]"] r(2) show ?thesis by blast
qed

theorem request_memory_returned_witness:
  "\<exists>a h h1 h2. heap_request_create example_gz_mach True [] = Inr (Some a, h)
    \<and> heap_calls example_gz_mach h (Some a) example_calls = Some (Inr h1)
    \<and> heap_request_cancel h1 (Some a) = Inr h2 \<and> (\<forall>b. h_get h2 b = None)"
proof -
  obtain r where r: "value_calls example_gz_mach (Some new_request) example_calls = Inr (Some r)"
    using example_calls_run by blast
  have "h_get [] b = None" for b :: nat by (simp add: h_get_def)
  with request_memory_returned [OF example_room(1) r, of "[]"] show ?thesis by fastforce
qed

end
