(* ===== verification/Nhr_Response_Heap_Correct.thy ===== *)
theory Nhr_Response_Heap_Correct
  imports Nhr_Response_Heap Nhr_Request_Heap_Correct Nhr_Worker_Runs
begin

text \<open>
  Receiving on the heap agrees with receiving on values, step by step: either both end with the
  same fault, or the response block represents the value, the request owns exactly the response and
  its body in addition, and no other block has changed. From this and the deletion of
  \<open>Nhr_Request_Heap_Correct\<close> follows that an exchange gives back all memory.
\<close>

section \<open>Agreement\<close>

lemma agree_bind:
  "rel_sum (=) R x y \<Longrightarrow> (\<And>u v. x = Inr u \<Longrightarrow> R u v \<Longrightarrow> rel_sum (=) S (f u) (g v)) \<Longrightarrow> rel_sum (=) S (r_bind x f) (r_bind y g)"
  by (cases x; cases y) auto

lemma agree_same: "(\<And>v. x = Inr v \<Longrightarrow> rel_sum (=) S (f v) (g v)) \<Longrightarrow> rel_sum (=) S (r_bind x f) (r_bind x g)"
  by (cases x) auto

lemma agree_Inr: "rel_sum (=) R x y \<Longrightarrow> x = Inr u \<Longrightarrow> \<exists>v. y = Inr v \<and> R u v"
  by (cases y) auto

lemma agree_mono: "rel_sum (=) R x y \<Longrightarrow> (\<And>u v. R u v \<Longrightarrow> S u v) \<Longrightarrow> rel_sum (=) S x y"
  by (cases x; cases y) auto

definition valid_in :: "req_heap \<Rightarrow> ptr \<Rightarrow> bool" where
  "valid_in h p \<longleftrightarrow> (p \<noteq> None \<longrightarrow> load h p \<noteq> None)"

lemma blk_at_load: "valid_in h p \<Longrightarrow> blk_at h p = Inr (load h p)"
  by (auto simp: valid_in_def blk_at_def load_def split: option.splits map_block.splits)

lemma null_block [simp]: "blk_at h None = Inr None" "load h None = None" "valid_in h None"
  by (simp_all add: blk_at_def load_def valid_in_def)

lemma valid_same: "valid_in h p \<Longrightarrow> same_at h h' ps \<Longrightarrow> p \<in> set ps \<Longrightarrow> valid_in h' p"
  by (simp add: valid_in_def load_same)

definition block_now :: "req_heap \<Rightarrow> req_heap \<Rightarrow> ptr list \<Rightarrow> bytes option \<Rightarrow> ptr \<times> req_heap \<Rightarrow> bool" where
  \<comment> \<open>the block holds these bytes, and nothing else has changed since \<open>h\<close>\<close>
  "block_now h0 h qs b = (\<lambda>(p, h'). owns h0 h' (p # qs) \<and> same_at h h' qs \<and> load h' p = b \<and> valid_in h' p)"

lemma store_block:
  assumes "owns h0 h qs"
  shows "block_now h0 h qs b (store h b)"
  using owns_store [OF assms, of b] by (cases "store h b") (simp add: block_now_def valid_in_def)

lemma heap_realloc_agrees:
  assumes o: "owns h0 h (p # qs)" and v: "valid_in h p" and n: "0 < n"
  shows "rel_sum (=) (block_now h0 h qs) (nhr_realloc mc (load h p) n) (heap_realloc mc h p n)"
proof -
  obtain h1 where h1: "nhr_free h p = Inr h1" "owns h0 h1 qs" "same_at h h1 qs"
    using owns_free [OF o] by blast
  have b: "block_now h0 h qs b (store h1 b)" for b
    using store_block [OF h1(2), of b] same_at_trans [OF h1(3)] by (auto simp: block_now_def)
  show ?thesis
    using n by (cases "nhr_realloc mc (load h p) n") (simp_all add: heap_realloc_def blk_at_load [OF v] h1(1) b)
qed

lemma heap_memcpy_agrees:
  assumes o: "owns h0 h (p # qs)" and v: "valid_in h p"
  shows "rel_sum (=) (\<lambda>b h'. block_now h0 h qs b (p, h')) (memcpy_to (load h p) off d) (heap_memcpy h p off d)"
proof (cases p)
  case None
  then show ?thesis using o
    by (cases "d = []") (simp_all add: heap_memcpy_def memcpy_to_def block_now_def same_at_def)
next
  case (Some a)
  with v obtain bs where l: "load h p = Some bs" by (auto simp: valid_in_def)
  have b: "blk_at h (Some a) = Inr (Some bs)" "load h (Some a) = Some bs" using blk_at_load [OF v] l Some by simp_all
  have put: "block_now h0 h qs (Some cs) (p, h_put h a (Blk cs))" for cs
    using owns_put [of h0 h a qs "Blk cs"] o Some by (auto simp: block_now_def valid_in_def load_def)
  show ?thesis
  proof (cases "d = []")
    case True
    have "h_get h a = Some (Blk bs)" using l Some by (auto simp: load_def split: option.splits map_block.splits)
    with True put [of bs] show ?thesis by (simp add: heap_memcpy_def b Some)
  next
    case False
    then show ?thesis using put
      by (cases "mem_write bs off d") (simp_all add: heap_memcpy_def b Some memcpy_to_def)
  qed
qed

section \<open>The response\<close>

definition resp_holds :: "req_heap \<Rightarrow> req_heap \<Rightarrow> ptr list \<Rightarrow> nat \<Rightarrow> nhr_response \<Rightarrow> req_heap \<Rightarrow> bool" where
  \<comment> \<open>the response at \<open>a\<close> and its body represent \<open>r\<close>; the blocks \<open>ps\<close> are those of \<open>h1\<close>\<close>
  "resp_holds h0 h1 ps a r h \<longleftrightarrow> (\<exists>p r0. h_get h a = Some (St (Response_block p r0))
     \<and> r = r0\<lparr>rs_body := load h p\<rparr> \<and> valid_in h p \<and> owns h0 h (Some a # p # ps) \<and> same_at h1 h ps)"

lemma rs_at_in: "h_get h a = Some (St (Response_block p r)) \<Longrightarrow> rs_at h a = Inr (p, r)"
  by (simp add: rs_at_def)

lemma rs_put_holds:
  assumes o: "owns h0 h (Some a # p # ps)" and v: "valid_in h p" and s: "same_at h1 h ps"
  shows "resp_holds h0 h1 ps a (r\<lparr>rs_body := load h p\<rparr>) (rs_put h a p r)"
proof -
  note w = owns_put [OF o, of "St (Response_block p r)"]
  have "load (rs_put h a p r) p = load h p" "valid_in (rs_put h a p r) p" "same_at h1 (rs_put h a p r) ps"
    using load_same [OF w(2), of p] valid_same [OF v w(2)] s w(2) by (simp_all add: rs_put_def same_at_def)
  with w(1,3) show ?thesis by (auto simp: resp_holds_def rs_put_def)
qed

definition body_blind :: "(nhr_response \<Rightarrow> nhr_response res) \<Rightarrow> bool" where
  \<comment> \<open>the call neither reads nor sets \<open>body\<close>\<close>
  "body_blind f \<longleftrightarrow> (\<forall>r b. f (r\<lparr>rs_body := b\<rparr>) = r_bind (f r) (\<lambda>r. Inr (r\<lparr>rs_body := b\<rparr>)))"

lemma rs_apply_agrees:
  assumes "resp_holds h0 h1 ps a r h" "body_blind f"
  shows "rel_sum (=) (resp_holds h0 h1 ps a) (f r) (rs_apply h a f)"
proof -
  obtain p r0 where d: "h_get h a = Some (St (Response_block p r0))" "r = r0\<lparr>rs_body := load h p\<rparr>" "valid_in h p"
      "owns h0 h (Some a # p # ps)" "same_at h1 h ps"
    using assms(1) by (auto simp: resp_holds_def)
  have "f r = r_bind (f r0) (\<lambda>r. Inr (r\<lparr>rs_body := load h p\<rparr>))"
    using assms(2) d(2) by (simp add: body_blind_def)
  then show ?thesis
    using rs_put_holds [OF d(4,3,5)] by (cases "f r0") (simp_all add: rs_apply_def rs_at_in [OF d(1)])
qed

lemma body_blind_simps [simp]:
  "nhr_response_fix_body_len (r\<lparr>rs_body := b\<rparr>) = (nhr_response_fix_body_len r)\<lparr>rs_body := b\<rparr>"
  "is_chunked (r\<lparr>rs_body := b\<rparr>) = is_chunked r" "is_gzip (r\<lparr>rs_body := b\<rparr>) = is_gzip r"
  "is_deflate (r\<lparr>rs_body := b\<rparr>) = is_deflate r"
  "nhr_response_is_finished_receiving (r\<lparr>rs_body := b\<rparr>) = nhr_response_is_finished_receiving r"
  by (simp_all add: nhr_response_fix_body_len_def is_chunked_def is_gzip_def is_deflate_def
      nhr_response_is_finished_receiving_def)

lemma body_blind_parse:
  "body_blind (\<lambda>r. nhr_response_parse_status_code r received)"
  "body_blind (\<lambda>r. nhr_response_parse_content_length r received)"
  "body_blind (\<lambda>r. nhr_response_parse_transfer_encoding r received)"
  "body_blind (\<lambda>r. nhr_response_parse_content_encoding r received)"
  by (auto simp: body_blind_def nhr_response_parse_status_code_def nhr_response_parse_content_length_def
      nhr_response_parse_transfer_encoding_def nhr_response_parse_content_encoding_def r_bind_assoc Let_def
      intro!: r_bind_cong split: option.split)

section \<open>Adding to the body\<close>

lemma new_body_holds:
  assumes "block_now h0 h (Some a # ps) b (p, h')" "same_at h1 h ps"
  shows "resp_holds h0 h1 ps a (r\<lparr>rs_body := b\<rparr>) (rs_put h' a p r)"
proof -
  have v: "owns h0 h' (p # Some a # ps)" "same_at h h' (Some a # ps)" "load h' p = b" "valid_in h' p"
    using assms(1) by (auto simp: block_now_def)
  have "owns h0 h' (Some a # p # ps)" by (rule owns_perm [OF v(1)]) simp
  moreover have "same_at h1 h' ps" using assms(2) v(2) by (simp add: same_at_def)
  ultimately show ?thesis using rs_put_holds v(3,4) by blast
qed

lemma resp_holdsI:
  "h_get h a = Some (St (Response_block p r0)) \<Longrightarrow> valid_in h p \<Longrightarrow> owns h0 h (Some a # p # ps) \<Longrightarrow>
     same_at h1 h ps \<Longrightarrow> resp_holds h0 h1 ps a (r0\<lparr>rs_body := load h p\<rparr>) h"
  by (auto simp: resp_holds_def)

lemma resp_holds_at:
  assumes "resp_holds h0 h1 ps a r h"
  obtains p r0 where "rs_at h a = Inr (p, r0)"
  using assms by (auto simp: resp_holds_def rs_at_in)

lemma resp_holdsD:
  assumes "resp_holds h0 h1 ps a r h" "rs_at h a = Inr (p, r0)"
  shows "r = r0\<lparr>rs_body := load h p\<rparr>" "valid_in h p" "owns h0 h (p # Some a # ps)" "same_at h1 h ps"
proof -
  obtain d: "r = r0\<lparr>rs_body := load h p\<rparr>" "valid_in h p" "owns h0 h (Some a # p # ps)" "same_at h1 h ps"
    using assms by (auto simp: resp_holds_def rs_at_in)
  then show "r = r0\<lparr>rs_body := load h p\<rparr>" "valid_in h p" "same_at h1 h ps" by simp_all
  show "owns h0 h (p # Some a # ps)" by (rule owns_perm [OF d(3)]) simp
qed

lemma body_updates:
  "r\<lparr>rs_body := b, rs_body_size := n\<rparr> = (r\<lparr>rs_body_size := n\<rparr>)\<lparr>rs_body := b\<rparr>"
  "r\<lparr>rs_body := b, rs_body_len := m\<rparr> = (r\<lparr>rs_body_len := m\<rparr>)\<lparr>rs_body := b\<rparr>"
  "r\<lparr>rs_body := b, rs_body_len := m, rs_body_size := n\<rparr> = (r\<lparr>rs_body_len := m, rs_body_size := n\<rparr>)\<lparr>rs_body := b\<rparr>"
  by simp_all

lemma body_grows:
  assumes "resp_holds h0 h1 ps a r h" "rs_at h a = Inr (p, r0)" "rs_body_size r < n"
  shows "rel_sum (=) (resp_holds h0 h1 ps a)
     (r_bind (nhr_realloc mc (rs_body r) (unat n)) (\<lambda>b. Inr (r\<lparr>rs_body := b, rs_body_size := n\<rparr>)))
     (r_bind (heap_realloc mc h p (unat n)) (\<lambda>(body, h). Inr (rs_put h a body (r0\<lparr>rs_body_size := n\<rparr>))))"
proof -
  have d: "r = r0\<lparr>rs_body := load h p\<rparr>" "valid_in h p" "owns h0 h (p # Some a # ps)" "same_at h1 h ps"
    using resp_holdsD [OF assms(1,2)] by simp_all
  have "0 < unat n" using assms(3) by (metis unat_gt_0 word_not_simps(1))
  from heap_realloc_agrees [OF d(3,2) this, of mc] have "rel_sum (=) (resp_holds h0 h1 ps a)
     (r_bind (nhr_realloc mc (load h p) (unat n)) (\<lambda>b. Inr ((r0\<lparr>rs_body_size := n\<rparr>)\<lparr>rs_body := b\<rparr>)))
     (r_bind (heap_realloc mc h p (unat n)) (\<lambda>(body, h). Inr (rs_put h a body (r0\<lparr>rs_body_size := n\<rparr>))))"
    by (rule agree_bind) (auto intro: new_body_holds [OF _ d(4)])
  then show ?thesis using d(1) by (simp add: body_updates)
qed

lemma body_copied:
  assumes "resp_holds h0 h1 ps a r h" "rs_at h a = Inr (p, r0)"
  shows "rel_sum (=) (resp_holds h0 h1 ps a)
     (r_bind (memcpy_to (rs_body r) off src) (\<lambda>b. Inr (r1\<lparr>rs_body := b\<rparr>)))
     (r_bind (heap_memcpy h p off src) (\<lambda>h. Inr (rs_put h a p r1)))"
proof -
  have d: "r = r0\<lparr>rs_body := load h p\<rparr>" "valid_in h p" "owns h0 h (p # Some a # ps)" "same_at h1 h ps"
    using resp_holdsD [OF assms(1,2)] by simp_all
  from heap_memcpy_agrees [OF d(3,2), of off src] have "rel_sum (=) (resp_holds h0 h1 ps a)
     (r_bind (memcpy_to (load h p) off src) (\<lambda>b. Inr (r1\<lparr>rs_body := b\<rparr>)))
     (r_bind (heap_memcpy h p off src) (\<lambda>h. Inr (rs_put h a p r1)))"
    by (rule agree_bind) (auto intro: new_body_holds [OF _ d(4)])
  then show ?thesis using d(1) by simp
qed

lemma add_body_data_agrees:
  assumes "resp_holds h0 h1 ps a r h"
  shows "rel_sum (=) (resp_holds h0 h1 ps a) (nhr_response_add_body_data mc r data n)
    (heap_response_add_body_data mc h a data n)"
proof -
  obtain p r0 where d: "rs_at h a = Inr (p, r0)" "r = r0\<lparr>rs_body := load h p\<rparr>"
    using assms resp_holds_at resp_holdsD(1) by metis
  have grow: "rel_sum (=) (resp_holds h0 h1 ps a)
     (if rs_body_size r < rs_body_len r + n then r_bind (nhr_realloc mc (rs_body r) (unat (rs_body_len r + n)))
        (\<lambda>b. Inr (r\<lparr>rs_body := b, rs_body_size := rs_body_len r + n\<rparr>)) else Inr r)
     (if rs_body_size r0 < rs_body_len r0 + n then r_bind (heap_realloc mc h p (unat (rs_body_len r0 + n)))
        (\<lambda>(body, h). Inr (rs_put h a body (r0\<lparr>rs_body_size := rs_body_len r0 + n\<rparr>))) else Inr h)"
    using body_grows [OF assms d(1), of "rs_body_len r + n" mc] assms d(2) by simp
  have copy: "rel_sum (=) (resp_holds h0 h1 ps a)
       (r_bind (memcpy_to (rs_body r) (unat (rs_body_len r)) src)
          (\<lambda>b. Inr (nhr_response_fix_body_len (r\<lparr>rs_body := b, rs_body_len := rs_body_len r + n\<rparr>))))
       (r_bind (rs_at h a) (\<lambda>(body, r). r_bind (heap_memcpy h body (unat (rs_body_len r)) src) (\<lambda>h.
          Inr (rs_put h a body (nhr_response_fix_body_len (r\<lparr>rs_body_len := rs_body_len r + n\<rparr>))))))"
    if holds: "resp_holds h0 h1 ps a r h" for r h src
  proof -
    obtain p r0 where e: "rs_at h a = Inr (p, r0)" "r = r0\<lparr>rs_body := load h p\<rparr>"
      using holds resp_holds_at resp_holdsD(1) by metis
    with body_copied [OF holds e(1), of "unat (rs_body_len r0)" src
        "nhr_response_fix_body_len (r0\<lparr>rs_body_len := rs_body_len r0 + n\<rparr>)"]
    show ?thesis by (simp add: body_updates)
  qed
  have late: "r_bind (rs_at h a) (\<lambda>(body, r). r_bind (mem_read data m) (g body r))
      = r_bind (mem_read data m) (\<lambda>d. r_bind (rs_at h a) (\<lambda>(body, r). g body r d))"
    if "resp_holds h0 h1 ps a r h" for r h m and g :: "ptr \<Rightarrow> nhr_response \<Rightarrow> bytes \<Rightarrow> req_heap res"
    using that by (auto elim: resp_holds_at)
  show ?thesis
    unfolding nhr_response_add_body_data_def heap_response_add_body_data_def d(1) Let_def r_bind.simps prod.case
    by (rule agree_bind [OF grow]) (simp only: late, rule agree_same, rule copy)
qed

section \<open>Chunks, decompression and the whole body\<close>

lemma chunk_flag_agrees:
  assumes "resp_holds h0 h1 ps a r h"
  shows "rel_sum (=) (resp_holds h0 h1 ps a) (Inr (if e then r\<lparr>rs_is_all_chunks_processed := True\<rparr> else r))
    (if e then rs_apply h a (\<lambda>r. Inr (r\<lparr>rs_is_all_chunks_processed := True\<rparr>)) else Inr h)"
  using rs_apply_agrees [OF assms, of "\<lambda>r. Inr (r\<lparr>rs_is_all_chunks_processed := True\<rparr>)"] assms
  by (simp add: body_blind_def)

lemma read_chunks_agrees:
  "resp_holds h0 h1 ps a r h \<Longrightarrow>
     rel_sum (=) (resp_holds h0 h1 ps a) (nhr_response_read_chunks mc r str) (heap_response_read_chunks mc h a str)"
proof (induction mc r str arbitrary: h rule: nhr_response_read_chunks.induct)
  case (1 mc r str)
  let ?R = "resp_holds h0 h1 ps a"
  have chunk: "rel_sum (=) ?R
      (r_bind (skip_while isxdigit str) (\<lambda>str1. if chunk_len = 0
         then r_bind (strncmp_eq str1 k_nhr_double_CRLF)
           (\<lambda>e. Inr (if e then r\<lparr>rs_is_all_chunks_processed := True\<rparr> else r))
         else r_bind (ptr_add k_nhr_CRLF_length str1) (\<lambda>str2.
           r_bind (nhr_response_add_body_data mc r str2 (ucast chunk_len)) (\<lambda>r1.
           r_bind (ptr_add (unat chunk_len) str2) (\<lambda>str3.
           r_bind (ptr_add k_nhr_CRLF_length str3) (\<lambda>str4. nhr_response_read_chunks mc r1 str4))))))
      (r_bind (skip_while isxdigit str) (\<lambda>str1. if chunk_len = 0
         then r_bind (strncmp_eq str1 k_nhr_double_CRLF)
           (\<lambda>e. if e then rs_apply h a (\<lambda>r. Inr (r\<lparr>rs_is_all_chunks_processed := True\<rparr>)) else Inr h)
         else r_bind (ptr_add k_nhr_CRLF_length str1) (\<lambda>str2.
           r_bind (heap_response_add_body_data mc h a str2 (ucast chunk_len)) (\<lambda>h1.
           r_bind (ptr_add (unat chunk_len) str2) (\<lambda>str3.
           r_bind (ptr_add k_nhr_CRLF_length str3) (\<lambda>str4. heap_response_read_chunks mc h1 a str4))))))"
    if n: "sscanf_X str = Inr n1" "(if n1 = None then sscanf_X str else Inr n1) = Inr n" "n = Some chunk_len"
    for n1 n chunk_len
  proof (rule agree_same, goal_cases)
    case s1: (1 str1)
    show ?case
    proof (cases "chunk_len = 0")
      case True
      then show ?thesis by (simp only: if_True simp_thms) (rule agree_same, rule chunk_flag_agrees [OF 1(2)])
    next
      case False
      have "rel_sum (=) ?R
          (r_bind (ptr_add k_nhr_CRLF_length str1) (\<lambda>str2.
           r_bind (nhr_response_add_body_data mc r str2 (ucast chunk_len)) (\<lambda>r1.
           r_bind (ptr_add (unat chunk_len) str2) (\<lambda>str3.
           r_bind (ptr_add k_nhr_CRLF_length str3) (\<lambda>str4. nhr_response_read_chunks mc r1 str4)))))
          (r_bind (ptr_add k_nhr_CRLF_length str1) (\<lambda>str2.
           r_bind (heap_response_add_body_data mc h a str2 (ucast chunk_len)) (\<lambda>h1.
           r_bind (ptr_add (unat chunk_len) str2) (\<lambda>str3.
           r_bind (ptr_add k_nhr_CRLF_length str3) (\<lambda>str4. heap_response_read_chunks mc h1 a str4)))))"
        by (rule agree_same, rule agree_bind [OF add_body_data_agrees [OF 1(2)]], rule agree_same, rule agree_same)
           (rule 1(1) [OF n s1 False])
      then show ?thesis using False by simp
    qed
  qed
  show ?case
    unfolding nhr_response_read_chunks.simps [of mc r str] heap_response_read_chunks.simps [of mc h a str]
  proof (rule agree_same, rule agree_same, goal_cases)
    case (1 n1 n)
    then show ?case using chunk [OF 1] \<open>resp_holds h0 h1 ps a r h\<close> by (cases n) simp_all
  qed
qed

lemma ungzip_agrees:
  assumes "resp_holds h0 h1 ps a r h"
  shows "rel_sum (=) (resp_holds h0 h1 ps a) (nhr_response_ungzip mc r) (heap_response_ungzip mc h a)"
proof -
  obtain p r0 where d: "rs_at h a = Inr (p, r0)" using assms by (rule resp_holds_at)
  note e = resp_holdsD [OF assms d]
  have new: "rel_sum (=) (resp_holds h0 h1 ps a)
      (if b \<noteq> None \<and> n > 0 then Inr (r\<lparr>rs_body := b, rs_body_len := of_nat n\<rparr>) else Inr r)
      (case store h b of (q, h) \<Rightarrow>
         if q \<noteq> None \<and> n > 0
         then r_bind (nhr_free h p) (\<lambda>h. Inr (rs_put h a q (r0\<lparr>rs_body_len := of_nat n\<rparr>)))
         else nhr_free h q)" for b n
  proof -
    obtain q h2 where st: "store h b = (q, h2)" by (cases "store h b")
    note w = owns_store [OF e(3) st]
    have q: "(q \<noteq> None) = (b \<noteq> None)" using st by (auto simp: store_def split: option.split_asm prod.split_asm)
    show ?thesis
    proof (cases "b \<noteq> None \<and> n > 0")
      case True
      have "owns h0 h2 (p # q # Some a # ps)" by (rule owns_perm [OF w(1)]) simp
      then obtain h3 where h3: "nhr_free h2 p = Inr h3" "owns h0 h3 (q # Some a # ps)" "same_at h2 h3 (q # Some a # ps)"
        using owns_free by blast
      have "load h3 q = b" "valid_in h3 q"
        using load_same [OF h3(3), of q] w(3) q by (simp_all add: valid_in_def)
      then have "block_now h0 h (Some a # ps) b (q, h3)"
        using h3(2,3) w(2) by (auto simp: block_now_def same_at_def)
      from new_body_holds [OF this e(4), of "r0\<lparr>rs_body_len := of_nat n\<rparr>"] show ?thesis
        using True q st h3(1) e(1) by (simp add: body_updates)
    next
      case False
      obtain h3 where h3: "nhr_free h2 q = Inr h3" "owns h0 h3 (p # Some a # ps)" "same_at h2 h3 (p # Some a # ps)"
        using owns_free [OF w(1)] by blast
      have s: "same_at h h3 (p # Some a # ps)" using w(2) h3(3) by (rule same_at_trans)
      have "owns h0 h3 (Some a # p # ps)" by (rule owns_perm [OF h3(2)]) simp
      moreover have "h_get h3 a = Some (St (Response_block p r0))"
        using d s by (auto simp: same_at_def rs_at_def split: option.split_asm map_block.split_asm req_struct.split_asm)
      moreover have "same_at h1 h3 ps" using e(4) s by (simp add: same_at_def)
      ultimately have "resp_holds h0 h1 ps a (r0\<lparr>rs_body := load h3 p\<rparr>) h3"
        using valid_same [OF e(2) s] by (intro resp_holdsI) simp_all
      then have "resp_holds h0 h1 ps a r h3" using e(1) load_same [OF s, of p] by simp
      then show ?thesis using False q st h3(1) by auto
    qed
  qed
  let ?d = "if is_gzip r then nhr_gz_decompress mc (rs_body r) (unat (rs_body_len r)) NHR_GZ_METHOD_GZIP
            else if is_deflate r then nhr_gz_decompress mc (rs_body r) (unat (rs_body_len r)) NHR_GZ_METHOD_DEFLATE
            else Inr None"
  have b: "rs_body r = load h p" "rs_body_len r0 = rs_body_len r" "is_gzip r0 = is_gzip r" "is_deflate r0 = is_deflate r"
    using e(1) by simp_all
  show ?thesis
  proof (cases "rs_body r = None \<or> rs_body_len r = 0")
    case True
    then show ?thesis using assms b
      by (simp add: nhr_response_ungzip_def heap_response_ungzip_def d blk_at_load [OF e(2)])
  next
    case False
    have v: "nhr_response_ungzip mc r = r_bind ?d (\<lambda>d. case d of None \<Rightarrow> Inr r
        | Some (b, n) \<Rightarrow> if b \<noteq> None \<and> n > 0 then Inr (r\<lparr>rs_body := b, rs_body_len := of_nat n\<rparr>) else Inr r)"
      using False by (auto simp: nhr_response_ungzip_def intro!: r_bind_cong split: option.split)
    have g: "heap_response_ungzip mc h a = r_bind ?d (\<lambda>d. case d of None \<Rightarrow> Inr h
        | Some (b, n) \<Rightarrow> (case store h b of (q, h) \<Rightarrow>
         if q \<noteq> None \<and> n > 0
         then r_bind (nhr_free h p) (\<lambda>h. Inr (rs_put h a q (r0\<lparr>rs_body_len := of_nat n\<rparr>)))
         else nhr_free h q))"
    proof -
      have nn: "\<not> (load h p = None \<or> rs_body_len r = 0)" using False b(1) by simp
      show ?thesis
        unfolding heap_response_ungzip_def d r_bind.simps prod.case blk_at_load [OF e(2)] b if_not_P [OF nn]
        by (rule refl)
    qed
    show ?thesis unfolding v g
      by (rule agree_same) (use new assms in \<open>auto split: option.split\<close>)
  qed
qed


lemma parse_body_agrees:
  assumes "resp_holds h0 h1 ps a r h" and none: "rs_body r = None"
  shows "rel_sum (=) (resp_holds h0 h1 ps a) (nhr_response_parse_body mc r received n)
    (heap_response_parse_body mc h a received n)"
proof -
  let ?R = "resp_holds h0 h1 ps a"
  obtain p r0 where d: "rs_at h a = Inr (p, r0)" using assms(1) by (rule resp_holds_at)
  note e = resp_holdsD [OF assms(1) d]
  have p: "p = None" using none e(1,2) by (simp add: valid_in_def)
  have o: "owns h0 h (Some a # ps)" using e(3) p by (simp add: owns_None)
  have fresh: "rel_sum (=) ?R
      (r_bind (nhr_malloc mc m) (\<lambda>b. r_bind (mem_read sub k) (\<lambda>d. r_bind (memcpy_to b 0 d) (\<lambda>b. Inr (r1\<lparr>rs_body := b\<rparr>)))))
      (r_bind (nhr_malloc mc m) (\<lambda>b. case store h b of (body, h) \<Rightarrow> r_bind (mem_read sub k) (\<lambda>d.
        r_bind (heap_memcpy h body 0 d) (\<lambda>h. Inr (rs_put h a body r1)))))" for m sub k r1
  proof (rule agree_same)
    fix b
    obtain q h2 where st: "store h b = (q, h2)" by (cases "store h b")
    have bn: "block_now h0 h (Some a # ps) b (q, h2)" using store_block [OF o, of b] st by simp
    then have w: "owns h0 h2 (q # Some a # ps)" "same_at h h2 (Some a # ps)" "load h2 q = b" "valid_in h2 q"
      by (auto simp: block_now_def)
    have s: "same_at h1 h2 ps" using e(4) w(2) by (simp add: same_at_def)
    have "rel_sum (=) ?R (r_bind (memcpy_to (load h2 q) 0 d) (\<lambda>b. Inr (r1\<lparr>rs_body := b\<rparr>)))
        (r_bind (heap_memcpy h2 q 0 d) (\<lambda>h. Inr (rs_put h a q r1)))" for d
      by (rule agree_bind [OF heap_memcpy_agrees [OF w(1,4)]]) (auto intro: new_body_holds [OF _ s])
    then show "rel_sum (=) ?R
        (r_bind (mem_read sub k) (\<lambda>d. r_bind (memcpy_to b 0 d) (\<lambda>b. Inr (r1\<lparr>rs_body := b\<rparr>))))
        (case store h b of (body, h) \<Rightarrow> r_bind (mem_read sub k) (\<lambda>d.
          r_bind (heap_memcpy h body 0 d) (\<lambda>h. Inr (rs_put h a body r1))))"
      unfolding st prod.case w(3) by (rule agree_same)
  qed
  have fix_len: "rel_sum (=) ?R (Inr (nhr_response_fix_body_len r))
      (rs_apply h a (\<lambda>r. Inr (nhr_response_fix_body_len r)))" if holds: "?R r h" for r h
    using rs_apply_agrees [OF holds, of "\<lambda>r. Inr (nhr_response_fix_body_len r)"] by (simp add: body_blind_def)
  have b: "is_chunked r0 = is_chunked r" "rs_content_length r0 = rs_content_length r" using e(1) by simp_all
  have body: "rel_sum (=) ?R
      (r_bind (if is_chunked r then nhr_response_read_chunks mc r sub
               else r_bind (nhr_malloc mc (unat bs)) (\<lambda>b. r_bind (mem_read sub (unat bl)) (\<lambda>d.
                    r_bind (memcpy_to b 0 d) (\<lambda>b.
                    Inr (r\<lparr>rs_body := b, rs_body_len := bl, rs_body_size := bs\<rparr>)))))
         (\<lambda>r. Inr (nhr_response_fix_body_len r)))
      (r_bind (if is_chunked r0 then heap_response_read_chunks mc h a sub
               else r_bind (nhr_malloc mc (unat bs)) (\<lambda>b. case store h b of (body, h) \<Rightarrow>
                    r_bind (mem_read sub (unat bl)) (\<lambda>d. r_bind (heap_memcpy h body 0 d) (\<lambda>h.
                    Inr (rs_put h a body (r0\<lparr>rs_body_len := bl, rs_body_size := bs\<rparr>))))))
         (\<lambda>h. rs_apply h a (\<lambda>r. Inr (nhr_response_fix_body_len r))))" for sub bs bl
  proof -
    have "rel_sum (=) ?R
      (if is_chunked r then nhr_response_read_chunks mc r sub
       else r_bind (nhr_malloc mc (unat bs)) (\<lambda>b. r_bind (mem_read sub (unat bl)) (\<lambda>d.
            r_bind (memcpy_to b 0 d) (\<lambda>b.
            Inr (r\<lparr>rs_body := b, rs_body_len := bl, rs_body_size := bs\<rparr>)))))
      (if is_chunked r0 then heap_response_read_chunks mc h a sub
       else r_bind (nhr_malloc mc (unat bs)) (\<lambda>b. case store h b of (body, h) \<Rightarrow>
            r_bind (mem_read sub (unat bl)) (\<lambda>d. r_bind (heap_memcpy h body 0 d) (\<lambda>h.
            Inr (rs_put h a body (r0\<lparr>rs_body_len := bl, rs_body_size := bs\<rparr>))))))"
      using read_chunks_agrees [OF assms(1), of mc sub] e(1) b(1)
        fresh [of "unat bs" sub "unat bl" "r0\<lparr>rs_body_len := bl, rs_body_size := bs\<rparr>"]
      by (simp add: body_updates)
    from agree_bind [OF this fix_len] show ?thesis .
  qed
  show ?thesis
    unfolding nhr_response_parse_body_def heap_response_parse_body_def
  proof (rule agree_same, goal_cases)
    case (1 sub)
    then show ?case using assms(1) body b
      by (cases sub) (auto simp: Let_def d intro!: agree_same)
  qed
qed

lemma finished_agrees:
  assumes "resp_holds h0 h1 ps a r h"
  shows "rel_sum (=) (resp_holds h0 h1 ps a) (nhr_response_check_is_finished mc r)
    (heap_response_check_is_finished mc h a)"
proof -
  let ?R = "resp_holds h0 h1 ps a"
  obtain p r0 where d: "rs_at h a = Inr (p, r0)" using assms by (rule resp_holds_at)
  have b: "nhr_response_is_finished_receiving r0 = nhr_response_is_finished_receiving r"
      "is_gzip r0 = is_gzip r" "is_deflate r0 = is_deflate r"
    using resp_holdsD(1) [OF assms d] by simp_all
  have flag: "rel_sum (=) ?R (Inr (r\<lparr>rs_is_finished := True\<rparr>)) (rs_apply h a (\<lambda>r. Inr (r\<lparr>rs_is_finished := True\<rparr>)))"
    if holds: "?R r h" for r h
    using rs_apply_agrees [OF holds, of "\<lambda>r. Inr (r\<lparr>rs_is_finished := True\<rparr>)"] by (simp add: body_blind_def)
  have "rel_sum (=) ?R (if is_gzip r \<or> is_deflate r then nhr_response_ungzip mc r else Inr r)
      (if is_gzip r \<or> is_deflate r then heap_response_ungzip mc h a else Inr h)"
    using ungzip_agrees [OF assms, of mc] assms by simp
  from agree_bind [OF this flag] show ?thesis
    using assms by (simp add: nhr_response_check_is_finished_def heap_response_check_is_finished_def d b)
qed

lemma append_agrees:
  assumes "resp_holds h0 h1 ps a r h"
  shows "rel_sum (=) (resp_holds h0 h1 ps a) (nhr_response_append mc r received n)
    (heap_response_append mc h a received n)"
proof -
  obtain p r0 where d: "rs_at h a = Inr (p, r0)" using assms by (rule resp_holds_at)
  have "is_chunked r0 = is_chunked r" using resp_holdsD(1) [OF assms d] by simp
  then show ?thesis
    using read_chunks_agrees [OF assms] add_body_data_agrees [OF assms]
    by (auto simp: nhr_response_append_def heap_response_append_def d intro!: agree_bind [OF _ finished_agrees])
qed


section \<open>Creating a response\<close>

definition bare :: "req_heap \<Rightarrow> req_heap \<Rightarrow> ptr list \<Rightarrow> nat \<Rightarrow> nhr_response \<Rightarrow> req_heap \<Rightarrow> bool" where
  \<comment> \<open>a response whose body has not been allocated\<close>
  "bare h0 h1 ps a r h \<longleftrightarrow> resp_holds h0 h1 ps a r h \<and> rs_body r = None"

lemma bare_apply:
  assumes "bare h0 h1 ps a r h" "body_blind f"
  shows "rel_sum (=) (bare h0 h1 ps a) (f r) (rs_apply h a f)"
proof -
  have keep: "rs_body r' = rs_body r" if "f r = Inr r'" for r'
  proof -
    have "f (r\<lparr>rs_body := rs_body r\<rparr>) = r_bind (f r) (\<lambda>r'. Inr (r'\<lparr>rs_body := rs_body r\<rparr>))"
      using assms(2) unfolding body_blind_def by (elim allE)
    moreover have "r\<lparr>rs_body := rs_body r\<rparr> = r" by simp
    ultimately have "Inr r' = (Inr (r'\<lparr>rs_body := rs_body r\<rparr>) :: nhr_response res)"
      unfolding that by (simp only: r_bind.simps that)
    then have "rs_body r' = rs_body (r'\<lparr>rs_body := rs_body r\<rparr>)" by (rule arg_cong [OF sum.inject(2) [THEN iffD1]])
    then show ?thesis by simp
  qed
  have "rel_sum (=) (resp_holds h0 h1 ps a) (f r) (rs_apply h a f)"
    using rs_apply_agrees assms by (simp add: bare_def)
  moreover have "rs_body r = None" using assms(1) by (simp add: bare_def)
  then have none: "rs_body r' = None" if "f r = Inr r'" for r' using keep [OF that] by simp
  ultimately show ?thesis
  proof (cases "f r")
    case (Inr r')
    with none [OF Inr] \<open>rel_sum (=) _ (f r) _\<close> show ?thesis by (cases "rs_apply h a f") (simp_all add: bare_def)
  qed (cases "rs_apply h a f", simp_all)
qed

lemma fresh_response:
  assumes "owns h0 h ps"
  shows "bare h0 h ps (length h) zero_response (h @ [Some (St (Response_block None zero_response))])"
proof -
  note w = owns_alloc(1-3) [OF assms, of "St (Response_block None zero_response)"]
  let ?h = "h @ [Some (St (Response_block None zero_response))]"
  have "owns h0 ?h (Some (length h) # None # ps)" by (rule owns_addresses [OF w(1)]) simp
  from resp_holdsI [OF w(3) null_block(3) this w(2)] show ?thesis
    by (simp add: bare_def zero_response_def)
qed

definition created :: "req_heap \<Rightarrow> req_heap \<Rightarrow> ptr list \<Rightarrow> nhr_response \<Rightarrow> ptr \<times> req_heap \<Rightarrow> bool" where
  "created h0 h ps r = (\<lambda>(m, h'). \<exists>b. m = Some b \<and> resp_holds h0 h ps b r h')"

lemma create_agrees:
  assumes "owns h0 h ps"
  shows "rel_sum (=) (created h0 h ps) (nhr_response_create mc received n) (heap_response_create mc h received n)"
proof -
  let ?b = "length h" and ?h = "h @ [Some (St (Response_block None zero_response))]"
  let ?B = "bare h0 h ps ?b" and ?R = "resp_holds h0 h ps ?b"
  have head: "rel_sum (=) ?R
      (r_bind (nhr_response_parse_content_length r received) (\<lambda>r.
       r_bind (nhr_response_parse_transfer_encoding r received) (\<lambda>r.
       r_bind (nhr_response_parse_content_encoding r received) (\<lambda>r.
       nhr_response_parse_body mc r received n))))
      (r_bind (rs_apply h ?b (\<lambda>r. nhr_response_parse_content_length r received)) (\<lambda>h.
       r_bind (rs_apply h ?b (\<lambda>r. nhr_response_parse_transfer_encoding r received)) (\<lambda>h.
       r_bind (rs_apply h ?b (\<lambda>r. nhr_response_parse_content_encoding r received)) (\<lambda>h.
       heap_response_parse_body mc h ?b received n))))" if "?B r h" for r h
    by (rule agree_bind [OF bare_apply [OF that body_blind_parse(2)]], rule agree_bind [OF bare_apply [OF _ body_blind_parse(3)]],
        assumption, rule agree_bind [OF bare_apply [OF _ body_blind_parse(4)]], assumption)
       (simp add: bare_def parse_body_agrees)
  have rest: "rel_sum (=) (created h0 h ps)
      (r_bind (if rs_status_code r \<noteq> 0
               then r_bind (nhr_response_parse_content_length r received) (\<lambda>r.
                    r_bind (nhr_response_parse_transfer_encoding r received) (\<lambda>r.
                    r_bind (nhr_response_parse_content_encoding r received) (\<lambda>r.
                    nhr_response_parse_body mc r received n)))
               else Inr r) (nhr_response_check_is_finished mc))
      (r_bind (rs_at h' ?b) (\<lambda>(_, r).
       r_bind (if rs_status_code r \<noteq> 0
               then r_bind (rs_apply h' ?b (\<lambda>r. nhr_response_parse_content_length r received)) (\<lambda>h.
                    r_bind (rs_apply h ?b (\<lambda>r. nhr_response_parse_transfer_encoding r received)) (\<lambda>h.
                    r_bind (rs_apply h ?b (\<lambda>r. nhr_response_parse_content_encoding r received)) (\<lambda>h.
                    heap_response_parse_body mc h ?b received n)))
               else Inr h') (\<lambda>h. r_bind (heap_response_check_is_finished mc h ?b) (\<lambda>h. Inr (Some ?b, h)))))"
    if B: "?B r h'" for r h'
  proof -
    have R: "?R r h'" using B by (simp add: bare_def)
    obtain p r0 where d: "rs_at h' ?b = Inr (p, r0)" using R by (rule resp_holds_at)
    have c: "rs_status_code r0 = rs_status_code r" using resp_holdsD(1) [OF R d] by simp
    have fin: "rel_sum (=) (created h0 h ps) (nhr_response_check_is_finished mc r)
        (r_bind (heap_response_check_is_finished mc h' ?b) (\<lambda>h. Inr (Some ?b, h)))" if "?R r h'" for r h'
      using agree_bind [OF finished_agrees [OF that, of mc], of "created h0 h ps" Inr "\<lambda>h. Inr (Some ?b, h)"]
      by (simp add: created_def)
    show ?thesis
      unfolding d r_bind.simps prod.case c
      by (rule agree_bind [OF _ fin]) (use head [OF B] R in auto)
  qed
  show ?thesis
    unfolding nhr_response_create_def heap_response_create_def h_new_def prod.case
    by (rule agree_same, rule agree_bind [OF bare_apply [OF fresh_response [OF assms] body_blind_parse(1)]], rule rest)
qed


section \<open>Receiving\<close>

abbreviation other_blocks :: "nat \<Rightarrow> req_block \<Rightarrow> (nat \<times> nhr_map_node) list \<Rightarrow> (nat \<times> nhr_map_node) list \<Rightarrow> ptr list" where
  "other_blocks a q xs ys \<equiv> Some a # [hq_scheme q, hq_host q, hq_path q, hq_boundary q] @ map_owned xs @ map_owned ys
     @ [hq_work_mutex q, hq_command_mutex q]"

lemma response_set:
  assumes r: "request_rep h0 h a q xs ys w" and g: "request_in h' a (q\<lparr>hq_response := Some b\<rparr>)"
    and s: "same_at h h' (tl (other_blocks a q xs ys))"
    and b: "h_get h' b = Some (St (Response_block p r0))" "valid_in h' p"
    and o: "owns h0 h' (Some b # p # other_blocks a q xs ys)"
  shows "represents h0 h' a ((request_value h q xs ys w)\<lparr>rq_response := Some (r0\<lparr>rs_body := load h' p\<rparr>)\<rparr>)"
proof -
  let ?q = "q\<lparr>hq_response := Some b\<rparr>"
  note d = r [unfolded request_rep_def]
  have m: "map_ok h' (hq_http_headers q) xs" "map_value h' xs = map_value h xs"
      "map_ok h' (hq_parameters q) ys" "map_value h' ys = map_value h ys"
    using d by (auto intro: map_same [OF _ s])
  have "owns h0 h' (Some a # [hq_scheme ?q, hq_host ?q, hq_path ?q, hq_boundary ?q] @ map_owned xs @ map_owned ys
      @ [hq_work_mutex ?q, hq_command_mutex ?q] @ response_owned (Some (b, p, r0)))"
    by (rule owns_perm [OF o]) (simp add: response_owned_def)
  moreover have "strings_in h' [hq_scheme q, hq_host q, hq_path q, hq_boundary q]"
    using d by (auto intro: strings_in_same [OF _ s])
  moreover have "response_in h' (Some b) (Some (b, p, r0))" using b by (simp add: response_in_def valid_in_def)
  ultimately have "request_rep h0 h' a ?q xs ys (Some (b, p, r0))"
    using d m g by (simp add: request_rep_def)
  then show ?thesis
    by (rule representsI) (use m load_same [OF s] in \<open>simp add: request_value_def response_value_def\<close>)
qed

lemma receive_agrees:
  assumes r: "request_rep h0 h a q xs ys w"
  shows "rel_sum (=) (\<lambda>rs h'. represents h0 h' a ((request_value h q xs ys w)\<lparr>rq_response := Some rs\<rparr>))
     (case rq_response (request_value h q xs ys w) of Some rs \<Rightarrow> nhr_response_append mc rs buff n
      | None \<Rightarrow> nhr_response_create mc buff n)
     (case hq_response q of Some b \<Rightarrow> heap_response_append mc h b buff n
      | None \<Rightarrow> r_bind (heap_response_create mc h buff n) (\<lambda>(p, h). rq_put h a (\<lambda>q. q\<lparr>hq_response := p\<rparr>)))"
proof (cases w)
  case None
  then have n: "hq_response q = None" "rq_response (request_value h q xs ys w) = None"
    using r by (simp_all add: request_rep_def response_in_def request_value_def response_value_def)
  have g: "request_in h a q" using r by (simp add: request_rep_def)
  have "owns h0 h (other_blocks a q xs ys)" using rep_owns [OF r] None by (simp add: response_owned_def)
  from create_agrees [OF this, of mc buff n] show ?thesis
    unfolding n option.case
  proof (rule agree_bind [where f = Inr, unfolded r_bind_Inr_right], goal_cases)
    case (1 rs v)
    then obtain b h1 where v: "v = (Some b, h1)" and h: "resp_holds h0 h (other_blocks a q xs ys) b rs h1"
      by (cases v) (auto simp: created_def)
    obtain p r0 where d: "h_get h1 b = Some (St (Response_block p r0))" "rs = r0\<lparr>rs_body := load h1 p\<rparr>" "valid_in h1 p"
        "owns h0 h1 (Some b # p # other_blocks a q xs ys)" "same_at h h1 (other_blocks a q xs ys)"
      using h by (auto simp: resp_holds_def)
    have "request_in h1 a q" using g d(5) by (simp add: same_at_def)
    moreover have "owns h0 h1 (Some a # Some b # p # tl (other_blocks a q xs ys))" by (rule owns_perm [OF d(4)]) simp
    ultimately obtain h' where h': "rq_put h1 a (\<lambda>q. q\<lparr>hq_response := Some b\<rparr>) = Inr h'"
        "request_in h' a (q\<lparr>hq_response := Some b\<rparr>)"
        "owns h0 h' (Some a # Some b # p # tl (other_blocks a q xs ys))"
        "same_at h1 h' (Some b # p # tl (other_blocks a q xs ys))"
      using rq_assign by blast
    have s: "same_at h h' (tl (other_blocks a q xs ys))" using d(5) h'(4) by (simp add: same_at_def)
    have o: "owns h0 h' (Some b # p # other_blocks a q xs ys)" by (rule owns_perm [OF h'(3)]) simp
    have "h_get h' b = Some (St (Response_block p r0))" "valid_in h' p" "load h' p = load h1 p"
      using d(1) h'(4) valid_same [OF d(3) h'(4)] load_same [OF h'(4), of p] by (simp_all add: same_at_def)
    with response_set [OF r h'(2) s _ _ o, of r0] d(2) show ?case using v h'(1) by simp
  qed
next
  case (Some x)
  obtain b p r0 where x: "x = (b, p, r0)" by (cases x)
  then have n: "hq_response q = Some b" "h_get h b = Some (St (Response_block p r0))" "valid_in h p"
      "rq_response (request_value h q xs ys w) = Some (r0\<lparr>rs_body := load h p\<rparr>)"
    using r Some by (simp_all add: request_rep_def response_in_def request_value_def response_value_def valid_in_def)
  have g: "request_in h a q" using r by (simp add: request_rep_def)
  have same_q: "q\<lparr>hq_response := Some b\<rparr> = q" using n(1) by (cases q) simp
  have o: "owns h0 h (Some b # p # other_blocks a q xs ys)"
    by (rule owns_perm [OF rep_owns [OF r]]) (simp add: Some x response_owned_def)
  have "resp_holds h0 h (other_blocks a q xs ys) b (r0\<lparr>rs_body := load h p\<rparr>) h"
    by (rule resp_holdsI [OF n(2,3) o]) (simp add: same_at_def)
  from append_agrees [OF this, of mc buff n] show ?thesis
    unfolding n option.case
  proof (rule agree_mono, goal_cases)
    case (1 rs h')
    then obtain p' r1 where d: "h_get h' b = Some (St (Response_block p' r1))" "rs = r1\<lparr>rs_body := load h' p'\<rparr>"
        "valid_in h' p'" "owns h0 h' (Some b # p' # other_blocks a q xs ys)" "same_at h h' (other_blocks a q xs ys)"
      by (auto simp: resp_holds_def)
    have "request_in h' a (q\<lparr>hq_response := Some b\<rparr>)" unfolding same_q using g d(5) by (simp add: same_at_def)
    moreover have "same_at h h' (tl (other_blocks a q xs ys))" by (rule same_at_sub [OF d(5)]) auto
    ultimately show ?case using response_set [OF r _ _ d(1,3,4)] d(2) by simp
  qed
qed


lemma recv_loop_agrees:
  "represents h0 h a (sy_req s) \<Longrightarrow>
     rel_sum (=) (\<lambda>s' (clock, h'). clock = sy_clock s' \<and> represents h0 h' a (sy_req s'))
       (recv_loop mc answers buff s) (heap_recv_loop mc answers buff (sy_clock s) h a)"
proof (induction mc answers buff s arbitrary: h rule: recv_loop.induct)
  case (2 mc d rest buff s)
  let ?b = "d @ drop (length d) buff" and ?n = "of_nat (length d) :: size_t"
  show ?case
  proof (cases "sy_clock s")
    case Nil
    then show ?thesis by (simp add: touch_def nhr_time_def Let_def)
  next
    case (Cons now ts)
    obtain q xs ys w where q: "request_rep h0 h a q xs ys w" "sy_req s = request_value h q xs ys w"
      using 2(2) by (auto simp: represents_def)
    let ?f = "on_rest (\<lambda>r. r\<lparr>rq_last_time := now\<rparr>)"
    obtain h1 where h1: "rq_put h a ?f = Inr h1" "request_rep h0 h1 a (?f q) xs ys w"
        "request_value h1 (?f q) xs ys w = request_value h (?f q) xs ys w"
      using rest_assign [OF q(1)] by blast
    let ?s = "s\<lparr>sy_clock := ts, sy_req := (sy_req s)\<lparr>rq_last_time := now\<rparr>\<rparr>"
    have t: "touch s = Inr ?s" using Cons by (cases s) (simp add: touch_def nhr_time_def on_req_def)
    have v: "sy_req ?s = request_value h1 (?f q) xs ys w"
      unfolding h1(3) by (simp add: q(2) request_value_def on_rest_def)
    have rq: "rq_at h1 (Some a) = Inr (?f q)" using h1(2) by (simp add: request_rep_def)
    from receive_agrees [OF h1(2), of mc ?b ?n]
    have step: "rel_sum (=) (\<lambda>rs h'. represents h0 h' a ((sy_req ?s)\<lparr>rq_response := Some rs\<rparr>))
       (case rq_response (sy_req ?s) of Some rs \<Rightarrow> nhr_response_append mc rs ?b ?n
        | None \<Rightarrow> nhr_response_create mc ?b ?n)
       (case hq_response (?f q) of Some b \<Rightarrow> heap_response_append mc h1 b ?b ?n
        | None \<Rightarrow> r_bind (heap_response_create mc h1 ?b ?n) (\<lambda>(p, h). rq_put h a (\<lambda>q. q\<lparr>hq_response := p\<rparr>)))"
      unfolding v .
    have vl: "recv_loop mc (Recv_data d # rest) buff s = r_bind
       (case rq_response (sy_req ?s) of Some rs \<Rightarrow> nhr_response_append mc rs ?b ?n
        | None \<Rightarrow> nhr_response_create mc ?b ?n)
       (\<lambda>rs. recv_loop mc rest ?b (on_req (\<lambda>r. r\<lparr>rq_response := Some rs\<rparr>) ?s))"
      unfolding recv_loop.simps Let_def t r_bind.simps by (rule refl)
    have hp: "heap_recv_loop mc (Recv_data d # rest) buff (sy_clock s) h a = r_bind
       (case hq_response (?f q) of Some b \<Rightarrow> heap_response_append mc h1 b ?b ?n
        | None \<Rightarrow> r_bind (heap_response_create mc h1 ?b ?n) (\<lambda>(p, h). rq_put h a (\<lambda>q. q\<lparr>hq_response := p\<rparr>)))
       (\<lambda>h. heap_recv_loop mc rest ?b ts h a)"
      unfolding heap_recv_loop.simps Let_def Cons list.case h1(1) r_bind.simps rq by (rule refl)
    show ?thesis
      unfolding vl hp
    proof (rule agree_bind [OF step])
      fix rs h' assume x: "(case rq_response (sy_req ?s) of Some rs \<Rightarrow> nhr_response_append mc rs ?b ?n
        | None \<Rightarrow> nhr_response_create mc ?b ?n) = Inr rs"
        and rep: "represents h0 h' a ((sy_req ?s)\<lparr>rq_response := Some rs\<rparr>)"
      let ?u = "on_req (\<lambda>r. r\<lparr>rq_response := Some rs\<rparr>) ?s"
      have u: "sy_req ?u = (sy_req ?s)\<lparr>rq_response := Some rs\<rparr>" "sy_clock ?u = ts" by (simp_all add: on_req_def)
      from 2(1) [OF refl t x, of h'] rep show "rel_sum (=) (\<lambda>s' (clock, h'). clock = sy_clock s' \<and> represents h0 h' a (sy_req s'))
          (recv_loop mc rest ?b ?u) (heap_recv_loop mc rest ?b ts h' a)"
        unfolding u by simp
    qed
  qed
qed simp_all

lemma rounds_agree:
  "represents h0 h a (sy_req s) \<Longrightarrow>
     rel_sum (=) (\<lambda>s' h'. represents h0 h' a (sy_req s')) (recv_rounds mc rounds s) (heap_recv_rounds mc rounds h a)"
proof (induction mc rounds s arbitrary: h rule: recv_rounds.induct)
  case (2 mc answers buff clock rounds s)
  from 2(2) have "represents h0 h a (sy_req (s\<lparr>sy_clock := clock\<rparr>))" by simp
  from recv_loop_agrees [OF this, of mc answers buff] show ?case
    by (auto intro: agree_bind 2(1))
qed simp

section \<open>The guarantees of a whole exchange\<close>

text \<open>
  C5: nhr_request_recv on the heap, where the response and its body are blocks that are allocated,
  reallocated and replaced, agrees with nhr_request_recv on values for whatever the peer sends: it
  ends with the same fault, or it ends well, the blocks of the request then say what the value says,
  and they are all that has been allocated. So it uses no freed block and loses none, on the error
  paths of the decompression too.
\<close>

theorem heap_receive_agrees:
  assumes "represents h0 h a (sy_req s)"
  shows "case recv_loop mc answers buff s of
       Inl e \<Rightarrow> heap_recv_loop mc answers buff (sy_clock s) h a = Inl e
     | Inr s' \<Rightarrow> \<exists>h'. heap_recv_loop mc answers buff (sy_clock s) h a = Inr (sy_clock s', h')
                   \<and> represents h0 h' a (sy_req s')"
  using recv_loop_agrees [OF assms, of mc answers buff]
  by (cases "recv_loop mc answers buff s"; cases "heap_recv_loop mc answers buff (sy_clock s) h a") auto

text \<open>
  C7: a whole exchange gives back all memory: after nhr_request_create, any successful calls of the
  client and any number of calls of nhr_request_recv with any packets that end well on values,
  nhr_request_delete frees each block that was allocated, the response and its body included,
  exactly once; deleting once more is the fault of a pointer to a freed block.
\<close>

theorem exchange_memory_returned:
  assumes "room mc" "value_calls mc (Some new_request) cs = Inr (Some (sy_req s))"
    and "recv_rounds mc rounds s = Inr s'"
  shows "\<exists>a h h1 h2 h3. heap_request_create mc True h0 = Inr (Some a, h)
    \<and> heap_calls mc h (Some a) cs = Some (Inr h1)
    \<and> heap_recv_rounds mc rounds h1 a = Inr h2 \<and> represents h0 h2 a (sy_req s')
    \<and> heap_request_delete h2 a = Inr h3 \<and> (\<forall>b. h_get h3 b = h_get h0 b)
    \<and> heap_request_delete h3 a = Inl BadPointer"
proof -
  obtain a h where h: "heap_request_create mc True h0 = Inr (Some a, h)" "represents h0 h a new_request"
    using heap_create_represents [OF assms(1)] by blast
  obtain h1 where h1: "heap_calls mc h (Some a) cs = Some (Inr h1)" "represents h0 h1 a (sy_req s)"
    using heap_calls_follow [OF h(2) _ assms(2)] assms(1) by (auto simp: room_def)
  obtain h2 where h2: "heap_recv_rounds mc rounds h1 a = Inr h2" "represents h0 h2 a (sy_req s')"
    using agree_Inr [OF rounds_agree [OF h1(2)] assms(3)] by blast
  obtain h3 where h3: "heap_request_delete h2 a = Inr h3" "\<forall>b. h_get h3 b = h_get h0 b"
    using request_delete_frees [OF h2(2)] by blast
  have "h_get h0 a = None" using h2(2) rep_owns by (fastforce simp: represents_def owns_def)
  then have "heap_request_delete h3 a = Inl BadPointer"
    using h3(2) by (simp add: heap_request_delete_def rq_put_def rq_at_def)
  with h(1) h1(1) h2 h3 show ?thesis by blast
qed

definition example_round :: recv_round where
  \<comment> \<open>a response in two packets, the second of which makes the body grow\<close>
  "example_round = (map Recv_data [example_first, ''lo''] @ Recv_fail EAGAIN # [], replicate 100 NUL, [100, 101])"

lemma example_answer:
  "\<exists>rs. answer example_gz_mach (replicate 100 NUL) example_first [''lo''] rs \<and> resp_content rs = ''hello''"
proof -
  have "\<exists>rs. answer example_gz_mach (replicate 100 NUL) example_first [''lo''] rs
      \<and> rs_status_code rs = of_nat 200 \<and> resp_content rs = take 5 (''hel'' @ concat [''lo''])"
    by (rule plain_answer [OF example_first_plain(1) refl example_first_plain(2)])
       (auto simp: sizeof_response_def)
  then show ?thesis by auto
qed

lemma example_round_run:
  assumes "rq_response (sy_req s) = None"
  shows "\<exists>s' rs. recv_rounds example_gz_mach [example_round] s = Inr s' \<and> rq_response (sy_req s') = Some rs
    \<and> resp_content rs = ''hello''"
proof -
  obtain rs where rs: "answer example_gz_mach (replicate 100 NUL) example_first [''lo''] rs" "resp_content rs = ''hello''"
    using example_answer by blast
  let ?s = "s\<lparr>sy_clock := [100, 101]\<rparr>"
  have "rq_response (sy_req ?s) = None" "sy_clock ?s = [100, 101] @ []" "length [100, 101 :: int] = Suc (length [''lo''])"
    using assms by simp_all
  from recv_answered [OF this rs(1), of EAGAIN "[]"] rs(2) show ?thesis
    unfolding example_round_def by (simp del: recv_loop.simps)
qed

theorem exchange_memory_returned_witness:
  "\<exists>(s' :: sys) rs a h h1 h2 h3. heap_request_create example_gz_mach True [] = Inr (Some a, h)
    \<and> heap_calls example_gz_mach h (Some a) example_calls = Some (Inr h1)
    \<and> heap_recv_rounds example_gz_mach [example_round] h1 a = Inr h2 \<and> represents [] h2 a (sy_req s')
    \<and> rq_response (sy_req s') = Some rs \<and> resp_content rs = ''hello''
    \<and> heap_request_delete h2 a = Inr h3 \<and> (\<forall>b. h_get h3 b = None)"
proof -
  obtain r where r: "value_calls example_gz_mach (Some new_request) example_calls = Inr (Some r)"
    using example_calls_run by blast
  let ?s = "example_sys\<lparr>sy_req := r\<rparr>"
  have "rq_response r = None" using value_calls_worker [OF r] by (simp add: same_worker_def new_request_def)
  then obtain s' rs where s': "recv_rounds example_gz_mach [example_round] ?s = Inr s'"
      "rq_response (sy_req s') = Some rs" "resp_content rs = ''hello''"
    using example_round_run [of ?s] by auto
  have e: "h_get ([] :: req_heap) b = None" for b by (simp add: h_get_def)
  have "value_calls example_gz_mach (Some new_request) example_calls = Inr (Some (sy_req ?s))" using r by simp
  from exchange_memory_returned [OF example_room(1) this s'(1), of "[]"] s'(2,3) show ?thesis
    unfolding e by blast
qed

theorem heap_receive_agrees_witness:
  "\<exists>a h h' (s' :: sys) rs. heap_request_create example_gz_mach True [] = Inr (Some a, h)
    \<and> heap_recv_loop example_gz_mach (fst example_round) (replicate 100 NUL) [100, 101] h a = Inr ([], h')
    \<and> represents [] h' a (sy_req s') \<and> rq_response (sy_req s') = Some rs \<and> resp_content rs = ''hello''"
proof -
  obtain a h where h: "heap_request_create example_gz_mach True [] = Inr (Some a, h)" "represents [] h a new_request"
    using heap_create_represents [OF example_room(1)] by blast
  obtain rs where rs: "answer example_gz_mach (replicate 100 NUL) example_first [''lo''] rs" "resp_content rs = ''hello''"
    using example_answer by blast
  let ?s = "example_sys\<lparr>sy_req := new_request, sy_clock := [100, 101]\<rparr>"
  have n: "rq_response (sy_req ?s) = None" "sy_clock ?s = [100, 101] @ []"
      "length [100, 101 :: int] = Suc (length [''lo''])"
    by (simp_all add: new_request_def)
  obtain s' where s': "recv_loop example_gz_mach (fst example_round) (replicate 100 NUL) ?s = Inr s'"
      "rq_response (sy_req s') = Some rs" "sy_clock s' = []"
    using recv_answered [OF n rs(1), of EAGAIN "[]"] unfolding example_round_def by (simp del: recv_loop.simps)
  have "represents [] h a (sy_req ?s)" using h(2) by simp
  from heap_receive_agrees [OF this, of example_gz_mach "fst example_round" "replicate 100 NUL"]
  obtain h' where "heap_recv_loop example_gz_mach (fst example_round) (replicate 100 NUL) [100, 101] h a = Inr ([], h')"
      "represents [] h' a (sy_req s')"
    unfolding s'(1) sum.case s'(3) by auto
  with h(1) s'(2) rs(2) show ?thesis by blast
qed

end
