(* ===== verification/Nhr_Library.thy ===== *)
theory Nhr_Library
  imports Nhr_Thread Nhr_Worker_Safety
begin

text \<open>
  The library as a whole: any number of requests of any number of clients at once. Each request
  is sent by nhr_thread_create (nhr_request_create_start_work_thread) and served by a thread of its
  own, which runs nhr_request_work_th_func and then leaves itself in the joiner
  (nhr_thread_func_priv). The state puts the threads of \<open>Nhr_Thread\<close> beside the workers of
  \<open>Nhr_Worker\<close>; their steps interleave.
\<close>

record library =
  lb_threads :: threads
  lb_works :: "sys list"     \<comment> \<open>the request that the thread of this number serves\<close>

definition function_returned :: "nat \<Rightarrow> library \<Rightarrow> bool" where
  \<comment> \<open>\<open>t->thread_function(t->user_object)\<close> in nhr_thread_func_priv has returned\<close>
  "function_returned t s \<longleftrightarrow> sy_pc (lb_works s ! t) = Done"

definition sent :: "sys \<Rightarrow> bool" where
  \<comment> \<open>nhr_request_send has accepted the request, and its thread has just been made\<close>
  "sent v \<longleftrightarrow> sys_init v \<and> socks_ok v \<and> callbacks_set v"

inductive lib_step :: "'z gz_mach \<Rightarrow> library \<Rightarrow> library \<Rightarrow> bool" for mc where
  request: "t < length (lb_works s) \<Longrightarrow> sys_step mc (lb_works s ! t) v \<Longrightarrow>
     lib_step mc s (s\<lparr>lb_works := (lb_works s)[t := v]\<rparr>)"
| thread: "t < length (ts_threads (lb_threads s)) \<Longrightarrow>
     thr_pc (ts_threads (lb_threads s) ! t) = Th_working \<longrightarrow> function_returned t s \<Longrightarrow>
     nhr_thread_func_priv t (lb_threads s) = Some (Inr ts) \<Longrightarrow> lib_step mc s (s\<lparr>lb_threads := ts\<rparr>)"
| client: "c < length (ts_clients (lb_threads s)) \<Longrightarrow> ts_clients (lb_threads s) ! c \<noteq> Cl_spawning \<Longrightarrow>
     nhr_thread_create mc ok c (lb_threads s) = Inr ts \<Longrightarrow> lib_step mc s (s\<lparr>lb_threads := ts\<rparr>)"
| send: "c < length (ts_clients (lb_threads s)) \<Longrightarrow> ts_clients (lb_threads s) ! c = Cl_spawning \<Longrightarrow>
     nhr_thread_create mc ok c (lb_threads s) = Inr ts \<Longrightarrow> sent v \<Longrightarrow>
     lib_step mc s \<lparr>lb_threads = ts, lb_works = lb_works s @ [v]\<rparr>"

text \<open>
  The library left to itself: no client sends, cancels or creates a thread any more, and the workers
  and threads that are there run on in whatever order the system schedules them.
\<close>

inductive drain_step :: "'z gz_mach \<Rightarrow> library \<Rightarrow> library \<Rightarrow> bool" for mc where
  worker: "t < length (lb_works s) \<Longrightarrow> worker_next mc (lb_works s ! t) = Some v \<Longrightarrow>
     drain_step mc s (s\<lparr>lb_works := (lb_works s)[t := v]\<rparr>)"
| thread: "t < length (ts_threads (lb_threads s)) \<Longrightarrow>
     thr_pc (ts_threads (lb_threads s) ! t) = Th_working \<longrightarrow> function_returned t s \<Longrightarrow>
     nhr_thread_func_priv t (lb_threads s) = Some (Inr ts) \<Longrightarrow> drain_step mc s (s\<lparr>lb_threads := ts\<rparr>)"

definition lib_start :: "threads \<Rightarrow> library" where
  \<comment> \<open>before the first request\<close>
  "lib_start ts = \<lparr>lb_threads = ts, lb_works = []\<rparr>"

end
