(* ===== verification/Nhr_Thread_Correct.thy ===== *)
theory Nhr_Thread_Correct
  imports Nhr_Thread
begin

text \<open>
  What the joiner guarantees over every interleaving of the threads with the clients that create
  them: no thread is joined twice, joins itself or is used after its block is freed, at most
  one finished thread is still to be joined, and no state is a deadlock. It holds once the
  joiner exists; two clients that create their first thread at the same time can break it.
\<close>

section \<open>The mutex\<close>

text \<open>
  What the users of a mutex rely on: who holds it excludes the others, and giving back what was
  taken from the free mutex makes it free again.
\<close>

locale exclusive =
  fixes take_it :: "nat \<Rightarrow> 'm \<Rightarrow> 'm option"
    and give_it :: "nat \<Rightarrow> 'm \<Rightarrow> 'm"
    and free_one :: 'm
    and holds :: "nat \<Rightarrow> 'm \<Rightarrow> bool"
  assumes take_free: "\<exists>m. take_it t free_one = Some m \<and> holds t m"
    and take_held: "holds u m \<Longrightarrow> t \<noteq> u \<Longrightarrow> take_it t m = None"
    and give_taken: "take_it t free_one = Some m \<Longrightarrow> give_it t m = free_one"
begin

lemma take_give: "\<exists>m. take_it t free_one = Some m \<and> holds t m \<and> give_it t m = free_one"
  using take_free [of t] give_taken by blast

lemma one_taker: "take_it t free_one = Some m \<Longrightarrow> take_it u m = Some m' \<Longrightarrow> u = t"
  using take_free [of t] take_held [of t m u] by (cases "u = t") auto

end

abbreviation free_mutex :: mutex where "free_mutex \<equiv> \<lparr>mx_owner = None, mx_depth = 0\<rparr>"

definition mutex_held :: "nat \<Rightarrow> mutex option \<Rightarrow> bool" where
  "mutex_held t m \<longleftrightarrow> m = Some \<lparr>mx_owner = Some t, mx_depth = 1\<rparr>"

interpretation mx: exclusive nhr_mutex_lock nhr_mutex_unlock "Some free_mutex" mutex_held
  by unfold_locales (auto simp: nhr_mutex_lock_def nhr_mutex_unlock_def mutex_held_def)

section \<open>The invariant of the joiner\<close>

fun crit :: "thread_pc \<Rightarrow> bool" where
  "crit Th_cleaning = True"
| "crit (Th_joining u) = True"
| "crit Th_storing = True"
| "crit Th_unlocking = True"
| "crit _ = False"

fun finished :: "thread_pc \<Rightarrow> bool" where
  "finished Th_unlocking = True"
| "finished Th_returning = True"
| "finished Th_exited = True"
| "finished _ = False"

definition lock_inv :: "nat \<Rightarrow> (nat \<Rightarrow> thread_pc) \<Rightarrow> mutex \<Rightarrow> bool" where
  "lock_inv n pc m \<longleftrightarrow>
     (m = free_mutex \<and> (\<forall>t < n. \<not> crit (pc t)))
     \<or> (\<exists>t < n. m = \<lparr>mx_owner = Some t, mx_depth = 1\<rparr> \<and> crit (pc t) \<and> (\<forall>u < n. u \<noteq> t \<longrightarrow> \<not> crit (pc u)))"

definition join_inv :: "nat \<Rightarrow> (nat \<Rightarrow> thread_pc) \<Rightarrow> (nat \<Rightarrow> bool) \<Rightarrow> nat option \<Rightarrow> bool" where
  "join_inv n pc jn w \<longleftrightarrow>
     (\<forall>t < n. jn t \<longrightarrow> pc t = Th_exited)
     \<and> (\<forall>t < n. finished (pc t) \<and> \<not> jn t \<longrightarrow> w = Some t \<or> (\<exists>u < n. pc u = Th_joining t))
     \<and> (\<forall>t < n. \<forall>u. pc t = Th_joining u \<longrightarrow> w = None \<and> u < n \<and> \<not> jn u \<and> (pc u = Th_returning \<or> pc u = Th_exited))
     \<and> (\<forall>t < n. pc t = Th_storing \<longrightarrow> w = None)
     \<and> (\<forall>t. w = Some t \<longrightarrow> t < n \<and> \<not> jn t \<and> finished (pc t))"

lemma finished_not_crit: "finished p \<Longrightarrow> crit p \<Longrightarrow> p = Th_unlocking"
  by (cases p) auto

lemma lock_inv_cases:
  assumes "lock_inv n pc m"
  obtains (free) "m = free_mutex" "\<And>t. t < n \<Longrightarrow> \<not> crit (pc t)"
  | (held) t where "t < n" "m = \<lparr>mx_owner = Some t, mx_depth = 1\<rparr>" "crit (pc t)"
      "\<And>u. u < n \<Longrightarrow> u \<noteq> t \<Longrightarrow> \<not> crit (pc u)"
  using assms unfolding lock_inv_def by blast

lemma lock_inv_free: "(\<And>t. t < n \<Longrightarrow> \<not> crit (pc t)) \<Longrightarrow> lock_inv n pc free_mutex"
  by (simp add: lock_inv_def)

lemma lock_inv_held:
  "t < n \<Longrightarrow> crit (pc t) \<Longrightarrow> (\<And>u. u < n \<Longrightarrow> u \<noteq> t \<Longrightarrow> \<not> crit (pc u)) \<Longrightarrow>
     lock_inv n pc \<lparr>mx_owner = Some t, mx_depth = 1\<rparr>"
  unfolding lock_inv_def by blast

lemma lock_inv_move:
  assumes "lock_inv n pc m" "crit p = crit (pc t)"
  shows "lock_inv n (pc(t := p)) m"
proof -
  have "crit ((pc(t := p)) u) = crit (pc u)" for u using assms(2) by simp
  with assms(1) show ?thesis unfolding lock_inv_def by simp
qed

lemma lock_inv_take:
  assumes "lock_inv n pc m" "t < n" "\<not> crit (pc t)" "crit p" "nhr_mutex_lock t (Some m) = Some m'"
  shows "\<exists>k. m' = Some k \<and> lock_inv n (pc(t := p)) k"
  using assms(1)
proof (cases rule: lock_inv_cases)
  case free
  then have "m' = Some \<lparr>mx_owner = Some t, mx_depth = 1\<rparr>" using assms(5) by (simp add: nhr_mutex_lock_def)
  moreover have "lock_inv n (pc(t := p)) \<lparr>mx_owner = Some t, mx_depth = 1\<rparr>"
    by (rule lock_inv_held) (simp_all add: assms(2,4) free)
  ultimately show ?thesis by blast
next
  case (held u)
  then have "u \<noteq> t" using assms(3) by blast
  with held(2) assms(5) mx.take_held [of u "Some m" t] show ?thesis by (simp add: mutex_held_def)
qed

lemma lock_inv_give:
  assumes "lock_inv n pc m" "t < n" "crit (pc t)" "\<not> crit p"
  shows "\<exists>k. nhr_mutex_unlock t (Some m) = Some k \<and> lock_inv n (pc(t := p)) k"
  using assms(1)
proof (cases rule: lock_inv_cases)
  case free
  with assms(2,3) show ?thesis by blast
next
  case (held u)
  then have u: "u = t" using assms(2,3) by blast
  have "lock_inv n (pc(t := p)) free_mutex"
    by (rule lock_inv_free) (simp add: held(4) u assms(4))
  then show ?thesis using held(2) u by (simp add: nhr_mutex_unlock_def)
qed

lemma crit_unique: "lock_inv n pc m \<Longrightarrow> t < n \<Longrightarrow> crit (pc t) \<Longrightarrow> u < n \<Longrightarrow> u \<noteq> t \<Longrightarrow> \<not> crit (pc u)"
  unfolding lock_inv_def by blast

lemma join_invD:
  assumes "join_inv n pc jn w"
  shows "t < n \<Longrightarrow> jn t \<Longrightarrow> pc t = Th_exited"
    and "t < n \<Longrightarrow> finished (pc t) \<Longrightarrow> \<not> jn t \<Longrightarrow> w = Some t \<or> (\<exists>u < n. pc u = Th_joining t)"
    and "t < n \<Longrightarrow> pc t = Th_joining u \<Longrightarrow> w = None \<and> u < n \<and> \<not> jn u \<and> (pc u = Th_returning \<or> pc u = Th_exited)"
    and "t < n \<Longrightarrow> pc t = Th_storing \<Longrightarrow> w = None"
    and "w = Some t \<Longrightarrow> t < n \<and> \<not> jn t \<and> finished (pc t)"
  using assms unfolding join_inv_def by blast+

lemma join_invI:
  assumes "\<And>t. t < n \<Longrightarrow> jn t \<Longrightarrow> pc t = Th_exited"
    and "\<And>t. t < n \<Longrightarrow> finished (pc t) \<Longrightarrow> \<not> jn t \<Longrightarrow> w = Some t \<or> (\<exists>u < n. pc u = Th_joining t)"
    and "\<And>t u. t < n \<Longrightarrow> pc t = Th_joining u \<Longrightarrow> w = None \<and> u < n \<and> \<not> jn u \<and> (pc u = Th_returning \<or> pc u = Th_exited)"
    and "\<And>t. t < n \<Longrightarrow> pc t = Th_storing \<Longrightarrow> w = None"
    and "\<And>t. w = Some t \<Longrightarrow> t < n \<and> \<not> jn t \<and> finished (pc t)"
  shows "join_inv n pc jn w"
  using assms unfolding join_inv_def by blast

lemma join_inv_move:
  assumes j: "join_inv n pc jn w" and t: "t < n" "finished p = finished (pc t)"
    and p: "pc t \<noteq> Th_exited" "\<And>u. pc t \<noteq> Th_joining u" "\<And>u. p \<noteq> Th_joining u"
    and s: "p = Th_storing \<Longrightarrow> w = None" and r: "pc t = Th_returning \<Longrightarrow> p = Th_exited"
  shows "join_inv n (pc(t := p)) jn w"
proof (rule join_invI)
  fix v assume "v < n" "jn v"
  with join_invD(1) [OF j] p(1) show "(pc(t := p)) v = Th_exited" by auto
next
  fix v assume v: "v < n" "finished ((pc(t := p)) v)" "\<not> jn v"
  then have "finished (pc v)" using t(2) by (simp split: if_splits)
  from join_invD(2) [OF j v(1) this v(3)] show "w = Some v \<or> (\<exists>u < n. (pc(t := p)) u = Th_joining v)"
  proof (elim disjE exE conjE)
    fix u assume "u < n" "pc u = Th_joining v"
    moreover from this have "u \<noteq> t" using p(2) by blast
    ultimately show ?thesis by auto
  qed simp
next
  fix v u assume v: "v < n" "(pc(t := p)) v = Th_joining u"
  then have "pc v = Th_joining u" using p(3) by (auto split: if_splits)
  from join_invD(3) [OF j v(1) this] p(1) r
  show "w = None \<and> u < n \<and> \<not> jn u \<and> ((pc(t := p)) u = Th_returning \<or> (pc(t := p)) u = Th_exited)"
    by auto
next
  fix v assume "v < n" "(pc(t := p)) v = Th_storing"
  with join_invD(4) [OF j] s show "w = None" by (auto split: if_splits)
next
  fix v assume "w = Some v"
  from join_invD(5) [OF j this] t(2) show "v < n \<and> \<not> jn v \<and> finished ((pc(t := p)) v)" by auto
qed

lemma join_inv_take:
  assumes j: "join_inv n pc jn (Some u)" and t: "t < n" "pc t = Th_cleaning" and l: "lock_inv n pc m"
  shows "join_inv n (pc(t := Th_joining u)) jn None"
proof -
  have u: "u < n" "\<not> jn u" "finished (pc u)" "u \<noteq> t" using join_invD(5) [OF j refl] t(2) by auto
  have only: "\<not> crit (pc v)" if "v < n" "v \<noteq> t" for v using crit_unique [OF l t(1) _ that] t(2) by simp
  have pu: "pc u = Th_returning \<or> pc u = Th_exited" using only [OF u(1,4)] u(3) by (cases "pc u") auto
  have nojoin: "pc v \<noteq> Th_joining x" if "v < n" for v x
  proof (cases "v = t")
    case False
    with only [OF that] show ?thesis by (metis crit.simps(2))
  qed (simp add: t)
  show ?thesis
  proof (rule join_invI)
    fix v assume v: "v < n" "jn v"
    with join_invD(1) [OF j v] t show "(pc(t := Th_joining u)) v = Th_exited" by auto
  next
    fix v assume v: "v < n" "finished ((pc(t := Th_joining u)) v)" "\<not> jn v"
    then have "finished (pc v)" by (simp split: if_splits)
    with join_invD(2) [OF j v(1) _ v(3)] nojoin have "u = v" by blast
    then show "None = Some v \<or> (\<exists>w < n. (pc(t := Th_joining u)) w = Th_joining v)" using t(1) by auto
  next
    fix v x assume v: "v < n" "(pc(t := Th_joining u)) v = Th_joining x"
    with nojoin have "x = u" by (metis fun_upd_apply thread_pc.inject)
    with u pu show "None = None \<and> x < n \<and> \<not> jn x
        \<and> ((pc(t := Th_joining u)) x = Th_returning \<or> (pc(t := Th_joining u)) x = Th_exited)" by simp
  qed simp_all
qed

lemma join_inv_joined:
  assumes j: "join_inv n pc jn w" and t: "t < n" "pc t = Th_joining u" "pc u = Th_exited" and l: "lock_inv n pc m"
  shows "join_inv n (pc(t := Th_storing)) (jn(u := True)) w"
proof -
  have w: "w = None" using join_invD(3) [OF j t(1,2)] by simp
  have only: "\<not> crit (pc v)" if "v < n" "v \<noteq> t" for v using crit_unique [OF l t(1) _ that] t(2) by simp
  show ?thesis
  proof (rule join_invI)
    fix v assume v: "v < n" "finished ((pc(t := Th_storing)) v)" "\<not> (jn(u := True)) v"
    then have f: "finished (pc v)" "\<not> jn v" "v \<noteq> u" by (simp_all split: if_splits)
    from join_invD(2) [OF j v(1) f(1,2)] w obtain x where x: "x < n" "pc x = Th_joining v" by auto
    have "x \<noteq> t" using x(2) t(2) f(3) by auto
    with only [OF x(1)] x(2) show "w = Some v \<or> (\<exists>x < n. (pc(t := Th_storing)) x = Th_joining v)" by simp
  next
    fix v x assume v: "v < n" "(pc(t := Th_storing)) v = Th_joining x"
    then have "v \<noteq> t" "pc v = Th_joining x" by (simp_all split: if_splits)
    with only [OF v(1)] show "w = None \<and> x < n \<and> \<not> (jn(u := True)) x
        \<and> ((pc(t := Th_storing)) x = Th_returning \<or> (pc(t := Th_storing)) x = Th_exited)" by simp
  next
    fix v assume v: "v < n" "(jn(u := True)) v"
    show "(pc(t := Th_storing)) v = Th_exited"
    proof (cases "v = u")
      case True
      then show ?thesis using t by auto
    next
      case False
      then have "pc v = Th_exited" using join_invD(1) [OF j v(1)] v(2) by simp
      then show ?thesis using t(2) by auto
    qed
  qed (use w in simp_all)
qed

lemma join_inv_store:
  assumes j: "join_inv n pc jn w" and t: "t < n" "pc t = Th_storing" and l: "lock_inv n pc m"
  shows "join_inv n (pc(t := Th_unlocking)) jn (Some t)"
proof -
  have w: "w = None" using join_invD(4) [OF j t] .
  have only: "\<not> crit (pc v)" if "v < n" "v \<noteq> t" for v using crit_unique [OF l t(1) _ that] t(2) by simp
  have nj: "\<not> jn t" using join_invD(1) [OF j t(1)] t(2) by auto
  show ?thesis
  proof (rule join_invI)
    fix v assume v: "v < n" "finished ((pc(t := Th_unlocking)) v)" "\<not> jn v"
    show "Some t = Some v \<or> (\<exists>u < n. (pc(t := Th_unlocking)) u = Th_joining v)"
    proof (cases "v = t")
      case False
      with v(2) have "finished (pc v)" by simp
      from join_invD(2) [OF j v(1) this v(3)] w obtain x where x: "x < n" "pc x = Th_joining v" by auto
      then have "x \<noteq> t" using t(2) by auto
      with only [OF x(1)] x(2) show ?thesis by simp
    qed simp
  next
    fix v x assume v: "v < n" "(pc(t := Th_unlocking)) v = Th_joining x"
    then have "v \<noteq> t" "pc v = Th_joining x" by (simp_all split: if_splits)
    with only [OF v(1)] show "Some t = None \<and> x < n \<and> \<not> jn x
        \<and> ((pc(t := Th_unlocking)) x = Th_returning \<or> (pc(t := Th_unlocking)) x = Th_exited)" by simp
  next
    fix v assume v: "v < n" "(pc(t := Th_unlocking)) v = Th_storing"
    then have "v \<noteq> t" "pc v = Th_storing" by (simp_all split: if_splits)
    with only [OF v(1)] show "Some t = None" by simp
  next
    fix v assume v: "v < n" "jn v"
    then have "pc v = Th_exited" using join_invD(1) [OF j] by simp
    then show "(pc(t := Th_unlocking)) v = Th_exited" using t(2) by auto
  next
    fix v assume "Some t = Some v"
    then show "v < n \<and> \<not> jn v \<and> finished ((pc(t := Th_unlocking)) v)" using t(1) nj by simp
  qed
qed

lemma join_inv_new:
  assumes j: "join_inv n pc jn w"
  shows "join_inv (Suc n) (pc(n := Th_working)) (jn(n := False)) w"
proof (rule join_invI)
  fix v assume v: "v < Suc n" "finished ((pc(n := Th_working)) v)" "\<not> (jn(n := False)) v"
  then have "v < n" "finished (pc v)" "\<not> jn v" by (auto split: if_splits)
  from join_invD(2) [OF j this] show "w = Some v \<or> (\<exists>u < Suc n. (pc(n := Th_working)) u = Th_joining v)"
  proof (elim disjE exE conjE)
    fix u assume "u < n" "pc u = Th_joining v"
    then show ?thesis by (intro disjI2 exI [of _ u]) simp
  qed simp
next
  fix v u assume v: "v < Suc n" "(pc(n := Th_working)) v = Th_joining u"
  then have "v < n" "pc v = Th_joining u" by (auto split: if_splits)
  from join_invD(3) [OF j this] show "w = None \<and> u < Suc n \<and> \<not> (jn(n := False)) u
      \<and> ((pc(n := Th_working)) u = Th_returning \<or> (pc(n := Th_working)) u = Th_exited)" by auto
next
  fix v assume "v < Suc n" "(jn(n := False)) v"
  then have "v < n" "jn v" by (auto split: if_splits)
  with join_invD(1) [OF j this] show "(pc(n := Th_working)) v = Th_exited" by simp
next
  fix v assume "v < Suc n" "(pc(n := Th_working)) v = Th_storing"
  then have "v < n" "pc v = Th_storing" by (auto split: if_splits)
  from join_invD(4) [OF j this] show "w = None" .
next
  fix v assume "w = Some v"
  from join_invD(5) [OF j this] show "v < Suc n \<and> \<not> (jn(n := False)) v \<and> finished ((pc(n := Th_working)) v)"
    by auto
qed

lemma lock_inv_new: "lock_inv n pc m \<Longrightarrow> lock_inv (Suc n) (pc(n := Th_working)) m"
proof (elim lock_inv_cases)
  fix t assume h: "t < n" "m = \<lparr>mx_owner = Some t, mx_depth = 1\<rparr>" "crit (pc t)"
    "\<And>u. u < n \<Longrightarrow> u \<noteq> t \<Longrightarrow> \<not> crit (pc u)"
  show "lock_inv (Suc n) (pc(n := Th_working)) m" unfolding h(2)
    by (rule lock_inv_held) (use h in \<open>auto split: if_splits simp: less_Suc_eq\<close>)
qed (simp add: lock_inv_free less_Suc_eq)

section \<open>The invariant of the system\<close>

definition pcs :: "threads \<Rightarrow> nat \<Rightarrow> thread_pc" where
  "pcs s t = thr_pc (ts_threads s ! t)"

definition jns :: "threads \<Rightarrow> nat \<Rightarrow> bool" where
  "jns s t = thr_joined (ts_threads s ! t)"

definition live_inv :: "threads \<Rightarrow> bool" where
  \<comment> \<open>the block of a thread is freed exactly when it is joined\<close>
  "live_inv s \<longleftrightarrow> (\<forall>t < length (ts_threads s). thr_live (ts_threads s ! t) = (\<not> jns s t))"

definition joiner_ready :: "threads \<Rightarrow> bool" where
  "joiner_ready s \<longleftrightarrow> (\<exists>w m. ts_joiner s = Some \<lparr>jo_thread = w, jo_mutex = Some m\<rparr>
     \<and> lock_inv (length (ts_threads s)) (pcs s) m \<and> join_inv (length (ts_threads s)) (pcs s) (jns s) w)
     \<and> live_inv s \<and> set (ts_clients s) \<subseteq> {Cl_idle, Cl_spawning}"

definition joiner_absent :: "threads \<Rightarrow> bool" where
  \<comment> \<open>the only client is on its way to create the joiner\<close>
  "joiner_absent s \<longleftrightarrow> ts_threads s = [] \<and>
     (ts_clients s = [Cl_idle] \<and> ts_joiner s = None \<or> ts_clients s = [Cl_making] \<and> ts_joiner s = None
      \<or> ts_clients s = [Cl_mutex] \<and> ts_joiner s = Some \<lparr>jo_thread = None, jo_mutex = None\<rparr>)"

definition th_ready :: "nat \<Rightarrow> threads" where
  \<comment> \<open>a first thread has been created and is gone, any number of clients\<close>
  "th_ready n = (th_init n)\<lparr>ts_joiner := Some \<lparr>jo_thread = None, jo_mutex = Some free_mutex\<rparr>\<rparr>"

definition th_start :: "threads \<Rightarrow> bool" where
  "th_start s \<longleftrightarrow> s = th_init 1 \<or> (\<exists>n. s = th_ready n)"

lemma joiner_start: "th_start s \<Longrightarrow> joiner_ready s \<or> joiner_absent s"
  by (auto simp: th_start_def th_init_def th_ready_def joiner_ready_def joiner_absent_def lock_inv_def
      join_inv_def live_inv_def)

lemma set_pc_sel [simp]:
  "length (ts_threads (set_pc t p s)) = length (ts_threads s)" "ts_clients (set_pc t p s) = ts_clients s"
  "ts_joiner (set_pc t p s) = ts_joiner s"
  by (simp_all add: set_pc_def)

lemma pcs_set_pc: "t < length (ts_threads s) \<Longrightarrow> pcs (set_pc t p s) = (pcs s)(t := p)"
  by (auto simp: pcs_def set_pc_def nth_list_update)

lemma jns_set_pc: "t < length (ts_threads s) \<Longrightarrow> jns (set_pc t p s) = jns s"
  by (simp add: jns_def set_pc_def nth_list_update fun_eq_iff)

lemma live_set_pc: "t < length (ts_threads s) \<Longrightarrow> live_inv (set_pc t p s) = live_inv s"
  by (auto simp: live_inv_def jns_set_pc) (auto simp: set_pc_def nth_list_update split: if_splits)

lemma joiner_upd_sel [simp]:
  "pcs (s\<lparr>ts_joiner := j\<rparr>) = pcs s" "jns (s\<lparr>ts_joiner := j\<rparr>) = jns s" "live_inv (s\<lparr>ts_joiner := j\<rparr>) = live_inv s"
  "pcs (s\<lparr>ts_clients := cs\<rparr>) = pcs s" "jns (s\<lparr>ts_clients := cs\<rparr>) = jns s" "live_inv (s\<lparr>ts_clients := cs\<rparr>) = live_inv s"
  by (simp_all add: fun_eq_iff pcs_def jns_def live_inv_def)

lemma joiner_readyE:
  assumes "joiner_ready s"
  obtains w m where "ts_joiner s = Some \<lparr>jo_thread = w, jo_mutex = Some m\<rparr>"
    "lock_inv (length (ts_threads s)) (pcs s) m" "join_inv (length (ts_threads s)) (pcs s) (jns s) w"
    "live_inv s" "set (ts_clients s) \<subseteq> {Cl_idle, Cl_spawning}"
  using assms unfolding joiner_ready_def by blast

lemma joiner_readyI:
  "ts_joiner s = Some \<lparr>jo_thread = w, jo_mutex = Some m\<rparr> \<Longrightarrow>
   lock_inv (length (ts_threads s)) (pcs s) m \<Longrightarrow> join_inv (length (ts_threads s)) (pcs s) (jns s) w \<Longrightarrow>
   live_inv s \<Longrightarrow> set (ts_clients s) \<subseteq> {Cl_idle, Cl_spawning} \<Longrightarrow> joiner_ready s"
  unfolding joiner_ready_def by blast

lemma joiner_set_pc:
  \<comment> \<open>a step that writes the joiner and the place of one thread\<close>
  assumes "t < length (ts_threads s)" "live_inv s" "set (ts_clients s) \<subseteq> {Cl_idle, Cl_spawning}"
    and "lock_inv (length (ts_threads s)) ((pcs s)(t := p)) m"
    and "join_inv (length (ts_threads s)) ((pcs s)(t := p)) (jns s) w"
  shows "joiner_ready (set_pc t p (s\<lparr>ts_joiner := Some \<lparr>jo_thread = w, jo_mutex = Some m\<rparr>\<rparr>))"
  by (rule joiner_readyI [of _ w m]) (use assms in \<open>simp_all add: pcs_set_pc jns_set_pc live_set_pc\<close>)

lemma joiner_same: "ts_joiner s = Some j \<Longrightarrow> s = s\<lparr>ts_joiner := Some j\<rparr>"
  by (cases s) simp

lemma thread_step_ready:
  assumes r: "joiner_ready s" and t: "t < length (ts_threads s)" and st: "nhr_thread_func_priv t s = Some res"
  shows "\<exists>s'. res = Inr s' \<and> joiner_ready s'"
proof -
  obtain w m where j: "ts_joiner s = Some \<lparr>jo_thread = w, jo_mutex = Some m\<rparr>"
    and l: "lock_inv (length (ts_threads s)) (pcs s) m"
    and i: "join_inv (length (ts_threads s)) (pcs s) (jns s) w"
    and lv: "live_inv s" and cl: "set (ts_clients s) \<subseteq> {Cl_idle, Cl_spawning}"
    using r by (rule joiner_readyE)
  note step = joiner_set_pc [OF t lv cl]
  have same: "set_pc t p s = set_pc t p (s\<lparr>ts_joiner := Some \<lparr>jo_thread = w, jo_mutex = Some m\<rparr>\<rparr>)" for p
    using j by (cases s) simp
  have pc: "thr_pc (ts_threads s ! v) = pcs s v" for v by (simp add: pcs_def)
  show ?thesis
  proof (cases "pcs s t")
    case Th_working
    have "\<not> jns s t" using join_invD(1) [OF i t] Th_working by auto
    then have "thr_live (ts_threads s ! t)" using lv t by (simp add: live_inv_def)
    then have "res = Inr (set_pc t Th_locking s)"
      using st Th_working by (simp add: nhr_thread_func_priv_def pc)
    moreover have "joiner_ready (set_pc t Th_locking s)"
      unfolding same using Th_working by (intro step lock_inv_move [OF l] join_inv_move [OF i t]) simp_all
    ultimately show ?thesis by blast
  next
    case Th_locking
    then obtain m' where m': "nhr_mutex_lock t (Some m) = Some m'"
        "res = Inr (set_pc t Th_cleaning (s\<lparr>ts_joiner := Some \<lparr>jo_thread = w, jo_mutex = m'\<rparr>\<rparr>))"
      using st j by (auto simp: nhr_thread_func_priv_def nhr_threads_joiner_add_def pc)
    obtain k where k: "m' = Some k" "lock_inv (length (ts_threads s)) ((pcs s)(t := Th_cleaning)) k"
      using lock_inv_take [OF l t _ _ m'(1), of Th_cleaning] Th_locking by auto
    have "joiner_ready (set_pc t Th_cleaning (s\<lparr>ts_joiner := Some \<lparr>jo_thread = w, jo_mutex = Some k\<rparr>\<rparr>))"
      using Th_locking by (intro step k(2) join_inv_move [OF i t]) simp_all
    with m'(2) k(1) show ?thesis by blast
  next
    case Th_cleaning
    show ?thesis
    proof (cases w)
      case None
      then have "res = Inr (set_pc t Th_storing s)"
        using st j Th_cleaning by (simp add: nhr_thread_func_priv_def nhr_threads_joiner_add_def pc
            nhr_threads_joiner_clean_def on_joiner_def)
      moreover have "joiner_ready (set_pc t Th_storing s)"
        unfolding same using Th_cleaning None
        by (intro step lock_inv_move [OF l] join_inv_move [OF i t]) simp_all
      ultimately show ?thesis by blast
    next
      case (Some u)
      then have "res = Inr (set_pc t (Th_joining u) (s\<lparr>ts_joiner := Some \<lparr>jo_thread = None, jo_mutex = Some m\<rparr>\<rparr>))"
        using st j Th_cleaning by (simp add: nhr_thread_func_priv_def nhr_threads_joiner_add_def pc
            nhr_threads_joiner_clean_def on_joiner_def)
      moreover have "joiner_ready (set_pc t (Th_joining u) (s\<lparr>ts_joiner := Some \<lparr>jo_thread = None, jo_mutex = Some m\<rparr>\<rparr>))"
        using Th_cleaning by (intro step lock_inv_move [OF l] join_inv_take [OF i [unfolded Some] t _ l]) simp_all
      ultimately show ?thesis by blast
    qed
  next
    case (Th_joining u)
    have u: "u < length (ts_threads s)" "\<not> jns s u" using join_invD(3) [OF i t Th_joining] by simp_all
    then have ok: "thr_live (ts_threads s ! u)" "\<not> thr_joined (ts_threads s ! u)"
      using lv by (simp_all add: live_inv_def jns_def)
    let ?u = "s\<lparr>ts_threads := (ts_threads s)[u := (ts_threads s ! u)\<lparr>thr_live := False, thr_joined := True\<rparr>]\<rparr>"
    have ex: "pcs s u = Th_exited" and res: "res = Inr (set_pc t Th_storing ?u)"
      using st Th_joining u(1) ok
      by (auto simp: nhr_thread_func_priv_def nhr_threads_joiner_add_def pc joiner_join_def Let_def
          split: if_splits)
    have upd: "pcs ?u = pcs s" "jns ?u = (jns s)(u := True)" "length (ts_threads ?u) = length (ts_threads s)"
      using u(1) by (auto simp: pcs_def jns_def fun_eq_iff nth_list_update)
    have lu: "live_inv ?u"
      using lv u(1) unfolding live_inv_def upd(2,3) by (simp add: nth_list_update)
    have "joiner_ready (set_pc t Th_storing ?u)"
    proof (rule joiner_readyI [of _ w m])
      show "lock_inv (length (ts_threads (set_pc t Th_storing ?u))) (pcs (set_pc t Th_storing ?u)) m"
        using lock_inv_move [OF l, of Th_storing t] Th_joining t by (simp add: pcs_set_pc upd(1))
      show "join_inv (length (ts_threads (set_pc t Th_storing ?u))) (pcs (set_pc t Th_storing ?u))
          (jns (set_pc t Th_storing ?u)) w"
        using join_inv_joined [OF i t Th_joining ex l] t by (simp add: pcs_set_pc jns_set_pc upd(1,2))
    qed (use j cl lu t in \<open>simp_all add: live_set_pc\<close>)
    with res show ?thesis by blast
  next
    case Th_storing
    then have "res = Inr (set_pc t Th_unlocking (s\<lparr>ts_joiner := Some \<lparr>jo_thread = Some t, jo_mutex = Some m\<rparr>\<rparr>))"
      using st j by (simp add: nhr_thread_func_priv_def nhr_threads_joiner_add_def pc joiner_store_def on_joiner_def)
    moreover have "joiner_ready (set_pc t Th_unlocking (s\<lparr>ts_joiner := Some \<lparr>jo_thread = Some t, jo_mutex = Some m\<rparr>\<rparr>))"
      using Th_storing by (intro step lock_inv_move [OF l] join_inv_store [OF i t _ l]) simp_all
    ultimately show ?thesis by blast
  next
    case Th_unlocking
    obtain k where k: "nhr_mutex_unlock t (Some m) = Some k"
        "lock_inv (length (ts_threads s)) ((pcs s)(t := Th_returning)) k"
      using lock_inv_give [OF l t, of Th_returning] Th_unlocking by auto
    then have "res = Inr (set_pc t Th_returning (s\<lparr>ts_joiner := Some \<lparr>jo_thread = w, jo_mutex = Some k\<rparr>\<rparr>))"
      using st j Th_unlocking by (simp add: nhr_thread_func_priv_def nhr_threads_joiner_add_def pc on_joiner_def)
    moreover have "joiner_ready (set_pc t Th_returning (s\<lparr>ts_joiner := Some \<lparr>jo_thread = w, jo_mutex = Some k\<rparr>\<rparr>))"
      using Th_unlocking by (intro step k(2) join_inv_move [OF i t]) simp_all
    ultimately show ?thesis by blast
  next
    case Th_returning
    then have "res = Inr (set_pc t Th_exited s)" using st by (simp add: nhr_thread_func_priv_def pc)
    moreover have "joiner_ready (set_pc t Th_exited s)"
      unfolding same using Th_returning by (intro step lock_inv_move [OF l] join_inv_move [OF i t]) simp_all
    ultimately show ?thesis by blast
  next
    case Th_exited
    with st show ?thesis by (simp add: nhr_thread_func_priv_def pc)
  qed
qed

lemma lock_inv_cong: "lock_inv n pc m \<Longrightarrow> (\<And>t. t < n \<Longrightarrow> pc' t = pc t) \<Longrightarrow> lock_inv n pc' m"
  unfolding lock_inv_def by (elim disjE exE conjE) (simp, metis)

lemma join_inv_cong:
  assumes "join_inv n pc jn w" "\<And>t. t < n \<Longrightarrow> pc' t = pc t" "\<And>t. t < n \<Longrightarrow> jn' t = jn t"
  shows "join_inv n pc' jn' w"
proof (rule join_invI)
  fix t u assume "t < n" "pc' t = Th_joining u"
  with join_invD(3) [OF assms(1), of t u] assms(2,3)
  show "w = None \<and> u < n \<and> \<not> jn' u \<and> (pc' u = Th_returning \<or> pc' u = Th_exited)" by auto
next
  fix t assume "t < n" "finished (pc' t)" "\<not> jn' t"
  with join_invD(2) [OF assms(1), of t] assms(2,3) show "w = Some t \<or> (\<exists>u < n. pc' u = Th_joining t)" by auto
next
  fix t assume "w = Some t"
  with join_invD(5) [OF assms(1), of t] assms(2,3) show "t < n \<and> \<not> jn' t \<and> finished (pc' t)" by auto
qed (use join_invD(1,4) [OF assms(1)] assms(2,3) in auto)

lemma spawn_ready:
  assumes "joiner_ready s" "set cs \<subseteq> {Cl_idle, Cl_spawning}"
  shows "joiner_ready (s\<lparr>ts_threads := ts_threads s
      @ [\<lparr>thr_pc = Th_working, thr_live = True, thr_joined = False\<rparr>], ts_clients := cs\<rparr>)" (is "joiner_ready ?s")
  using assms(1)
proof (rule joiner_readyE)
  fix w m
  assume j: "ts_joiner s = Some \<lparr>jo_thread = w, jo_mutex = Some m\<rparr>"
    and l: "lock_inv (length (ts_threads s)) (pcs s) m"
    and i: "join_inv (length (ts_threads s)) (pcs s) (jns s) w" and lv: "live_inv s"
  let ?n = "length (ts_threads s)"
  have p: "pcs ?s t = ((pcs s)(?n := Th_working)) t" "jns ?s t = ((jns s)(?n := False)) t" if "t < Suc ?n" for t
    using that by (simp_all add: pcs_def jns_def nth_append)
  show ?thesis
  proof (rule joiner_readyI)
    show "ts_joiner ?s = Some \<lparr>jo_thread = w, jo_mutex = Some m\<rparr>" using j by simp
    show "lock_inv (length (ts_threads ?s)) (pcs ?s) m"
      using lock_inv_cong [OF lock_inv_new [OF l] p(1)] by simp
    show "join_inv (length (ts_threads ?s)) (pcs ?s) (jns ?s) w"
      using join_inv_cong [OF join_inv_new [OF i] p] by simp
    show "live_inv ?s"
      using lv by (simp add: live_inv_def jns_def nth_append less_Suc_eq all_conj_distrib)
    show "set (ts_clients ?s) \<subseteq> {Cl_idle, Cl_spawning}" using assms(2) by simp
  qed
qed

lemma clients_ready: "joiner_ready s \<Longrightarrow> set cs \<subseteq> {Cl_idle, Cl_spawning} \<Longrightarrow> joiner_ready (s\<lparr>ts_clients := cs\<rparr>)"
  by (erule joiner_readyE) (rule joiner_readyI, simp_all)

lemma set_client_sub: "set cs \<subseteq> A \<Longrightarrow> p \<in> A \<Longrightarrow> set (cs[c := p]) \<subseteq> A"
  using set_update_subset_insert [of cs c p] by auto

lemma client_step_ready:
  assumes r: "joiner_ready s" and c: "c < length (ts_clients s)" and st: "nhr_thread_create mc ok c s = Inr s'"
  shows "joiner_ready s'"
proof -
  have cl: "set (ts_clients s) \<subseteq> {Cl_idle, Cl_spawning}" and j: "ts_joiner s \<noteq> None"
    using r by (auto simp: joiner_ready_def)
  have "ts_clients s ! c \<in> set (ts_clients s)" using c by simp
  with cl consider (idle) "ts_clients s ! c = Cl_idle" | (spawning) "ts_clients s ! c = Cl_spawning" by blast
  then show ?thesis
  proof cases
    case idle
    then have "s' = s\<lparr>ts_clients := (ts_clients s)[c := Cl_spawning]\<rparr>"
      using st j by (simp add: nhr_thread_create_def nhr_threads_joiner_create_ifneed_def set_client_def)
    with clients_ready [OF r] set_client_sub [OF cl] show ?thesis by simp
  next
    case spawning
    then have "s' = s\<lparr>ts_threads := ts_threads s
      @ [\<lparr>thr_pc = Th_working, thr_live = True, thr_joined = False\<rparr>], ts_clients := (ts_clients s)[c := Cl_idle]\<rparr>"
      using st by (auto simp: nhr_thread_create_def set_client_def r_bind_Inr_conv)
    with spawn_ready [OF r] set_client_sub [OF cl] show ?thesis by simp
  qed
qed

lemma client_step_absent:
  assumes a: "joiner_absent s" and c: "c < length (ts_clients s)" and st: "nhr_thread_create mc ok c s = Inr s'"
  shows "joiner_ready s' \<or> joiner_absent s'"
proof -
  have t: "ts_threads s = []" and c0: "c = 0" using a c by (auto simp: joiner_absent_def)
  from a consider (idle) "ts_clients s = [Cl_idle]" "ts_joiner s = None"
    | (making) "ts_clients s = [Cl_making]" "ts_joiner s = None"
    | (mutex) "ts_clients s = [Cl_mutex]" "ts_joiner s = Some \<lparr>jo_thread = None, jo_mutex = None\<rparr>"
    by (auto simp: joiner_absent_def)
  then show ?thesis
  proof cases
    case idle
    with st t c0 show ?thesis
      by (auto simp: nhr_thread_create_def nhr_threads_joiner_create_ifneed_def set_client_def joiner_absent_def)
  next
    case making
    with st t c0 show ?thesis
      by (auto simp: nhr_thread_create_def nhr_threads_joiner_create_ifneed_def set_client_def joiner_absent_def
          r_bind_Inr_conv)
  next
    case mutex
    with st t c0 have "s' = s\<lparr>ts_clients := [Cl_spawning],
        ts_joiner := Some \<lparr>jo_thread = None, jo_mutex = Some free_mutex\<rparr>\<rparr>"
      by (auto simp: nhr_thread_create_def nhr_threads_joiner_create_ifneed_def set_client_def
          r_bind_Inr_conv on_joiner_def nhr_mutex_create_recursive_def)
    then have "joiner_ready s'"
      using t by (simp add: joiner_ready_def lock_inv_def join_inv_def live_inv_def)
    then show ?thesis ..
  qed
qed

inductive_cases th_stepE: "th_step mc s s'"

lemma joiner_step:
  assumes "joiner_ready s \<or> joiner_absent s" "th_step mc s s'"
  shows "joiner_ready s' \<or> joiner_absent s'"
  using assms(2)
proof cases
  case (thread t)
  then have "joiner_ready s" using assms(1) by (auto simp: joiner_absent_def)
  from thread_step_ready [OF this thread] show ?thesis by simp
next
  case (client c ok)
  with assms(1) client_step_ready [of s c mc ok s'] client_step_absent [of s c mc ok s'] show ?thesis by blast
qed

interpretation joiner: step_system th_start "th_step mc" "\<lambda>s. joiner_ready s \<or> joiner_absent s" for mc
  by unfold_locales (erule joiner_start, erule (1) joiner_step)

section \<open>What a ready joiner guarantees\<close>

lemma unjoined_ready:
  assumes "joiner_ready s'"
    and "t < length (ts_threads s')" "thr_pc (ts_threads s' ! t) = Th_exited"
    and "u < length (ts_threads s')" "thr_pc (ts_threads s' ! u) = Th_exited" "t \<noteq> u"
  shows "thr_joined (ts_threads s' ! t) \<and> \<not> thr_live (ts_threads s' ! t)
    \<or> thr_joined (ts_threads s' ! u) \<and> \<not> thr_live (ts_threads s' ! u)"
proof -
  obtain w m where l: "lock_inv (length (ts_threads s')) (pcs s') m"
    and i: "join_inv (length (ts_threads s')) (pcs s') (jns s') w" and lv: "live_inv s'"
    using assms(1) by (rule joiner_readyE)
  have "jns s' t \<or> jns s' u"
  proof (rule ccontr)
    assume n: "\<not> (jns s' t \<or> jns s' u)"
    have at: "w = Some t \<or> (\<exists>x < length (ts_threads s'). pcs s' x = Th_joining t)"
      using join_invD(2) [OF i assms(2)] n assms(3) by (simp add: pcs_def)
    have au: "w = Some u \<or> (\<exists>x < length (ts_threads s'). pcs s' x = Th_joining u)"
      using join_invD(2) [OF i assms(4)] n assms(5) by (simp add: pcs_def)
    have no: "w = None" if "x < length (ts_threads s')" "pcs s' x = Th_joining v" for x v
      using join_invD(3) [OF i that] by simp
    from at au no assms(6) obtain x y where xy: "x < length (ts_threads s')" "pcs s' x = Th_joining t"
        "y < length (ts_threads s')" "pcs s' y = Th_joining u" by (metis option.distinct(1) option.inject)
    then have "x \<noteq> y" using assms(6) by auto
    with crit_unique [OF l xy(1) _ xy(3)] xy show False by simp
  qed
  with lv assms(2,4) show ?thesis by (auto simp: live_inv_def jns_def)
qed

lemma progress_ready:
  assumes "joiner_ready s'"
    and "t < length (ts_threads s')" "thr_pc (ts_threads s' ! t) \<noteq> Th_exited"
  shows "\<exists>u < length (ts_threads s'). \<exists>s''. nhr_thread_func_priv u s' = Some (Inr s'')"
proof -
  let ?n = "length (ts_threads s')"
  obtain w m where j: "ts_joiner s' = Some \<lparr>jo_thread = w, jo_mutex = Some m\<rparr>"
    and l: "lock_inv ?n (pcs s') m" and i: "join_inv ?n (pcs s') (jns s') w" and lv: "live_inv s'"
    using assms(1) by (rule joiner_readyE)
  have pc: "thr_pc (ts_threads s' ! v) = pcs s' v" for v by (simp add: pcs_def)
  note defs = nhr_thread_func_priv_def nhr_threads_joiner_add_def pc
  have go: "\<exists>u < ?n. \<exists>res. nhr_thread_func_priv u s' = Some res"
  proof (cases "\<exists>v < ?n. crit (pcs s' v)")
    case True
    then obtain v where v: "v < ?n" "crit (pcs s' v)" by blast
    show ?thesis
    proof (cases "pcs s' v")
      case (Th_joining x)
      have x: "x < ?n" "pcs s' x = Th_returning \<or> pcs s' x = Th_exited" "\<not> jns s' x"
        using join_invD(3) [OF i v(1) Th_joining] by simp_all
      show ?thesis
      proof (cases "pcs s' x = Th_returning")
        case True
        then have "nhr_thread_func_priv x s' = Some (Inr (set_pc x Th_exited s'))" by (simp add: defs)
        with x(1) show ?thesis by blast
      next
        case False
        with x Th_joining have "nhr_thread_func_priv v s' \<noteq> None"
          by (auto simp: defs joiner_join_def Let_def)
        with v(1) show ?thesis by blast
      qed
    qed (use v in \<open>auto simp: defs intro!: exI [of _ v]\<close>)
  next
    case False
    with l have m: "m = free_mutex" by (auto simp: lock_inv_def)
    have "nhr_thread_func_priv t s' \<noteq> None"
      using assms(2,3) False j m by (cases "pcs s' t") (auto simp: defs nhr_mutex_lock_def)
    with assms(2) show ?thesis by blast
  qed
  then obtain u res where "u < ?n" "nhr_thread_func_priv u s' = Some res" by blast
  with thread_step_ready [OF assms(1) this] show ?thesis by blast
qed

section \<open>The guarantees\<close>

text \<open>
  In every interleaving of the threads with the clients that create them, from a start with one first client
  or with the joiner already made, no step of a thread goes wrong: no thread is joined twice, none is
  joined or used after its block is freed, and the joiner is there whenever it is used.
\<close>

theorem threads_never_fault:
  assumes "th_start s" "(th_step mc)\<^sup>*\<^sup>* s s'" "t < length (ts_threads s')"
  shows "nhr_thread_func_priv t s' \<noteq> Some (Inl f)"
proof
  assume st: "nhr_thread_func_priv t s' = Some (Inl f)"
  have "joiner_ready s' \<or> joiner_absent s'" using joiner.reachable_inv [OF assms(1,2)] .
  with assms(3) have "joiner_ready s'" by (auto simp: joiner_absent_def)
  from thread_step_ready [OF this assms(3) st] show False by simp
qed

text \<open>
  C30: when one client makes the first thread, or the joiner has been made already by whatever number
  of clients there are, at most one thread is finished and not yet joined; every other finished
  thread has been joined and its block freed. (When two clients make their first threads at once this
  fails, see \<open>first_threads_race\<close>.)
\<close>

theorem one_thread_unjoined:
  assumes "th_start s" "(th_step mc)\<^sup>*\<^sup>* s s'"
    and "t < length (ts_threads s')" "thr_pc (ts_threads s' ! t) = Th_exited"
    and "u < length (ts_threads s')" "thr_pc (ts_threads s' ! u) = Th_exited" "t \<noteq> u"
  shows "thr_joined (ts_threads s' ! t) \<and> \<not> thr_live (ts_threads s' ! t)
    \<or> thr_joined (ts_threads s' ! u) \<and> \<not> thr_live (ts_threads s' ! u)"
proof -
  have "joiner_ready s' \<or> joiner_absent s'" using joiner.reachable_inv [OF assms(1,2)] .
  with assms(3) have "joiner_ready s'" by (auto simp: joiner_absent_def)
  from unjoined_ready [OF this assms(3-7)] show ?thesis .
qed

text \<open>
  C31: no deadlock, from a start with one first client or with the joiner already made: as long as a
  thread has not exited, some thread can take its next step; the one that holds the mutex never waits
  for a thread that needs it.
\<close>

theorem threads_progress:
  assumes "th_start s" "(th_step mc)\<^sup>*\<^sup>* s s'"
    and "t < length (ts_threads s')" "thr_pc (ts_threads s' ! t) \<noteq> Th_exited"
  shows "\<exists>u < length (ts_threads s'). \<exists>s''. nhr_thread_func_priv u s' = Some (Inr s'')"
proof -
  have "joiner_ready s' \<or> joiner_absent s'" using joiner.reachable_inv [OF assms(1,2)] .
  with assms(3) have "joiner_ready s'" by (auto simp: joiner_absent_def)
  from progress_ready [OF this assms(3,4)] show ?thesis .
qed

section \<open>Two first threads at the same time\<close>

definition lost :: "nat \<Rightarrow> threads \<Rightarrow> bool" where
  \<comment> \<open>an exited thread that is not joined and that nobody knows\<close>
  "lost t s \<longleftrightarrow> t < length (ts_threads s) \<and> pcs s t = Th_exited \<and> \<not> jns s t
     \<and> (case ts_joiner s of None \<Rightarrow> True | Some j \<Rightarrow> jo_thread j \<noteq> Some t)
     \<and> (\<forall>u < length (ts_threads s). pcs s u \<noteq> Th_joining t)"

lemma lost_set_pc:
  assumes "lost t s" "v < length (ts_threads s)" "v \<noteq> t" "p \<noteq> Th_joining t"
  shows "lost t (set_pc v p s)"
  using assms by (auto simp: lost_def pcs_set_pc jns_set_pc)

lemma lost_joiner:
  "lost t s \<Longrightarrow> (case j of None \<Rightarrow> True | Some j \<Rightarrow> jo_thread j \<noteq> Some t) \<Longrightarrow> lost t (s\<lparr>ts_joiner := j\<rparr>)"
  by (simp add: lost_def)

lemma lost_client: "lost t s \<Longrightarrow> lost t (s\<lparr>ts_clients := cs\<rparr>)"
  by (simp add: lost_def)

lemma lost_new:
  assumes "lost t s"
  shows "lost t (s\<lparr>ts_threads := ts_threads s @ [\<lparr>thr_pc = Th_working, thr_live = True, thr_joined = False\<rparr>]\<rparr>)"
  using assms by (auto simp: lost_def pcs_def jns_def nth_append less_Suc_eq)

lemma lost_joined:
  assumes "lost t s" "u \<noteq> t" "u < length (ts_threads s)"
  shows "lost t (s\<lparr>ts_threads := (ts_threads s)[u := (ts_threads s ! u)\<lparr>thr_live := a, thr_joined := b\<rparr>]\<rparr>)"
  using assms by (auto simp: lost_def pcs_def jns_def nth_list_update)

lemma lost_thread_step:
  assumes l: "lost t s" and v: "v < length (ts_threads s)" and st: "nhr_thread_func_priv v s = Some (Inr s')"
  shows "lost t s'"
proof -
  have pc: "thr_pc (ts_threads s ! x) = pcs s x" for x by (simp add: pcs_def)
  have vt: "v \<noteq> t" using st l by (auto simp: nhr_thread_func_priv_def pc lost_def)
  note move = lost_set_pc [OF _ _ vt]
  note defs = nhr_thread_func_priv_def nhr_threads_joiner_add_def nhr_threads_joiner_clean_def joiner_store_def
    on_joiner_def pc
  have jt: "jo_thread j \<noteq> Some t" if "ts_joiner s = Some j" for j using l that by (simp add: lost_def)
  show ?thesis
  proof (cases "pcs s v")
    case Th_working
    with st have "s' = set_pc v Th_locking s" by (auto simp: defs split: if_splits)
    with move [OF l v] show ?thesis by simp
  next
    case Th_locking
    with st obtain j m where "ts_joiner s = Some j" "s' = set_pc v Th_cleaning (s\<lparr>ts_joiner := Some (j\<lparr>jo_mutex := m\<rparr>)\<rparr>)"
      by (auto simp: defs split: option.splits)
    with move [OF lost_joiner [OF l]] v jt show ?thesis by simp
  next
    case Th_cleaning
    then obtain j where j: "ts_joiner s = Some j" using st by (cases "ts_joiner s") (simp_all add: defs)
    show ?thesis
    proof (cases "jo_thread j")
      case None
      with st Th_cleaning j have "s' = set_pc v Th_storing s" by (simp add: defs)
      with move [OF l v] show ?thesis by simp
    next
      case (Some u)
      with st Th_cleaning j have "s' = set_pc v (Th_joining u) (s\<lparr>ts_joiner := Some (j\<lparr>jo_thread := None\<rparr>)\<rparr>)"
        by (simp add: defs)
      with move [OF lost_joiner [OF l]] v jt [OF j] Some show ?thesis by simp
    qed
  next
    case (Th_joining u)
    have u: "u \<noteq> t" using l v Th_joining by (auto simp: lost_def)
    from st Th_joining have "u < length (ts_threads s)" "s' = set_pc v Th_storing
        (s\<lparr>ts_threads := (ts_threads s)[u := (ts_threads s ! u)\<lparr>thr_live := False, thr_joined := True\<rparr>]\<rparr>)"
      by (auto simp: defs joiner_join_def Let_def split: if_splits)
    with move [OF lost_joined [OF l u]] v show ?thesis by simp
  next
    case Th_storing
    with st obtain j where "s' = set_pc v Th_unlocking (s\<lparr>ts_joiner := Some (j\<lparr>jo_thread := Some v\<rparr>)\<rparr>)"
      by (auto simp: defs split: option.splits)
    with move [OF lost_joiner [OF l]] v vt show ?thesis by simp
  next
    case Th_unlocking
    with st obtain j where "ts_joiner s = Some j"
        "s' = set_pc v Th_returning (s\<lparr>ts_joiner := Some (j\<lparr>jo_mutex := nhr_mutex_unlock v (jo_mutex j)\<rparr>)\<rparr>)"
      by (auto simp: defs split: option.splits)
    with move [OF lost_joiner [OF l]] v jt show ?thesis by simp
  next
    case Th_returning
    with st have "s' = set_pc v Th_exited s" by (simp add: defs)
    with move [OF l v] show ?thesis by simp
  next
    case Th_exited
    with st show ?thesis by (simp add: defs)
  qed
qed

lemma lost_client_step:
  assumes l: "lost t s" and st: "nhr_thread_create mc ok c s = Inr s'"
  shows "lost t s'"
proof -
  have jt: "jo_thread j \<noteq> Some t" if "ts_joiner s = Some j" for j using l that by (simp add: lost_def)
  show ?thesis
  proof (cases "ts_clients s ! c")
    case Cl_idle
    then obtain cs where "s' = s\<lparr>ts_clients := cs\<rparr>"
      using st by (auto simp: nhr_thread_create_def nhr_threads_joiner_create_ifneed_def set_client_def)
    with lost_client [OF l] show ?thesis by simp
  next
    case Cl_making
    then obtain cs where "s' = s\<lparr>ts_joiner := Some \<lparr>jo_thread = None, jo_mutex = None\<rparr>, ts_clients := cs\<rparr>"
      using st by (auto simp: nhr_thread_create_def nhr_threads_joiner_create_ifneed_def set_client_def r_bind_Inr_conv)
    with lost_client [OF lost_joiner [OF l]] show ?thesis by simp
  next
    case Cl_mutex
    then obtain j m cs where "ts_joiner s = Some j" "s' = s\<lparr>ts_joiner := Some (j\<lparr>jo_mutex := m\<rparr>), ts_clients := cs\<rparr>"
      using st by (auto simp: nhr_thread_create_def nhr_threads_joiner_create_ifneed_def set_client_def
          r_bind_Inr_conv on_joiner_def split: option.splits)
    with lost_client [OF lost_joiner [OF l]] jt show ?thesis by simp
  next
    case Cl_spawning
    then obtain cs where "s' = s\<lparr>ts_threads := ts_threads s
        @ [\<lparr>thr_pc = Th_working, thr_live = True, thr_joined = False\<rparr>], ts_clients := cs\<rparr>"
      using st by (auto simp: nhr_thread_create_def set_client_def r_bind_Inr_conv)
    with lost_client [OF lost_new [OF l]] show ?thesis by simp
  qed
qed

lemma lost_step: "lost t s \<Longrightarrow> th_step mc s s' \<Longrightarrow> lost t s'"
  by (erule th_stepE) (blast intro: lost_thread_step lost_client_step)+

interpretation forgotten: step_system "lost t" "th_step mc" "lost t" for t mc
  by unfold_locales (assumption, rule lost_step)

section \<open>Runs to look at\<close>

datatype action = Thread_step nat | Client_step nat

fun th_run :: "'m mach_scheme \<Rightarrow> action list \<Rightarrow> threads \<Rightarrow> threads option" where
  "th_run mc [] s = Some s"
| "th_run mc (Thread_step t # as) s =
     (if t < length (ts_threads s)
      then (case nhr_thread_func_priv t s of Some (Inr s') \<Rightarrow> th_run mc as s' | _ \<Rightarrow> None) else None)"
| "th_run mc (Client_step c # as) s =
     (if c < length (ts_clients s)
      then (case nhr_thread_create mc True c s of Inr s' \<Rightarrow> th_run mc as s' | _ \<Rightarrow> None) else None)"

lemma th_run_steps: "th_run mc as s = Some s' \<Longrightarrow> (th_step mc)\<^sup>*\<^sup>* s s'"
proof (induction mc as s rule: th_run.induct)
  case (2 mc t as s)
  then obtain s1 where s1: "t < length (ts_threads s)" "nhr_thread_func_priv t s = Some (Inr s1)" "th_run mc as s1 = Some s'"
    by (auto split: if_splits option.splits sum.splits)
  from th_step.thread [OF s1(1,2)] 2(1) [OF s1(1,2) refl s1(3)] show ?case by (rule converse_rtranclp_into_rtranclp)
next
  case (3 mc c as s)
  then obtain s1 where s1: "c < length (ts_clients s)" "nhr_thread_create mc True c s = Inr s1" "th_run mc as s1 = Some s'"
    by (auto split: if_splits sum.splits)
  from th_step.client [OF s1(1,2)] 3(1) [OF s1(1,2,3)] show ?case by (rule converse_rtranclp_into_rtranclp)
qed simp

definition thread_mach :: mach where "thread_mach = \<lparr>mc_fill = NUL, mc_limit = 4096\<rparr>"

text \<open>One client, two threads: the second joins the first.\<close>

definition two_threads :: threads where
  "two_threads = \<lparr>ts_joiner = Some \<lparr>jo_thread = Some 1, jo_mutex = Some free_mutex\<rparr>,
     ts_threads = [\<lparr>thr_pc = Th_exited, thr_live = False, thr_joined = True\<rparr>,
                   \<lparr>thr_pc = Th_exited, thr_live = True, thr_joined = False\<rparr>],
     ts_clients = [Cl_idle]\<rparr>"

lemma two_threads_run:
  "th_run thread_mach (replicate 4 (Client_step 0) @ replicate 2 (Client_step 0)
     @ replicate 6 (Thread_step 0) @ replicate 7 (Thread_step 1)) (th_init 1) = Some two_threads"
  by (simp add: eval_nat_numeral th_init_def thread_mach_def two_threads_def nhr_thread_create_def
      nhr_threads_joiner_create_ifneed_def set_client_def nhr_malloc_zero_def nhr_malloc_def sizeof_joiner_def
      sizeof_mutex_def sizeof_thread_def nhr_mutex_create_recursive_def on_joiner_def nhr_thread_func_priv_def
      nhr_threads_joiner_add_def nhr_threads_joiner_clean_def joiner_join_def joiner_store_def set_pc_def
      nhr_mutex_lock_def nhr_mutex_unlock_def Let_def)

lemma two_threads_reached: "th_start (th_init 1)" "(th_step thread_mach)\<^sup>*\<^sup>* (th_init 1) two_threads"
  by (simp add: th_start_def) (rule th_run_steps [OF two_threads_run])

theorem threads_never_fault_witness:
  "nhr_thread_func_priv 1 two_threads \<noteq> Some (Inl BadPointer)"
  by (rule threads_never_fault [OF two_threads_reached]) (simp add: two_threads_def)

theorem one_thread_unjoined_witness:
  "thr_joined (ts_threads two_threads ! 0) \<and> \<not> thr_live (ts_threads two_threads ! 0)
     \<or> thr_joined (ts_threads two_threads ! 1) \<and> \<not> thr_live (ts_threads two_threads ! 1)"
  by (rule one_thread_unjoined [OF two_threads_reached]) (simp_all add: two_threads_def)

text \<open>One client, one thread, in the middle of its work.\<close>

definition one_thread :: threads where
  "one_thread = \<lparr>ts_joiner = Some \<lparr>jo_thread = None, jo_mutex = Some \<lparr>mx_owner = Some 0, mx_depth = 1\<rparr>\<rparr>,
     ts_threads = [\<lparr>thr_pc = Th_cleaning, thr_live = True, thr_joined = False\<rparr>], ts_clients = [Cl_idle]\<rparr>"

lemma one_thread_run:
  "th_run thread_mach (replicate 4 (Client_step 0) @ replicate 2 (Thread_step 0)) (th_init 1) = Some one_thread"
  by (simp add: eval_nat_numeral th_init_def thread_mach_def one_thread_def nhr_thread_create_def
      nhr_threads_joiner_create_ifneed_def set_client_def nhr_malloc_zero_def nhr_malloc_def sizeof_joiner_def
      sizeof_mutex_def sizeof_thread_def nhr_mutex_create_recursive_def on_joiner_def nhr_thread_func_priv_def
      nhr_threads_joiner_add_def set_pc_def nhr_mutex_lock_def)

theorem threads_progress_witness:
  "\<exists>u < length (ts_threads one_thread). \<exists>s''. nhr_thread_func_priv u one_thread = Some (Inr s'')"
  by (rule threads_progress [OF two_threads_reached(1) th_run_steps [OF one_thread_run], of 0])
     (simp_all add: one_thread_def)

text \<open>
  C36: two clients that create their first threads at the same time both see that there is no
  joiner. The second joiner then replaces the first with the thread that has left itself
  there, and this thread is never joined, whatever happens later.
\<close>

theorem first_threads_race:
  "\<exists>s. (th_step thread_mach)\<^sup>*\<^sup>* (th_init 2) s \<and> thr_pc (ts_threads s ! 0) = Th_exited
     \<and> (\<forall>s'. (th_step thread_mach)\<^sup>*\<^sup>* s s' \<longrightarrow> \<not> thr_joined (ts_threads s' ! 0))"
proof -
  let ?acts = "Client_step 1 # replicate 4 (Client_step 0) @ replicate 6 (Thread_step 0) @ [Client_step 1]"
  let ?s = "\<lparr>ts_joiner = Some \<lparr>jo_thread = None, jo_mutex = None\<rparr>,
     ts_threads = [\<lparr>thr_pc = Th_exited, thr_live = True, thr_joined = False\<rparr>], ts_clients = [Cl_idle, Cl_mutex]\<rparr>"
  have "th_run thread_mach ?acts (th_init 2) = Some ?s"
    by (simp add: eval_nat_numeral th_init_def thread_mach_def nhr_thread_create_def
        nhr_threads_joiner_create_ifneed_def set_client_def nhr_malloc_zero_def nhr_malloc_def sizeof_joiner_def
        sizeof_mutex_def sizeof_thread_def nhr_mutex_create_recursive_def on_joiner_def nhr_thread_func_priv_def
        nhr_threads_joiner_add_def nhr_threads_joiner_clean_def joiner_store_def set_pc_def nhr_mutex_lock_def
        nhr_mutex_unlock_def)
  then have "(th_step thread_mach)\<^sup>*\<^sup>* (th_init 2) ?s" by (rule th_run_steps)
  moreover have "lost 0 ?s" by (simp add: lost_def pcs_def jns_def)
  then have "\<not> thr_joined (ts_threads s' ! 0)" if "(th_step thread_mach)\<^sup>*\<^sup>* ?s s'" for s'
    using forgotten.steps_inv [OF that] by (simp add: lost_def jns_def)
  ultimately show ?thesis by (intro exI [of _ ?s]) auto
qed

theorem first_threads_race_witness:
  "\<exists>s. (th_step thread_mach)\<^sup>*\<^sup>* (th_init 2) s \<and> thr_pc (ts_threads s ! 0) = Th_exited
     \<and> \<not> thr_joined (ts_threads s ! 0)"
proof -
  obtain s where "(th_step thread_mach)\<^sup>*\<^sup>* (th_init 2) s" "thr_pc (ts_threads s ! 0) = Th_exited"
      "\<forall>s'. (th_step thread_mach)\<^sup>*\<^sup>* s s' \<longrightarrow> \<not> thr_joined (ts_threads s' ! 0)"
    using first_threads_race by blast
  then show ?thesis by blast
qed

end
