(* ===== verification/Nhr_Library_Correct.thy ===== *)
theory Nhr_Library_Correct
  imports Nhr_Library Nhr_Thread_Correct Nhr_Worker_Runs
begin

text \<open>
  The guarantees of the parts hold of the library as a whole: the invariant \<open>lib_inv\<close> joins those of
  the joiner and of the workers by the fact that a thread leaves its function only when its request
  is deleted. From it follow the safety of all interleavings, and that the library drains: when each
  worker reaches its end, all threads end under every schedule and at most one is left to be joined.
\<close>

section \<open>One step of a thread\<close>

fun rank :: "thread_pc \<Rightarrow> nat" where
  \<comment> \<open>the number of steps to the end\<close>
  "rank Th_working = 7"
| "rank Th_locking = 6"
| "rank Th_cleaning = 5"
| "rank (Th_joining _) = 4"
| "rank Th_storing = 3"
| "rank Th_unlocking = 2"
| "rank Th_returning = 1"
| "rank Th_exited = 0"

lemma rank_0 [simp]: "rank p = 0 \<longleftrightarrow> p = Th_exited"
  by (cases p) simp_all

lemma thread_step_frame:
  assumes t: "t < length (ts_threads s)" and st: "nhr_thread_func_priv t s = Some (Inr s')"
  shows "length (ts_threads s') = length (ts_threads s)" "ts_clients s' = ts_clients s"
    "\<And>u. u \<noteq> t \<Longrightarrow> pcs s' u = pcs s u" "rank (pcs s' t) < rank (pcs s t)"
proof -
  note defs = nhr_thread_func_priv_def nhr_threads_joiner_add_def nhr_threads_joiner_clean_def joiner_join_def
    joiner_store_def on_joiner_def Let_def
  have "length (ts_threads s') = length (ts_threads s) \<and> ts_clients s' = ts_clients s
      \<and> (\<forall>u. u \<noteq> t \<longrightarrow> pcs s' u = pcs s u) \<and> rank (pcs s' t) < rank (pcs s t)"
  proof (cases "thr_pc (ts_threads s ! t)")
    case (Th_joining x)
    with st have x: "x < length (ts_threads s)" "thr_pc (ts_threads s ! x) = Th_exited"
        "s' = set_pc t Th_storing (s\<lparr>ts_threads := (ts_threads s)[x := (ts_threads s ! x)\<lparr>thr_live := False, thr_joined := True\<rparr>]\<rparr>)"
      by (auto simp: defs split: if_splits)
    with Th_joining have "x \<noteq> t" by auto
    with x t Th_joining show ?thesis by (auto simp: pcs_def set_pc_def nth_list_update)
  qed (use t st in \<open>auto simp: defs pcs_def set_pc_def nth_list_update split: option.splits if_splits\<close>)
  then show "length (ts_threads s') = length (ts_threads s)" "ts_clients s' = ts_clients s"
    "\<And>u. u \<noteq> t \<Longrightarrow> pcs s' u = pcs s u" "rank (pcs s' t) < rank (pcs s t)" by auto
qed

section \<open>The invariant of the library\<close>

definition lib_inv :: "library \<Rightarrow> bool" where
  "lib_inv s \<longleftrightarrow> (joiner_ready (lb_threads s) \<or> joiner_absent (lb_threads s))
     \<and> length (lb_works s) = length (ts_threads (lb_threads s))
     \<and> (\<forall>t < length (lb_works s). winv (lb_works s ! t) \<and> callbacks_set (lb_works s ! t)
          \<and> (pcs (lb_threads s) t \<noteq> Th_working \<longrightarrow> function_returned t s))"

lemma done_stays: "sys_step mc v v' \<Longrightarrow> sy_pc v = Done \<Longrightarrow> sy_pc v' = Done"
  by (auto elim!: sys_step.cases simp: worker_next_def on_req_def set_command_def)

lemma client_threads:
  assumes "nhr_thread_create mc ok c s = Inr s'" "ts_clients s ! c \<noteq> Cl_spawning"
  shows "ts_threads s' = ts_threads s"
  using assms
  by (cases "ts_clients s ! c")
     (auto simp: nhr_thread_create_def nhr_threads_joiner_create_ifneed_def set_client_def on_joiner_def r_bind_Inr_conv
        split: option.splits)

lemma client_spawns:
  assumes "nhr_thread_create mc ok c s = Inr s'" "ts_clients s ! c = Cl_spawning"
  shows "ts_threads s' = ts_threads s @ [\<lparr>thr_pc = Th_working, thr_live = True, thr_joined = False\<rparr>]"
  using assms by (auto simp: nhr_thread_create_def set_client_def r_bind_Inr_conv)

lemma lib_inv_step:
  assumes i: "lib_inv s" and st: "lib_step mc s s'"
  shows "lib_inv s'"
  using st
proof cases
  case (request t v)
  then have "winv v" "callbacks_set v" "sy_pc (lb_works s ! t) = Done \<Longrightarrow> sy_pc v = Done"
    using i winv_step callbacks_kept done_stays unfolding lib_inv_def by blast+
  with request i show ?thesis
    by (auto simp: lib_inv_def function_returned_def nth_list_update)
next
  case (thread t ts)
  have r: "joiner_ready (lb_threads s)" using i thread(2) by (auto simp: lib_inv_def joiner_absent_def)
  have j: "joiner_ready ts" using thread_step_ready [OF r thread(2,4)] by simp
  note f = thread_step_frame [OF thread(2,4)]
  have "function_returned u s" if u: "u < length (lb_works s)" "pcs ts u \<noteq> Th_working" for u
  proof (cases "u = t")
    case True
    with thread(3) i u(1) show ?thesis by (cases "pcs (lb_threads s) t = Th_working") (auto simp: lib_inv_def pcs_def)
  next
    case False
    with f(3) u i show ?thesis by (auto simp: lib_inv_def)
  qed
  with i j f(1) show ?thesis unfolding thread(1) by (auto simp: lib_inv_def function_returned_def)
next
  case (client c ok ts)
  have "joiner_ready ts \<or> joiner_absent ts"
    using i client_step_ready [OF _ client(2,4)] client_step_absent [OF _ client(2,4)] by (auto simp: lib_inv_def)
  with i client_threads [OF client(4,3)] show ?thesis
    unfolding client(1) by (auto simp: lib_inv_def function_returned_def pcs_def)
next
  case (send c ok ts v)
  have j: "joiner_ready ts \<or> joiner_absent ts"
    using i client_step_ready [OF _ send(2,4)] client_step_absent [OF _ send(2,4)] by (auto simp: lib_inv_def)
  have "winv v" "callbacks_set v" using send(5) winv_init by (auto simp: sent_def)
  with i j client_spawns [OF send(4,3)] show ?thesis
    unfolding send(1) by (auto simp: lib_inv_def function_returned_def pcs_def nth_append less_Suc_eq)
qed

lemma lib_inv_start: "th_start ts \<Longrightarrow> s = lib_start ts \<Longrightarrow> lib_inv s"
  using joiner_start [of ts] by (auto simp: lib_inv_def lib_start_def th_start_def th_init_def th_ready_def)

interpretation library: step_system "\<lambda>s. \<exists>ts. th_start ts \<and> s = lib_start ts" "lib_step mc" lib_inv for mc
  by unfold_locales (auto intro: lib_inv_start lib_inv_step)

section \<open>Draining\<close>

lemma request_runs:
  assumes "t < length (lb_works s)" "(sys_step mc)\<^sup>*\<^sup>* (lb_works s ! t) v"
  shows "(lib_step mc)\<^sup>*\<^sup>* s (s\<lparr>lb_works := (lb_works s)[t := v]\<rparr>)"
  using assms(2)
proof (induction rule: rtranclp_induct)
  case (step u v)
  let ?s = "s\<lparr>lb_works := (lb_works s)[t := u]\<rparr>"
  have "sys_step mc (lb_works ?s ! t) v" using step(2) assms(1) by simp
  from lib_step.request [OF _ this] assms(1) have "lib_step mc ?s (s\<lparr>lb_works := (lb_works s)[t := v]\<rparr>)" by simp
  with step(3) show ?case by (rule rtranclp.rtrancl_into_rtrancl)
qed simp

lemma drain_is_lib: "drain_step mc s s' \<Longrightarrow> lib_step mc s s'"
  by (erule drain_step.cases) (auto intro: lib_step.intros sys_step.worker)

lemma drains_are_lib: "(drain_step mc)\<^sup>*\<^sup>* s s' \<Longrightarrow> (lib_step mc)\<^sup>*\<^sup>* s s'"
  by (rule mono_rtranclp [rule_format, OF drain_is_lib])

lemma relpowp_front: "(R ^^ Suc n) s s' \<longleftrightarrow> (\<exists>u. R s u \<and> (R ^^ n) u s')"
  by (meson relpowp_Suc_D2 relpowp_Suc_I2)

text \<open>Since the worker is deterministic, the number of its steps to the end is that of any of its runs.\<close>

definition ends_in :: "'z gz_mach \<Rightarrow> nat \<Rightarrow> sys \<Rightarrow> bool" where
  "ends_in mc n v \<longleftrightarrow> (\<exists>w. (works mc ^^ n) v w \<and> sy_pc w = Done)"

lemma ends_in_0 [simp]: "ends_in mc 0 v \<longleftrightarrow> sy_pc v = Done"
  by (simp add: ends_in_def)

lemma ends_in_Suc: "ends_in mc (Suc n) v \<longleftrightarrow> (\<exists>u. worker_next mc v = Some u \<and> ends_in mc n u)"
  unfolding ends_in_def relpowp_front works_def by blast

lemma ends_in_next:
  assumes "ends_in mc n v" "worker_next mc v = Some u"
  obtains k where "n = Suc k" "ends_in mc k u"
  using assms by (cases n) (auto simp: ends_in_Suc worker_next_def)

definition steps_left :: "library \<Rightarrow> nat" where
  "steps_left s = (\<Sum>t < length (ts_threads (lb_threads s)). rank (pcs (lb_threads s) t))"

lemma steps_left_thread:
  assumes "t < length (ts_threads (lb_threads s))" "nhr_thread_func_priv t (lb_threads s) = Some (Inr ts)"
  shows "steps_left (s\<lparr>lb_threads := ts\<rparr>) < steps_left s"
proof -
  note f = thread_step_frame [OF assms]
  have "steps_left (s\<lparr>lb_threads := ts\<rparr>) = (\<Sum>u < length (ts_threads (lb_threads s)). rank (pcs ts u))"
    using f(1) by (simp add: steps_left_def)
  also have "\<dots> < steps_left s"
    unfolding steps_left_def
    by (rule sum_strict_mono_ex1) (use assms(1) f(3,4) in \<open>auto intro: less_imp_le le_refl, metis less_imp_le order_refl\<close>)
  finally show ?thesis .
qed

text \<open>Every step of the library left to itself brings a worker or a thread nearer to its end.\<close>

lemma drain_step_nearer:
  assumes "list_all2 (ends_in mc) ns (lb_works s)" "drain_step mc s s'"
  obtains ns' where "list_all2 (ends_in mc) ns' (lb_works s')"
    "sum_list ns' + steps_left s' < sum_list ns + steps_left s"
  using assms(2)
proof cases
  case (worker t v)
  have len: "length ns = length (lb_works s)" using assms(1) by (rule list_all2_lengthD)
  have "ends_in mc (ns ! t) (lb_works s ! t)" using list_all2_nthD2 [OF assms(1) worker(2)] .
  from ends_in_next [OF this worker(3)] obtain k where k: "ns ! t = Suc k" "ends_in mc k v" by blast
  have "sum_list (ns[t := k]) < sum_list ns"
    using k(1) worker(2) len elem_le_sum_list [of t ns] by (simp add: sum_list_update)
  moreover have "steps_left s' = steps_left s" unfolding worker(1) by (simp add: steps_left_def)
  ultimately show thesis
    using k(2) assms(1) by (intro that [of "ns[t := k]"]) (simp_all add: worker(1) list_all2_update_cong)
next
  case (thread t ts)
  show thesis
    using steps_left_thread [OF thread(2,4)] assms(1) by (intro that [of ns]) (simp_all add: thread(1))
qed

lemma drain_bounded:
  "(drain_step mc ^^ k) s s' \<Longrightarrow> list_all2 (ends_in mc) ns (lb_works s) \<Longrightarrow>
   k \<le> sum_list ns + steps_left s \<and> (\<exists>ns'. list_all2 (ends_in mc) ns' (lb_works s'))"
proof (induction k arbitrary: s ns)
  case 0
  then show ?case by auto
next
  case (Suc k)
  obtain s1 where s1: "drain_step mc s s1" "(drain_step mc ^^ k) s1 s'"
    using Suc.prems(1) unfolding relpowp_front by blast
  obtain ns1 where ns1: "list_all2 (ends_in mc) ns1 (lb_works s1)"
      "sum_list ns1 + steps_left s1 < sum_list ns + steps_left s"
    by (rule drain_step_nearer [OF Suc.prems(2) s1(1)])
  from Suc.IH [OF s1(2) ns1(1)] ns1(2) show ?case by auto
qed

lemma drain_length: "(drain_step mc)\<^sup>*\<^sup>* s s' \<Longrightarrow> length (lb_works s') = length (lb_works s)"
  by (induction rule: rtranclp_induct) (auto elim!: drain_step.cases)

text \<open>Where no step is left, all workers and threads have ended.\<close>

lemma drain_end:
  assumes i: "lib_inv s" and ns: "list_all2 (ends_in mc) ns (lb_works s)" and stop: "\<And>s'. \<not> drain_step mc s s'"
    and t: "t < length (lb_works s)"
  shows "sy_pc (lb_works s ! t) = Done" "pcs (lb_threads s) t = Th_exited"
proof -
  have n: "length (lb_works s) = length (ts_threads (lb_threads s))" using i by (simp add: lib_inv_def)
  have d: "sy_pc (lb_works s ! u) = Done" if u: "u < length (lb_works s)" for u
  proof (cases "ns ! u")
    case 0
    with list_all2_nthD2 [OF ns u] show ?thesis by simp
  next
    case (Suc k)
    with list_all2_nthD2 [OF ns u] drain_step.worker [OF u] stop show ?thesis by (auto simp: ends_in_Suc)
  qed
  then show "sy_pc (lb_works s ! t) = Done" using t .
  show "pcs (lb_threads s) t = Th_exited"
  proof (rule ccontr)
    assume "pcs (lb_threads s) t \<noteq> Th_exited"
    then have te: "t < length (ts_threads (lb_threads s))" "thr_pc (ts_threads (lb_threads s) ! t) \<noteq> Th_exited"
      using t n by (auto simp: pcs_def)
    then have "joiner_ready (lb_threads s)" using i by (auto simp: lib_inv_def joiner_absent_def)
    from progress_ready [OF this te] obtain u ts where u: "u < length (ts_threads (lb_threads s))"
        "nhr_thread_func_priv u (lb_threads s) = Some (Inr ts)" by blast
    then have "function_returned u s" using d n by (simp add: function_returned_def)
    with drain_step.thread [OF u(1) _ u(2)] stop show False by blast
  qed
qed

lemma bounded_runs_end:
  assumes "\<forall>k s'. (R ^^ k) s s' \<longrightarrow> k \<le> (n :: nat)"
  shows "\<exists>s'. R\<^sup>*\<^sup>* s s' \<and> (\<forall>s''. \<not> R s' s'')"
  using assms
proof (induction n arbitrary: s)
  case 0
  have "\<not> R s s'" for s'
  proof
    assume "R s s'"
    then have "(R ^^ Suc 0) s s'" unfolding relpowp_front by simp
    with 0 have "Suc 0 \<le> 0" by blast
    then show False by simp
  qed
  then show ?case by blast
next
  case (Suc n)
  show ?case
  proof (cases "\<exists>s1. R s s1")
    case True
    then obtain s1 where s1: "R s s1" by blast
    have "k \<le> n" if "(R ^^ k) s1 s'" for k s'
      using Suc.prems relpowp_Suc_I2 [OF s1 that] by fastforce
    with Suc.IH s1 show ?thesis by (meson converse_rtranclp_into_rtranclp)
  qed blast
qed

section \<open>The guarantees\<close>

text \<open>
  C3: in every interleaving of any number of requests, their clients and their threads, from a start with
  one first client, or with the joiner already made and any number of clients: no step of a
  thread in the joiner goes wrong, and a thread leaves its function, and so is joined and freed, only when
  its request has been deleted, with every socket closed and, unless the client has cancelled, exactly one
  callback made.
\<close>

theorem library_safe:
  assumes "th_start ts" "(lib_step mc)\<^sup>*\<^sup>* (lib_start ts) s" "t < length (lb_works s)"
  shows "nhr_thread_func_priv t (lb_threads s) \<noteq> Some (Inl f)
    \<and> (thr_pc (ts_threads (lb_threads s) ! t) \<noteq> Th_working \<or> \<not> thr_live (ts_threads (lb_threads s) ! t) \<longrightarrow>
         last (sy_log (lb_works s ! t)) = Ev_deleted \<and> (\<Sum>e \<leftarrow> sy_log (lb_works s ! t). opens fd e) = 0
         \<and> (sy_cancelled (lb_works s ! t) \<or> length (filter callback_event (sy_log (lb_works s ! t))) = 1))"
proof -
  have i: "lib_inv s" using library.reachable_inv [of "lib_start ts"] assms(1,2) by blast
  then have t: "t < length (ts_threads (lb_threads s))" using assms(3) by (simp add: lib_inv_def)
  then have r: "joiner_ready (lb_threads s)" using i by (auto simp: lib_inv_def joiner_absent_def)
  have w: "winv (lb_works s ! t)" "callbacks_set (lb_works s ! t)"
      "pcs (lb_threads s) t \<noteq> Th_working \<Longrightarrow> sy_pc (lb_works s ! t) = Done"
    using i assms(3) by (auto simp: lib_inv_def function_returned_def)
  have "pcs (lb_threads s) t = Th_exited" if "\<not> thr_live (ts_threads (lb_threads s) ! t)"
    using r
  proof (rule joiner_readyE)
    fix x m assume "join_inv (length (ts_threads (lb_threads s))) (pcs (lb_threads s)) (jns (lb_threads s)) x"
      "live_inv (lb_threads s)"
    with that t show "pcs (lb_threads s) t = Th_exited" by (simp add: live_inv_def join_invD(1))
  qed
  then have "sy_pc (lb_works s ! t) = Done"
    if "thr_pc (ts_threads (lb_threads s) ! t) \<noteq> Th_working \<or> \<not> thr_live (ts_threads (lb_threads s) ! t)"
    using that w(3) by (auto simp: pcs_def)
  then show ?thesis
    using thread_step_ready [OF r t] done_deleted [OF w(1)] done_closed [OF w(1)] done_informs [OF w(1,2)] by auto
qed

text \<open>
  C14: the library drains under every schedule. It has started with one first client, or with the
  joiner already made and any number of clients, and whatever has happened since, the worker of each request
  would reach its end if left alone. Then, once no client sends or cancels any more, no order of the steps
  of workers and threads goes on for ever: there is a bound on the length of all runs, and
  where a run can go no further every request is deleted, every thread has exited, and every thread
  but at most one has been joined and freed.
\<close>

theorem library_drains:
  assumes "th_start ts" "(lib_step mc)\<^sup>*\<^sup>* (lib_start ts) s"
    and "\<forall>t < length (lb_works s). \<exists>v. (works mc)\<^sup>*\<^sup>* (lb_works s ! t) v \<and> sy_pc v = Done"
  shows "(\<exists>n. \<forall>k s'. (drain_step mc ^^ k) s s' \<longrightarrow> k \<le> n)
    \<and> (\<forall>s'. (drain_step mc)\<^sup>*\<^sup>* s s' \<and> (\<forall>s''. \<not> drain_step mc s' s'') \<longrightarrow>
         length (lb_works s') = length (lb_works s)
       \<and> (\<forall>t < length (lb_works s). thr_pc (ts_threads (lb_threads s') ! t) = Th_exited
            \<and> last (sy_log (lb_works s' ! t)) = Ev_deleted)
       \<and> (\<forall>t < length (lb_works s). \<forall>u < length (lb_works s). t \<noteq> u \<longrightarrow>
            thr_joined (ts_threads (lb_threads s') ! t) \<and> \<not> thr_live (ts_threads (lb_threads s') ! t)
          \<or> thr_joined (ts_threads (lb_threads s') ! u) \<and> \<not> thr_live (ts_threads (lb_threads s') ! u)))"
proof (intro conjI allI impI)
  let ?N = "length (lb_works s)"
  have "\<exists>f. \<forall>t < ?N. ends_in mc (f t) (lb_works s ! t)"
    using assms(3) unfolding ends_in_def rtranclp_power by metis
  then obtain f where f: "\<forall>t < ?N. ends_in mc (f t) (lb_works s ! t)" by blast
  then have ns: "list_all2 (ends_in mc) (map f [0..<?N]) (lb_works s)" by (simp add: list_all2_conv_all_nth)
  show "\<exists>n. \<forall>k s'. (drain_step mc ^^ k) s s' \<longrightarrow> k \<le> n"
    using drain_bounded [OF _ ns] by blast
  fix s' assume s': "(drain_step mc)\<^sup>*\<^sup>* s s' \<and> (\<forall>s''. \<not> drain_step mc s' s'')"
  then show len: "length (lb_works s') = ?N" using drain_length by blast
  obtain ns' where ns': "list_all2 (ends_in mc) ns' (lb_works s')"
    using s' drain_bounded [OF _ ns] unfolding rtranclp_power by blast
  have "(lib_step mc)\<^sup>*\<^sup>* (lib_start ts) s'" using assms(2) drains_are_lib s' by (meson rtranclp_trans)
  then have i: "lib_inv s'" using library.reachable_inv [of "lib_start ts"] assms(1) by blast
  have "\<And>s''. \<not> drain_step mc s' s''" using s' by blast
  note e = drain_end [OF i ns' this]
  fix t assume t: "t < ?N"
  show ex: "thr_pc (ts_threads (lb_threads s') ! t) = Th_exited" using e(2) t len by (simp add: pcs_def)
  show "last (sy_log (lb_works s' ! t)) = Ev_deleted"
    using e(1) t len i done_deleted by (auto simp: lib_inv_def)
  fix u assume u: "u < ?N" "t \<noteq> u"
  have n: "length (ts_threads (lb_threads s')) = ?N" using i len by (simp add: lib_inv_def)
  have "joiner_ready (lb_threads s')" using i n t by (auto simp: lib_inv_def joiner_absent_def)
  from unjoined_ready [OF this, of t u] ex e(2) t u n len
  show "thr_joined (ts_threads (lb_threads s') ! t) \<and> \<not> thr_live (ts_threads (lb_threads s') ! t)
      \<or> thr_joined (ts_threads (lb_threads s') ! u) \<and> \<not> thr_live (ts_threads (lb_threads s') ! u)"
    by (simp add: pcs_def)
qed

section \<open>Two requests\<close>

text \<open>A client makes two requests one after the other; the worker of the first ends before the second begins.\<close>

lemma lib_sends:
  assumes "ts_joiner ts = Some j" "ts_clients ts = [Cl_idle]"
  shows "(lib_step example_gz_mach)\<^sup>*\<^sup>* \<lparr>lb_threads = ts, lb_works = vs\<rparr>
    \<lparr>lb_threads = ts\<lparr>ts_threads := ts_threads ts @ [\<lparr>thr_pc = Th_working, thr_live = True, thr_joined = False\<rparr>]\<rparr>,
     lb_works = vs @ [example_start]\<rparr>"
proof -
  let ?ts = "ts\<lparr>ts_clients := [Cl_spawning]\<rparr>"
  have "lib_step example_gz_mach \<lparr>lb_threads = ts, lb_works = vs\<rparr> (\<lparr>lb_threads = ts, lb_works = vs\<rparr>\<lparr>lb_threads := ?ts\<rparr>)"
    by (rule lib_step.client [of 0 _ _ True])
       (use assms in \<open>simp_all add: nhr_thread_create_def nhr_threads_joiner_create_ifneed_def set_client_def\<close>)
  moreover have "lib_step example_gz_mach \<lparr>lb_threads = ?ts, lb_works = vs\<rparr>
      \<lparr>lb_threads = ts\<lparr>ts_threads := ts_threads ts @ [\<lparr>thr_pc = Th_working, thr_live = True, thr_joined = False\<rparr>]\<rparr>,
       lb_works = vs @ [example_start]\<rparr>"
    using lib_step.send [of 0 "\<lparr>lb_threads = ?ts, lb_works = vs\<rparr>" example_gz_mach True
        "ts\<lparr>ts_threads := ts_threads ts @ [\<lparr>thr_pc = Th_working, thr_live = True, thr_joined = False\<rparr>]\<rparr>" example_start]
      assms example_start_ok
    by (simp add: nhr_thread_create_def set_client_def nhr_malloc_zero_def nhr_malloc_def sizeof_thread_def sent_def)
  ultimately show ?thesis by (simp add: converse_rtranclp_into_rtranclp)
qed

definition two_requests :: "sys \<Rightarrow> sys \<Rightarrow> library" where
  "two_requests v w = \<lparr>lb_threads = (th_ready 1)\<lparr>ts_threads :=
       replicate 2 \<lparr>thr_pc = Th_working, thr_live = True, thr_joined = False\<rparr>\<rparr>, lb_works = [v, w]\<rparr>"

lemma two_requests_reached:
  assumes "(sys_step example_gz_mach)\<^sup>*\<^sup>* example_start v" "(sys_step example_gz_mach)\<^sup>*\<^sup>* example_start w"
  shows "(lib_step example_gz_mach)\<^sup>*\<^sup>* (lib_start (th_ready 1)) (two_requests v w)"
proof -
  let ?th = "\<lparr>thr_pc = Th_working, thr_live = True, thr_joined = False\<rparr>"
  let ?ts = "(th_ready 1)\<lparr>ts_threads := [?th]\<rparr>"
  have "(lib_step example_gz_mach)\<^sup>*\<^sup>* (lib_start (th_ready 1)) \<lparr>lb_threads = ?ts, lb_works = [example_start]\<rparr>"
    using lib_sends [of "th_ready 1" _ "[]"] by (simp add: lib_start_def th_ready_def th_init_def)
  also have "(lib_step example_gz_mach)\<^sup>*\<^sup>* \<dots> \<lparr>lb_threads = ?ts, lb_works = [v]\<rparr>"
    using request_runs [of 0 "\<lparr>lb_threads = ?ts, lb_works = [example_start]\<rparr>"] assms(1) by simp
  also have "(lib_step example_gz_mach)\<^sup>*\<^sup>* \<dots> (two_requests v example_start)"
    using lib_sends [of ?ts _ "[v]"] by (simp add: two_requests_def th_ready_def th_init_def eval_nat_numeral)
  also have "(lib_step example_gz_mach)\<^sup>*\<^sup>* \<dots> (two_requests v w)"
    using request_runs [of 1 "two_requests v example_start"] assms(2) by (simp add: two_requests_def)
  finally show ?thesis .
qed

text \<open>The first request is finished, and its thread has left its function.\<close>

theorem library_safe_witness:
  "\<exists>s. (lib_step example_gz_mach)\<^sup>*\<^sup>* (lib_start (th_ready 1)) s
     \<and> length (lb_works s) = 2 \<and> thr_pc (ts_threads (lb_threads s) ! 0) = Th_locking
     \<and> last (sy_log (lb_works s ! 0)) = Ev_deleted
     \<and> length (filter callback_event (sy_log (lb_works s ! 0))) = 1"
proof -
  obtain v where v: "(sys_step example_gz_mach)\<^sup>*\<^sup>* example_start v" "sy_pc v = Done" "\<not> sy_cancelled v"
    using example_run by blast
  let ?s = "two_requests v example_start"
  let ?t = "?s\<lparr>lb_threads := set_pc 0 Th_locking (lb_threads ?s)\<rparr>"
  have "lib_step example_gz_mach ?s ?t"
    by (rule lib_step.thread [of 0])
       (use v(2) in \<open>simp_all add: two_requests_def function_returned_def nhr_thread_func_priv_def th_ready_def\<close>)
  with two_requests_reached [OF v(1) rtranclp.rtrancl_refl]
  have r: "(lib_step example_gz_mach)\<^sup>*\<^sup>* (lib_start (th_ready 1)) ?t" by (rule rtranclp.rtrancl_into_rtrancl)
  have "th_start (th_ready 1)" by (auto simp: th_start_def)
  from library_safe [OF this r, of 0] v(3)
  have "last (sy_log v) = Ev_deleted" "length (filter callback_event (sy_log v)) = 1"
    by (simp_all add: two_requests_def set_pc_def th_ready_def)
  with r show ?thesis
    by (intro exI [of _ ?t]) (simp add: two_requests_def set_pc_def th_ready_def)
qed

text \<open>Both requests are sent, and their workers begin to connect.\<close>

theorem library_drains_witness:
  "\<exists>s s'. (lib_step example_gz_mach)\<^sup>*\<^sup>* (lib_start (th_ready 1)) s \<and> length (lb_works s) = 2
     \<and> sy_pc (lb_works s ! 0) \<noteq> Done \<and> sy_pc (lb_works s ! 1) \<noteq> Done \<and> (drain_step example_gz_mach)\<^sup>*\<^sup>* s s'
     \<and> last (sy_log (lb_works s' ! 0)) = Ev_deleted \<and> last (sy_log (lb_works s' ! 1)) = Ev_deleted
     \<and> (thr_joined (ts_threads (lb_threads s') ! 0) \<or> thr_joined (ts_threads (lb_threads s') ! 1))"
proof -
  let ?s = "two_requests example_sys example_sys"
  have r: "(lib_step example_gz_mach)\<^sup>*\<^sup>* (lib_start (th_ready 1)) ?s"
    by (rule two_requests_reached [OF example_start_run example_start_run])
  have st: "th_start (th_ready 1)" by (auto simp: th_start_def)
  have e: "\<forall>t < length (lb_works ?s). \<exists>v. (works example_gz_mach)\<^sup>*\<^sup>* (lb_works ?s ! t) v \<and> sy_pc v = Done"
    using example_worker_run by (auto simp: two_requests_def less_Suc_eq)
  note d = library_drains [OF st r e]
  from d obtain n where "\<forall>k s'. (drain_step example_gz_mach ^^ k) ?s s' \<longrightarrow> k \<le> n" by blast
  from bounded_runs_end [OF this] obtain s' where s': "(drain_step example_gz_mach)\<^sup>*\<^sup>* ?s s'"
      "\<forall>s''. \<not> drain_step example_gz_mach s' s''" by blast
  have n: "length (lb_works ?s) = 2" by (simp add: two_requests_def)
  have t: "0 < (2 :: nat)" "1 < (2 :: nat)" "0 \<noteq> (1 :: nat)" by simp_all
  from d s' have "last (sy_log (lb_works s' ! 0)) = Ev_deleted" "last (sy_log (lb_works s' ! 1)) = Ev_deleted"
      "thr_joined (ts_threads (lb_threads s') ! 0) \<or> thr_joined (ts_threads (lb_threads s') ! 1)"
    unfolding n using t by metis+
  with r s'(1) show ?thesis
    by (intro exI [of _ ?s] exI [of _ s']) (simp add: two_requests_def example_sys_def)
qed

end
