(* ===== verification/Spec2Isabelle.thy ===== *)
theory Spec2Isabelle
  imports Nhr_Gz_Correct Nhr_Response_Correct Nhr_Response_Gzip Nhr_Map Nhr_String Nhr_Request_Correct Nhr_Methods_Correct
    Nhr_Worker_Errors Nhr_Worker_Post Nhr_Client Nhr_Worker_Typed Nhr_Response_Heap_Correct Nhr_Library_Correct
begin

text \<open>
  A verification library for libnhr, a small HTTP client in C (src/src/*.c, src/libnhr.h).

  \<^bold>\<open>The program.\<close> A client creates a request, gives it an address, header fields, parameters and
  two callbacks, and sends it (nhr_request_public.c). Sending starts a worker thread
  (nhr_request_private.c) that runs a small machine of commands: connect, send, start waiting,
  wait, inform. To send it builds the text of the message (nhr_request_method_*.c), for a
  POST with compressed parameters by way of nhr_gz.c; what it receives it hands to the response
  (nhr_response.c), which parses the head, collects the body by \<open>Content-Length\<close> or by chunks
  and decompresses it. Header fields and parameters live in a linked list (nhr_map.c). A
  thread that has finished is joined by the next one (nhr_thread.c).

  \<^bold>\<open>Conventions.\<close> \<open>Nhr_Prelude\<close> has the result type \<open>'a res\<close>, a fault or a value: an access
  outside a block, a NULL dereference, a use after a free, a failed assert and an exhausted
  script or fuel are faults, so a theorem that says \<open>Inr\<close> says that none of them happens. It
  also has the constants of nhr_common.c and the locale \<open>step_system\<close>, by which an invariant
  of a step relation holds in all reachable states. \<open>C_String\<close> and \<open>C_Scan\<close> are the functions
  of string.h and stdio.h that the code uses, over bytes that may hold no NUL at all.

  \<^bold>\<open>Theories and code.\<close>
  \<^item> \<open>Nhr_Memory\<close> (nhr_memory.c): blocks by value where one pointer owns them, an explicit heap
    where nodes are linked. \<open>Nhr_String\<close> (nhr_string.c).
  \<^item> \<open>Nhr_Map\<close> (nhr_map.c): the linked list in the heap, the list of entries it stands for,
    the refinement of the append, and the freeing of exactly what the map owns.
  \<^item> \<open>Nhr_Gz\<close>, \<open>Nhr_Gz_Correct\<close> (nhr_gz.c): compression and decompression over zlib. The entry
    points of zlib are parameters; \<open>deflate_contract\<close> and \<open>inflate_contract\<close> state their
    documented behaviour, and \<open>stored_zlib\<close> is a concrete instance that satisfies both. The
    loops over zlib carry fuel; it is enough when it exceeds what the contract lets zlib need,
    which \<open>compress_ready\<close> and \<open>inflate_ready\<close> say.
  \<^item> \<open>Nhr_Response\<close>, \<open>Nhr_Response_Body\<close>, \<open>Nhr_Response_Correct\<close> (nhr_response.c): parsing of
    the head, the body from any number of packets, chunks, and the inputs on which the parser
    goes wrong. \<open>Nhr_Response_Gzip\<close>: a compressed body, collected and decoded.
    \<open>Nhr_Response_Chunked\<close>: a chunked response from its head to its last chunk, over packets.
    \<open>Nhr_Response_Safe\<close>: the type \<open>resp_typed\<close> of a response, kept by every packet whatever it
    holds, and the two ways a peer makes the body leave its block.
  \<^item> \<open>Nhr_Request\<close>, \<open>Nhr_Request_Correct\<close> (nhr_request_public.c, nhr_request.h): the request, its
    settings, header fields and parameters, sending and cancelling. The locale \<open>slot_map\<close> is
    what the request needs of a map, interpreted on the entries of \<open>Nhr_Map\<close>.
  \<^item> \<open>Nhr_Request_Heap\<close>, \<open>Nhr_Heap_Ownership\<close>, \<open>Nhr_Request_Heap_Correct\<close> (nhr_request_public.c and
    nhr_request_delete of nhr_request_private.c): the same calls on the heap, where the request,
    its mutexes, strings, nodes and response are blocks. \<open>owns\<close> says which pointers own all that
    the heap has beyond an earlier one; the locales \<open>member\<close> and \<open>string_member\<close> say what a call
    needs of a member of the request, interpreted on the four strings and the two maps.
    \<open>request_rep\<close> relates the blocks to the value of \<open>Nhr_Request\<close>.
  \<^item> \<open>Nhr_Response_Heap\<close>, \<open>Nhr_Response_Heap_Correct\<close> (nhr_response.c, nhr_request_recv): receiving on
    the same heap, where the response and its body are blocks; the body is reallocated as it grows
    and replaced when it is decompressed. \<open>resp_holds\<close> relates the blocks to the value of
    \<open>Nhr_Response\<close>.
  \<^item> \<open>Nhr_Methods\<close>, \<open>Nhr_Methods_Correct\<close> (nhr_request_method_common.c, _get.c, _post.c): the texts of
    GET and POST messages. Every write is checked against the block that was allocated; the
    locale \<open>capped_buffer\<close> has the lemma that a sequence of writes whose lengths add up to no
    more than the block is safe and writes their concatenation.
  \<^item> \<open>Nhr_Worker\<close> (nhr_request_private.c): the worker as a state machine. The answers of the
    operating system are scripts in the state, consumed call by call, so a theorem about given
    scripts is one about those answers; what the worker does to the outside is a log of events.
    A handler is one step, and the client's calls interleave with the steps. This loses no
    interleaving: a handler never reads the command, so a cancel inside it acts like one before
    it (the handler stores a command later) or after it, and these are steps of their own.
  \<^item> \<open>Nhr_Worker_Correct\<close>: each handler is quiet (no callback, no lost socket) and which command
    it leaves. \<open>Nhr_Worker_Safety\<close>: the invariant \<open>winv\<close> of all interleavings. \<open>Nhr_Worker_Runs\<close>: whole
    runs, from connecting to the deletion of the request. \<open>Nhr_Worker_Errors\<close>: silence, failed
    connections, and the losses. \<open>Nhr_Worker_Post\<close>: an upload answered in chunks.
    \<open>Nhr_Worker_Typed\<close>: what a callback gets is readable.
  \<^item> \<open>Nhr_Client\<close>: the calls of a client from nhr_request_create to nhr_request_send, and the
    message they determine.
  \<^item> \<open>Nhr_Thread\<close>, \<open>Nhr_Thread_Correct\<close> (nhr_thread.c): recursive mutexes, thread creation and the
    joiner, with the locale \<open>exclusive\<close> for the mutex.
  \<^item> \<open>Nhr_Library\<close>, \<open>Nhr_Library_Correct\<close>: all threads, clients and workers together. A thread goes from its
    function to the joiner when the worker of its request is done, which is how the invariants of
    the two parts meet (\<open>lib_inv\<close>).

  \<^bold>\<open>What is shown.\<close> A GET request to a host that answers ends with its response and everything
  released (\<open>get_exchange\<close>), and so does an upload answered in chunks (\<open>post_exchange\<close>), by way of the text of the message (\<open>get_message\<close>) and the
  reassembly of the body (\<open>body_reassembled\<close>, \<open>chunked_body_decoded\<close>). In every interleaving
  there is at most one callback and nothing but winding up after it, an error callback has a
  code, sockets are not lost, and a thread that ends has informed its client once. Silence and
  failed connections end as they should. A response that reaches its callback is readable in its
  whole length, whatever the peer has sent (\<open>responses_readable\<close>). The linked structures do what
  the values say (\<open>heap_calls_refine\<close>) and are freed exactly once (\<open>request_memory_returned\<close>). Receiving on the heap agrees with
  receiving on values for whatever the peer sends, up to the same fault (\<open>heap_receive_agrees\<close>),
  so a whole exchange gives back all memory (\<open>exchange_memory_returned\<close>). With any number of requests at
  once a thread is joined and freed only when its request is deleted (\<open>library_safe\<close>), and when
  the workers reach their ends the whole library drains under every schedule (\<open>library_drains\<close>). These
  two and the properties of \<open>Nhr_Thread_Correct\<close> start with one first client or with the joiner already
  made (\<open>th_start\<close>); what two first clients at once can do is \<open>first_threads_race\<close>.
  The gzip results hold for a \<open>uLong\<close> of four and of eight bytes, and say for which lengths the footer
  leaves its block with eight. The chunk results ask that nothing that reads as a chunk length lies
  behind a packet in the receive buffer (\<open>no_chunk\<close>); \<open>chunks_read_twice\<close> is what happens else.
  Compression round trips, maps free what they own,
  threads are joined at most once and never block each other for good. The development also shows where the code
  fails: chunks longer than the buffer, chunks read twice, a content length
  that wraps around, bytes behind a decoded body, a head in two packets, a stale empty line, the
  eight-byte \<open>uLong\<close> of the gzip footer, the compressed empty body, a lost cancel, a
  connection closed without an answer, partial sends, a leaked address list, refused
  connections that are not retried, and the race of two first threads.

  \<^bold>\<open>Not modelled.\<close> The Windows branches and the builds with a feature switched off; the
  SIGPIPE handler and the logging of unprocessed fields, which print; the tests and their vendored JSON
  parser. \<open>command_mutex\<close> guards single reads and writes of one field, which are atomic steps
  here, and \<open>work_mutex\<close> is taken by the worker alone, so the worker's machine leaves both out;
  on the heap they are blocks that are allocated and freed. The blocks that live only inside one call, the
  text of a message and the working buffers of the compression, are blocks by value throughout.
  What the map does not cover beyond this are comments, prototypes, includes, switches of the
  preprocessor and the branches of other platforms, which have no behaviour to model.
\<close>

end
